(* ===== verification/Prelude.thy ===== *)
theory Prelude
  imports Main "HOL-Library.Word" "HOL-Library.Signed_Division"
begin

text \<open>
  Shared vocabulary of the development: the machine integers of the C code, the result of
  running a piece of C (\<open>outcome\<close>), the overwriting of a range of bytes, and the generic lemmas
  on lists and words that the components use.

  A C function that may hit undefined behaviour, call \<^verbatim>\<open>exit\<close> or loop for ever returns an
  \<open>outcome\<close>: \<open>Ret\<close> a value, \<open>Undef\<close> (a NULL or freed pointer is dereferenced, an array or
  buffer is accessed out of range), \<open>Exit\<close> (\<^verbatim>\<open>exit(EXIT_FAILURE)\<close>), or \<open>Diverge\<close>.
\<close>

type_synonym byte = "8 word"
type_synonym u32 = "32 word"
type_synonym u64 = "64 word"

text \<open>A pointer is an address or NULL.\<close>

type_synonym ptr = "nat option"

datatype 'a outcome = Ret 'a | Undef | Exit | Diverge

fun obind :: "'a outcome \<Rightarrow> ('a \<Rightarrow> 'b outcome) \<Rightarrow> 'b outcome" where
  "obind (Ret x) f = f x"
| "obind Undef f = Undef"
| "obind Exit f = Exit"
| "obind Diverge f = Diverge"

named_theorems c_defs \<open>definitions of the C-level operations\<close>
named_theorems c_spec \<open>results of the C-level operations on well-formed states\<close>

lemma obind_Ret_iff: "obind m f = Ret y \<longleftrightarrow> (\<exists>x. m = Ret x \<and> f x = Ret y)"
  by (cases m) auto

lemma obind_assoc [simp]: "obind (obind m f) g = obind m (\<lambda>x. obind (f x) g)"
  by (cases m) auto

lemma obind_cong [fundef_cong]:
  "m = m' \<Longrightarrow> (\<And>x. m' = Ret x \<Longrightarrow> f x = f' x) \<Longrightarrow> obind m f = obind m' f'"
  by (cases m') auto

subsection \<open>Overwriting a range of a list\<close>

text \<open>The effect of \<^verbatim>\<open>memcpy(old + pos, new, n)\<close> on the target.\<close>

definition overwrite :: "nat \<Rightarrow> 'a list \<Rightarrow> 'a list \<Rightarrow> 'a list" where
  "overwrite pos new old = take pos old @ new @ drop (pos + length new) old"

lemma length_overwrite [simp]:
  "pos + length new \<le> length old \<Longrightarrow> length (overwrite pos new old) = length old"
  by (simp add: overwrite_def)

lemma overwrite_Nil [simp]: "overwrite pos [] old = old"
  by (simp add: overwrite_def)

lemma take_overwrite [simp]:
  "n \<le> pos \<Longrightarrow> pos \<le> length old \<Longrightarrow> take n (overwrite pos new old) = take n old"
  by (simp add: overwrite_def min_def)

lemma drop_overwrite [simp]:
  "pos + length new \<le> n \<Longrightarrow> pos \<le> length old \<Longrightarrow> drop n (overwrite pos new old) = drop n old"
  by (simp add: overwrite_def)

lemma overwrite_read [simp]:
  "pos \<le> length old \<Longrightarrow> n = length new \<Longrightarrow> take n (drop pos (overwrite pos new old)) = new"
  by (simp add: overwrite_def)

lemma nth_overwrite:
  "i < length old \<Longrightarrow> pos + length new \<le> length old \<Longrightarrow>
   overwrite pos new old ! i = (if pos \<le> i \<and> i < pos + length new then new ! (i - pos) else old ! i)"
  by (auto simp: overwrite_def nth_append min_def add.commute)

lemma overwrite_full: "length new = length old \<Longrightarrow> overwrite 0 new old = new"
  by (simp add: overwrite_def)

lemma overwrite_overwrite_adjacent:
  "pos + length xs + length ys \<le> length old \<Longrightarrow>
   overwrite (pos + length xs) ys (overwrite pos xs old) = overwrite pos (xs @ ys) old"
  by (simp add: overwrite_def ac_simps)

subsection \<open>First match in a list\<close>

text \<open>
  The list-level counterpart of a search loop that stops at the first match: update it, or
  delete it.
\<close>

fun upd_first :: "('a \<Rightarrow> bool) \<Rightarrow> ('a \<Rightarrow> 'a) \<Rightarrow> 'a list \<Rightarrow> 'a list" where
  "upd_first P f [] = []"
| "upd_first P f (x # xs) = (if P x then f x # xs else x # upd_first P f xs)"

fun del_first :: "('a \<Rightarrow> bool) \<Rightarrow> 'a list \<Rightarrow> 'a list" where
  "del_first P [] = []"
| "del_first P (x # xs) = (if P x then xs else x # del_first P xs)"

lemma length_upd_first [simp]: "length (upd_first P f xs) = length xs"
  by (induction xs) auto

lemma upd_first_id [simp]: "\<not> (\<exists>x\<in>set xs. P x) \<Longrightarrow> upd_first P f xs = xs"
  by (induction xs) auto

lemma del_first_id [simp]: "\<not> (\<exists>x\<in>set xs. P x) \<Longrightarrow> del_first P xs = xs"
  by (induction xs) auto

lemma set_del_first_subset: "set (del_first P xs) \<subseteq> set xs"
  by (induction xs) auto

lemma upd_first_append:
  "upd_first P f (xs @ ys) = (if \<exists>x\<in>set xs. P x then upd_first P f xs @ ys else xs @ upd_first P f ys)"
  by (induction xs) auto

lemma find_upd_first: "(\<And>x. P x \<Longrightarrow> P (f x)) \<Longrightarrow> find P (upd_first P f xs) = map_option f (find P xs)"
  by (induction xs) auto

lemma del_first_append:
  "del_first P (xs @ ys) = (if \<exists>x\<in>set xs. P x then del_first P xs @ ys else xs @ del_first P ys)"
  by (induction xs) auto

lemma find_split:
  "find P xs = Some x \<Longrightarrow> \<exists>ys zs. xs = ys @ x # zs \<and> P x \<and> (\<forall>y\<in>set ys. \<not> P y)"
proof (induction xs)
  case Nil
  then show ?case by simp
next
  case (Cons a xs)
  show ?case
  proof (cases "P a")
    case True
    with Cons.prems have "a # xs = [] @ x # xs" "P x" by simp_all
    then show ?thesis by (metis empty_iff list.set(1))
  next
    case False
    with Cons obtain ys zs where "xs = ys @ x # zs" "P x" "\<forall>y\<in>set ys. \<not> P y" by auto
    with False have "a # xs = (a # ys) @ x # zs" "\<forall>y\<in>set (a # ys). \<not> P y" by simp_all
    with \<open>P x\<close> show ?thesis by blast
  qed
qed

subsection \<open>Words\<close>

lemma unat_of_nat_u32: "n < 4294967296 \<Longrightarrow> unat (of_nat n :: u32) = n"
  by (subst unat_of_nat) simp

lemma unat_lt_u32: "unat (x :: u32) < 4294967296"
  using unsigned_less [of x, where ?'a = nat] by simp

lemma unat_add_u32: "unat x + unat y < 4294967296 \<Longrightarrow> unat (x + y :: u32) = unat x + unat y"
  by (subst unat_plus_if') simp

lemma unat_minus_u32: "unat y \<le> unat x \<Longrightarrow> unat (x - y :: u32) = unat x - unat y"
  by (simp add: unat_sub word_le_nat_alt)

lemma u32_eq_0: "unat (x :: u32) = 0 \<longleftrightarrow> x = 0"
  by (rule unsigned_eq_0_iff)

text \<open>Values that are the same signed and unsigned.\<close>

lemma sint_small:
  assumes "unat (w :: u32) = n" "n < 2147483648"
  shows "sint w = int n"
proof -
  from assms(1) have "uint w = int n" by (metis uint_nat)
  with assms(2) show ?thesis by (simp add: sint_uint signed_take_bit_int_eq_self)
qed

lemma sint_small_u64:
  assumes "unat (w :: u64) = n" "n < 9223372036854775808"
  shows "sint w = int n"
proof -
  from assms(1) have "uint w = int n" by (metis uint_nat)
  with assms(2) show ?thesis by (simp add: sint_uint signed_take_bit_int_eq_self)
qed

end
