(* ===== verification/Common.thy ===== *)
theory Common
  imports Prelude
begin

text \<open>
  \<^verbatim>\<open>common.h\<close>: the sizes of the file system, the request, file and status codes, the message and
  \<^verbatim>\<open>stat\<close> structures; and what the C library gives the service: the passwd entry, the host files
  under \<^verbatim>\<open>~/libfs\<close>, their stdio operations, and the clock.
\<close>

subsection \<open>Sizes and codes\<close>

abbreviation (input) MAX_FILENAME_LEN :: nat where "MAX_FILENAME_LEN \<equiv> 256"
abbreviation (input) MAX_MSG_SIZE :: nat where "MAX_MSG_SIZE \<equiv> 4096"
abbreviation (input) DATA_BLOCK_ALLOC_SIZE :: nat where "DATA_BLOCK_ALLOC_SIZE \<equiv> 4096"
abbreviation (input) FILE_MAX_BLOCKS :: nat where "FILE_MAX_BLOCKS \<equiv> 100"

definition NUM_OF_DATA_BLOCKS :: nat where
  "NUM_OF_DATA_BLOCKS = 1000"

text \<open>
  \<^verbatim>\<open>sizeof(struct request_t)\<close> (and of \<^verbatim>\<open>struct response_t\<close>) on the LP64 targets the code is written
  for: a \<^verbatim>\<open>long\<close> and five 4-byte fields, padded to a multiple of 8.
\<close>

definition MAX_MSG_DATA_SIZE :: nat where
  "MAX_MSG_DATA_SIZE = MAX_MSG_SIZE - 32"

text \<open>\<open>Unknown_Type\<close>: any other number in the field of a message; the compiler does not keep the enumeration closed.\<close>

datatype req_type =
  CREATE | CHMODE | RENAME | UNLINK | OPEN | READ | WRITE | SEEK | CLOSE | STAT | LINK | SYMLINK | Unknown_Type u32

datatype status = SUCCESS | FAILURE | FILENAME_TAKEN | FILE_NOT_FOUND | INSUFFICIENT_PERMS | DOUBLE_WRITE

text \<open>The integer value of a status, for the places where the code compares it with a literal.\<close>

fun status_code :: "status \<Rightarrow> int" where
  "status_code SUCCESS = 0"
| "status_code FAILURE = 1"
| "status_code FILENAME_TAKEN = 2"
| "status_code FILE_NOT_FOUND = 3"
| "status_code INSUFFICIENT_PERMS = 4"
| "status_code DOUBLE_WRITE = 5"

lemma status_code_nonneg [simp]: "0 \<le> status_code s" "status_code s \<noteq> -1" "status_code s \<noteq> -2"
  by (cases s; simp)+

text \<open>The enumerations are ordered as their integers.\<close>

instantiation status :: linorder
begin

definition less_eq_status :: "status \<Rightarrow> status \<Rightarrow> bool" where
  "less_eq_status s t \<longleftrightarrow> status_code s \<le> status_code t"

definition less_status :: "status \<Rightarrow> status \<Rightarrow> bool" where
  "less_status s t \<longleftrightarrow> status_code s < status_code t"

instance
proof
  fix s t :: status
  show "s \<le> t \<Longrightarrow> t \<le> s \<Longrightarrow> s = t" by (cases s; cases t) (simp_all add: less_eq_status_def)
qed (auto simp: less_eq_status_def less_status_def)

end

text \<open>\<^verbatim>\<open>if (status)\<close>: every status but \<open>SUCCESS\<close> counts as true.\<close>

lemma status_pos [simp]: "SUCCESS < st \<longleftrightarrow> st \<noteq> SUCCESS" "SUCCESS \<le> st"
  by (cases st; simp add: less_status_def less_eq_status_def)+

abbreviation (input) F_REGULAR :: u32 where "F_REGULAR \<equiv> 0"
abbreviation (input) F_SYMLINK :: u32 where "F_SYMLINK \<equiv> 1"
abbreviation (input) READ_ONLY :: u32 where "READ_ONLY \<equiv> 0"
abbreviation (input) WRITE_ONLY :: u32 where "WRITE_ONLY \<equiv> 1"

record timespec =
  tv_sec :: u64
  tv_nsec :: u64

record stat_t =
  st_size :: u64
  st_atim :: timespec
  st_mtim :: timespec
  st_ctim :: timespec

text \<open>\<open>msg_data\<close> is the flexible array member \<^verbatim>\<open>data[]\<close>.\<close>

record request_t =
  rq_seq :: u64
  rq_type :: req_type
  rq_multipart :: u32
  rq_data_size :: u32
  rq_data_offset :: u32
  rq_part_size :: u32
  rq_data :: "byte list"

record response_t =
  rs_seq :: u64
  rs_status :: status
  rs_multipart :: u32
  rs_data_size :: u32
  rs_data_offset :: u32
  rs_part_size :: u32
  rs_data :: "byte list"

subsection \<open>The host: passwd entry, files, stdio\<close>

text \<open>
  \<open>pw_dir\<close> is the home directory \<^verbatim>\<open>getpwuid(getuid())\<close> reports (\<open>None\<close> when it returns NULL),
  \<open>can_open\<close> tells which paths \<^verbatim>\<open>fopen\<close> may open, \<open>files\<close> holds the contents. Every operation of
  the service asks for the passwd entry again, so the \<^verbatim>\<open>strcat\<close> onto \<^verbatim>\<open>pw_dir\<close> starts from the home
  directory each time.
\<close>

record host =
  pw_dir :: "string option"
  can_open :: "string \<Rightarrow> bool"
  files :: "string \<Rightarrow> byte list option"

definition libfs_path :: "host \<Rightarrow> string \<Rightarrow> string outcome" where
  "libfs_path h name = (case pw_dir h of None \<Rightarrow> Exit | Some d \<Rightarrow> Ret (d @ ''/libfs'' @ name))"

datatype fmode = F_r | F_rplus | F_w | F_aplus

definition fopen :: "host \<Rightarrow> string \<Rightarrow> fmode \<Rightarrow> host option" where
  "fopen h p m =
     (if \<not> can_open h p then None
      else case m of
        F_r \<Rightarrow> (if files h p = None then None else Some h)
      | F_rplus \<Rightarrow> (if files h p = None then None else Some h)
      | F_w \<Rightarrow> Some (h\<lparr>files := (files h)(p \<mapsto> [])\<rparr>)
      | F_aplus \<Rightarrow> Some (if files h p = None then h\<lparr>files := (files h)(p \<mapsto> [])\<rparr> else h))"

definition contents :: "host \<Rightarrow> string \<Rightarrow> byte list" where
  "contents h p = (case files h p of None \<Rightarrow> [] | Some c \<Rightarrow> c)"

text \<open>
  \<^verbatim>\<open>fseek\<close> to \<open>pos\<close> and \<^verbatim>\<open>fwrite\<close>: in the modes \<open>r+\<close> and \<open>w\<close> the bytes land at \<open>pos\<close> (a hole is
  filled with zeros), in the append mode they land at the end of the file whatever the position.
\<close>

definition fwrite_at :: "host \<Rightarrow> string \<Rightarrow> nat \<Rightarrow> byte list \<Rightarrow> host" where
  "fwrite_at h p pos bs =
     (if bs = [] then h
      else h\<lparr>files := (files h)(p \<mapsto> overwrite pos bs (contents h p @ replicate (pos - length (contents h p)) 0))\<rparr>)"

definition fwrite_append :: "host \<Rightarrow> string \<Rightarrow> byte list \<Rightarrow> host" where
  "fwrite_append h p bs = h\<lparr>files := (files h)(p \<mapsto> contents h p @ bs)\<rparr>"

definition fread_at :: "host \<Rightarrow> string \<Rightarrow> nat \<Rightarrow> nat \<Rightarrow> byte list" where
  "fread_at h p pos n = take n (drop pos (contents h p))"

end
