(* ===== verification/Block_Interface.thy ===== *)
theory Block_Interface
  imports Common
begin

text \<open>
  What the file I/O of \<^verbatim>\<open>write_inode\<close> and \<^verbatim>\<open>read_inode\<close> relies on: a device with blocks of
  \<open>DATA_BLOCK_ALLOC_SIZE\<close> bytes that are allocated in order. \<open>ok d k\<close>: the device is well formed
  and its first \<open>k\<close> blocks are in use; \<open>blk d b\<close>: the content of block \<open>b\<close>. The three operations
  are those of \<^verbatim>\<open>service/inode.c\<close>: \<open>occ\<close> (\<^verbatim>\<open>occupy_block_table_slot\<close>), \<open>upd\<close>
  (\<^verbatim>\<open>update_block_table_slot\<close>), \<open>rd\<close> (\<^verbatim>\<open>read_block_table_slot\<close>).
\<close>

type_synonym 'd occupy_op = "u32 \<Rightarrow> byte list \<Rightarrow> u32 \<Rightarrow> u32 \<Rightarrow> 'd \<Rightarrow> (status \<times> u32 \<times> 'd) outcome"
type_synonym 'd update_op = "u32 \<Rightarrow> byte list \<Rightarrow> u32 \<Rightarrow> u32 \<Rightarrow> 'd \<Rightarrow> (status \<times> 'd) outcome"
type_synonym 'd read_op = "u32 \<Rightarrow> byte list \<Rightarrow> nat \<Rightarrow> u32 \<Rightarrow> u32 \<Rightarrow> 'd \<Rightarrow> (status \<times> byte list) outcome"

locale block_device =
  fixes ok :: "'d \<Rightarrow> nat \<Rightarrow> bool"
    and blk :: "'d \<Rightarrow> nat \<Rightarrow> byte list"
    and occ :: "'d occupy_op"
    and upd :: "'d update_op"
    and rd :: "'d read_op"
  assumes ok_bound: "ok d k \<Longrightarrow> k \<le> NUM_OF_DATA_BLOCKS"
    and length_blk: "ok d k \<Longrightarrow> b < k \<Longrightarrow> length (blk d b) = DATA_BLOCK_ALLOC_SIZE"
    and occ_ok: "ok d k \<Longrightarrow> k < NUM_OF_DATA_BLOCKS \<Longrightarrow> unat n \<le> DATA_BLOCK_ALLOC_SIZE \<Longrightarrow>
      unat n \<le> length buf \<Longrightarrow>
      \<exists>d'. occ ino buf n sa d = Ret (SUCCESS, of_nat (Suc k), d') \<and> ok d' (Suc k) \<and>
        blk d' k = take (unat n) buf @ replicate (DATA_BLOCK_ALLOC_SIZE - unat n) 0 \<and>
        (\<forall>b<k. blk d' b = blk d b)"
    and occ_full: "ok d NUM_OF_DATA_BLOCKS \<Longrightarrow> occ ino buf n sa d = Ret (FAILURE, sa, d)"
    and upd_ok: "ok d k \<Longrightarrow> unat s < k \<Longrightarrow> unat off + unat n \<le> DATA_BLOCK_ALLOC_SIZE \<Longrightarrow>
      unat n \<le> length buf \<Longrightarrow>
      \<exists>d'. upd s buf off n d = Ret (SUCCESS, d') \<and> ok d' k \<and>
        blk d' (unat s) = overwrite (unat off) (take (unat n) buf) (blk d (unat s)) \<and>
        (\<forall>b<k. b \<noteq> unat s \<longrightarrow> blk d' b = blk d b)"
    and upd_short: "ok d k \<Longrightarrow> unat s < k \<Longrightarrow> length buf < unat n \<Longrightarrow> upd s buf off n d = Undef"
    and rd_ok: "ok d k \<Longrightarrow> unat s < k \<Longrightarrow> unat off + unat n \<le> DATA_BLOCK_ALLOC_SIZE \<Longrightarrow>
      pos + unat n \<le> length buf \<Longrightarrow>
      rd s buf pos off n d = Ret (SUCCESS, overwrite pos (take (unat n) (drop (unat off) (blk d (unat s)))) buf)"

end
