(* ===== verification/Data_Blocks.thy ===== *)
theory Data_Blocks
  imports Block_Interface
begin

text \<open>
  The block table of \<^verbatim>\<open>service/inode.c\<close> (\<^verbatim>\<open>data_block_table\<close>, an array of \<open>NUM_OF_DATA_BLOCKS\<close>
  entries) and the host file \<^verbatim>\<open>~/libfs/data\<close> that holds the bytes: allocating, updating, reading
  and freeing a slot, the invariant under which slot \<open>i\<close> really lives at offset \<open>4096 * i\<close> of the
  file, and the proof that the block operations provide the interface \<open>block_device\<close>.
\<close>

record data_block_t =
  allocated :: bool
  inode_index :: u32

record disk =
  data_block_table :: "data_block_t list"
  host :: host

subsection \<open>The operations\<close>

text \<open>The loop of \<^verbatim>\<open>occupy_block_table_slot\<close>: the first slot that is not allocated.\<close>

fun free_slot :: "nat \<Rightarrow> data_block_t list \<Rightarrow> nat option" where
  "free_slot i [] = None"
| "free_slot i (b # bs) = (if \<not> allocated b then Some i else free_slot (Suc i) bs)"

definition occupy_block_table_slot :: "disk occupy_op" where
  "occupy_block_table_slot ino buf buf_size slot_address d =
     (case free_slot 0 (data_block_table d) of
        None \<Rightarrow> Ret (FAILURE, slot_address, d)
      | Some i \<Rightarrow>
          (let d1 = d\<lparr>data_block_table :=
                       (data_block_table d)[i := \<lparr>allocated = True, inode_index = ino\<rparr>]\<rparr>
           in obind (libfs_path (host d1) ''/data'') (\<lambda>path.
              case fopen (host d1) path F_aplus of
                None \<Rightarrow> Exit
              | Some h \<Rightarrow>
                  if unat buf_size \<le> DATA_BLOCK_ALLOC_SIZE \<and> unat buf_size \<le> length buf
                  then let write_buf = overwrite 0 (take (unat buf_size) buf) (replicate DATA_BLOCK_ALLOC_SIZE 0)
                       in Ret (SUCCESS, of_nat (Suc i), d1\<lparr>host := fwrite_append h path write_buf\<rparr>)
                  else Undef)))"

definition update_block_table_slot :: "disk update_op" where
  "update_block_table_slot block_index buf offset nbytes d =
     (if unat block_index > NUM_OF_DATA_BLOCKS then Ret (FAILURE, d)
      else obind (libfs_path (host d) ''/data'') (\<lambda>path.
           case fopen (host d) path F_rplus of
             None \<Rightarrow> Exit
           | Some h \<Rightarrow>
               if unat nbytes \<le> length buf
               then Ret (SUCCESS, d\<lparr>host :=
                      fwrite_at h path (unat (4096 * block_index + offset)) (take (unat nbytes) buf)\<rparr>)
               else Undef))"

text \<open>\<open>buf\<close> and \<open>pos\<close> are the pointer argument \<^verbatim>\<open>buf + pos\<close>; the changed buffer is returned.\<close>

definition read_block_table_slot :: "disk read_op" where
  "read_block_table_slot block_index buf pos offset nbytes d =
     (if unat block_index > NUM_OF_DATA_BLOCKS then Ret (FAILURE, buf)
      else obind (libfs_path (host d) ''/data'') (\<lambda>path.
           case fopen (host d) path F_rplus of
             None \<Rightarrow> Exit
           | Some h \<Rightarrow>
               if pos + unat nbytes \<le> length buf
               then Ret (SUCCESS,
                      overwrite pos (fread_at h path (unat (4096 * block_index + offset)) (unat nbytes)) buf)
               else Undef))"

text \<open>
  \<^verbatim>\<open>free_block_table_slot\<close> (never called) falls off its end without a return value on success.
\<close>

definition free_block_table_slot :: "u32 \<Rightarrow> disk \<Rightarrow> (status option \<times> disk) outcome" where
  "free_block_table_slot block_index d =
     (if unat block_index > NUM_OF_DATA_BLOCKS then Ret (Some FAILURE, d)
      else if unat block_index < length (data_block_table d)
      then Ret (None, d\<lparr>data_block_table :=
             (data_block_table d)[unat block_index := \<lparr>allocated = False, inode_index = -1\<rparr>]\<rparr>)
      else Undef)"

subsection \<open>The well-formed disk\<close>

definition data_path :: "disk \<Rightarrow> string" where
  "data_path d = (case pw_dir (host d) of None \<Rightarrow> [] | Some dir \<Rightarrow> dir @ ''/libfs'' @ ''/data'')"

definition data_bytes :: "disk \<Rightarrow> byte list" where
  "data_bytes d = contents (host d) (data_path d)"

definition block_at :: "disk \<Rightarrow> nat \<Rightarrow> byte list" where
  "block_at d b = take DATA_BLOCK_ALLOC_SIZE (drop (DATA_BLOCK_ALLOC_SIZE * b) (data_bytes d))"

text \<open>
  \<open>disk_ok d k\<close>: the first \<open>k\<close> slots and no others are allocated, and the data file holds exactly
  their blocks. This is the state the service is in as long as no block has been freed.
\<close>

definition disk_ok :: "disk \<Rightarrow> nat \<Rightarrow> bool" where
  "disk_ok d k \<longleftrightarrow> length (data_block_table d) = NUM_OF_DATA_BLOCKS \<and> k \<le> NUM_OF_DATA_BLOCKS \<and>
     (\<forall>i<NUM_OF_DATA_BLOCKS. allocated (data_block_table d ! i) \<longleftrightarrow> i < k) \<and>
     pw_dir (host d) \<noteq> None \<and> can_open (host d) (data_path d) \<and>
     (0 < k \<longrightarrow> files (host d) (data_path d) \<noteq> None) \<and>
     length (data_bytes d) = DATA_BLOCK_ALLOC_SIZE * k"

lemma free_slot_prefix:
  "(\<And>j. j < length bs \<Longrightarrow> allocated (bs ! j) \<longleftrightarrow> i + j < k) \<Longrightarrow> i \<le> k \<Longrightarrow>
   free_slot i bs = (if k < i + length bs then Some k else None)"
proof (induction bs arbitrary: i)
  case Nil
  then show ?case by simp
next
  case (Cons b bs)
  from Cons.prems(1) [of 0] have b: "allocated b \<longleftrightarrow> i < k" by simp
  have "allocated (bs ! j) \<longleftrightarrow> Suc i + j < k" if "j < length bs" for j
    using Cons.prems(1) [of "Suc j"] that by simp
  with Cons.IH [of "Suc i"] b Cons.prems(2) show ?case by (cases "i < k") auto
qed

lemma free_slot_ok: "disk_ok d k \<Longrightarrow>
  free_slot 0 (data_block_table d) = (if k < NUM_OF_DATA_BLOCKS then Some k else None)"
  using free_slot_prefix [of "data_block_table d" 0 k] by (auto simp: disk_ok_def)

text \<open>In general the slot found is free, and every slot before it is taken.\<close>

lemma free_slot_SomeD:
  "free_slot i bs = Some n \<Longrightarrow>
   i \<le> n \<and> n < i + length bs \<and> \<not> allocated (bs ! (n - i)) \<and> (\<forall>j<n - i. allocated (bs ! j))"
proof (induction bs arbitrary: i)
  case Nil
  then show ?case by simp
next
  case (Cons b bs)
  show ?case
  proof (cases "allocated b")
    case False
    with Cons.prems show ?thesis by auto
  next
    case True
    with Cons.prems Cons.IH [of "Suc i"] have
      IH: "Suc i \<le> n" "n < Suc i + length bs" "\<not> allocated (bs ! (n - Suc i))"
        "\<forall>j<n - Suc i. allocated (bs ! j)" by auto
    then obtain m where m: "n - i = Suc m" "n - Suc i = m" by (metis Suc_diff_le diff_Suc_Suc)
    have "allocated ((b # bs) ! j)" if "j < n - i" for j
      using that IH(4) True m by (cases j) auto
    with IH m show ?thesis by auto
  qed
qed

subsection \<open>The operations on a well-formed disk\<close>

lemma host_simps [simp]:
  "pw_dir (fwrite_append h p bs) = pw_dir h" "can_open (fwrite_append h p bs) = can_open h"
  "pw_dir (fwrite_at h p pos bs) = pw_dir h" "can_open (fwrite_at h p pos bs) = can_open h"
  "contents (fwrite_append h p bs) p = contents h p @ bs"
  "files (fwrite_append h p bs) p = Some (contents h p @ bs)"
  by (simp_all add: fwrite_append_def fwrite_at_def contents_def)

lemma contents_fwrite_at:
  "pos + length bs \<le> length (contents h p) \<Longrightarrow>
   contents (fwrite_at h p pos bs) p = overwrite pos bs (contents h p)"
  by (auto simp: fwrite_at_def contents_def split: option.splits)

lemma fopen_aplus:
  "can_open h p \<Longrightarrow> \<exists>h'. fopen h p F_aplus = Some h' \<and> pw_dir h' = pw_dir h \<and> can_open h' = can_open h \<and>
     contents h' p = contents h p"
  by (auto simp: fopen_def contents_def)

lemma fopen_rplus:
  "can_open h p \<Longrightarrow> files h p \<noteq> None \<Longrightarrow> fopen h p F_rplus = Some h"
  by (auto simp: fopen_def)

lemma disk_ok_path: "disk_ok d k \<Longrightarrow> libfs_path (host d) ''/data'' = Ret (data_path d)"
  by (auto simp: disk_ok_def libfs_path_def data_path_def)

lemma data_path_cong: "pw_dir (host d') = pw_dir (host d) \<Longrightarrow> data_path d' = data_path d"
  by (simp add: data_path_def)

lemma length_block_at: "disk_ok d k \<Longrightarrow> b < k \<Longrightarrow> length (block_at d b) = DATA_BLOCK_ALLOC_SIZE"
  by (auto simp: disk_ok_def block_at_def)

lemma occupy_ok:
  assumes ok: "disk_ok d k" and k: "k < NUM_OF_DATA_BLOCKS"
    and n: "unat n \<le> DATA_BLOCK_ALLOC_SIZE" "unat n \<le> length buf"
  shows "\<exists>d'. occupy_block_table_slot ino buf n sa d = Ret (SUCCESS, of_nat (Suc k), d') \<and>
     disk_ok d' (Suc k) \<and>
     block_at d' k = take (unat n) buf @ replicate (DATA_BLOCK_ALLOC_SIZE - unat n) 0 \<and>
     (\<forall>b<k. block_at d' b = block_at d b)"
proof -
  let ?p = "data_path d"
  let ?w = "overwrite 0 (take (unat n) buf) (replicate DATA_BLOCK_ALLOC_SIZE 0) :: byte list"
  let ?t = "(data_block_table d)[k := \<lparr>allocated = True, inode_index = ino\<rparr>]"
  from ok have co: "can_open (host d) ?p" and len: "length (data_bytes d) = DATA_BLOCK_ALLOC_SIZE * k"
    by (simp_all add: disk_ok_def)
  from fopen_aplus [OF co] obtain h where h: "fopen (host d) ?p F_aplus = Some h"
    "pw_dir h = pw_dir (host d)" "can_open h = can_open (host d)" "contents h ?p = data_bytes d"
    by (auto simp: data_bytes_def)
  define d' where "d' = d\<lparr>data_block_table := ?t, host := fwrite_append h ?p ?w\<rparr>"
  have "occupy_block_table_slot ino buf n sa d = Ret (SUCCESS, of_nat (Suc k), d')"
    using free_slot_ok [OF ok] k disk_ok_path [OF ok] h(1) n
    by (simp add: occupy_block_table_slot_def Let_def d'_def)
  moreover have w: "?w = take (unat n) buf @ replicate (DATA_BLOCK_ALLOC_SIZE - unat n) 0"
    using n by (simp add: overwrite_def)
  have p: "data_path d' = ?p" by (rule data_path_cong) (simp add: d'_def h)
  have bytes: "data_bytes d' = data_bytes d @ ?w"
    by (simp add: data_bytes_def p) (simp add: d'_def h(4) data_bytes_def)
  have "disk_ok d' (Suc k)"
    using ok k bytes n unfolding disk_ok_def p
    by (auto simp: d'_def h nth_list_update w min_absorb2)
  moreover have "block_at d' k = ?w"
    using len n by (simp add: block_at_def bytes w)
  moreover have "block_at d' b = block_at d b" if "b < k" for b
  proof -
    have "DATA_BLOCK_ALLOC_SIZE * b + DATA_BLOCK_ALLOC_SIZE \<le> DATA_BLOCK_ALLOC_SIZE * k"
      using that by (metis Suc_leI mult_Suc_right add.commute mult_le_mono2)
    with len show ?thesis by (simp add: block_at_def bytes)
  qed
  ultimately show ?thesis using w by auto
qed

lemma occupy_full:
  "disk_ok d NUM_OF_DATA_BLOCKS \<Longrightarrow> occupy_block_table_slot ino buf n sa d = Ret (FAILURE, sa, d)"
  by (simp add: occupy_block_table_slot_def free_slot_ok)

lemma block_offset:
  assumes "unat (s::u32) < k" and "k \<le> NUM_OF_DATA_BLOCKS" and "unat off \<le> DATA_BLOCK_ALLOC_SIZE"
  shows "unat (4096 * s + off) = DATA_BLOCK_ALLOC_SIZE * unat s + unat off"
proof -
  have "unat (4096 * s) = 4096 * unat s"
    using assms by (simp add: unat_word_ariths NUM_OF_DATA_BLOCKS_def)
  with assms show ?thesis by (simp add: unat_word_ariths NUM_OF_DATA_BLOCKS_def)
qed

lemma update_ok:
  assumes ok: "disk_ok d k" and s: "unat s < k"
    and n: "unat off + unat n \<le> DATA_BLOCK_ALLOC_SIZE" "unat n \<le> length buf"
  shows "\<exists>d'. update_block_table_slot s buf off n d = Ret (SUCCESS, d') \<and> disk_ok d' k \<and>
     block_at d' (unat s) = overwrite (unat off) (take (unat n) buf) (block_at d (unat s)) \<and>
     (\<forall>b<k. b \<noteq> unat s \<longrightarrow> block_at d' b = block_at d b)"
proof -
  let ?p = "data_path d" and ?pos = "DATA_BLOCK_ALLOC_SIZE * unat s + unat off" and ?w = "take (unat n) buf"
  from ok s have co: "can_open (host d) ?p" "files (host d) ?p \<noteq> None" and k: "k \<le> NUM_OF_DATA_BLOCKS"
    and len: "length (data_bytes d) = DATA_BLOCK_ALLOC_SIZE * k"
    by (auto simp: disk_ok_def)
  have pos: "unat (4096 * s + off) = ?pos" using block_offset [OF s k] n(1) by simp
  have "DATA_BLOCK_ALLOC_SIZE * unat s + DATA_BLOCK_ALLOC_SIZE \<le> DATA_BLOCK_ALLOC_SIZE * k"
    using s by (metis Suc_leI mult_Suc_right add.commute mult_le_mono2)
  with n len have fits: "?pos + length ?w \<le> length (data_bytes d)" by simp
  define d' where "d' = d\<lparr>host := fwrite_at (host d) ?p ?pos ?w\<rparr>"
  have "update_block_table_slot s buf off n d = Ret (SUCCESS, d')"
    using s k n(2) disk_ok_path [OF ok] fopen_rplus [OF co] pos
    by (simp add: update_block_table_slot_def d'_def)
  moreover have p: "data_path d' = ?p" by (rule data_path_cong) (simp add: d'_def)
  have bytes: "data_bytes d' = overwrite ?pos ?w (data_bytes d)"
    using fits by (simp add: data_bytes_def p) (simp add: d'_def contents_fwrite_at data_bytes_def)
  have "files (host d') ?p \<noteq> None"
    using co by (simp add: d'_def fwrite_at_def)
  with ok fits have "disk_ok d' k" unfolding disk_ok_def p
    by (simp add: bytes) (simp add: d'_def)
  moreover have "block_at d' (unat s) = overwrite (unat off) ?w (block_at d (unat s))"
  proof (rule nth_equalityI)
    show "length (block_at d' (unat s)) = length (overwrite (unat off) ?w (block_at d (unat s)))"
      using n length_block_at [OF ok s] length_block_at [OF \<open>disk_ok d' k\<close> s] by simp
  next
    fix i assume "i < length (block_at d' (unat s))"
    then have i: "i < DATA_BLOCK_ALLOC_SIZE" using length_block_at [OF \<open>disk_ok d' k\<close> s] by simp
    have "DATA_BLOCK_ALLOC_SIZE * unat s + i < length (data_bytes d)"
      using i \<open>DATA_BLOCK_ALLOC_SIZE * unat s + DATA_BLOCK_ALLOC_SIZE \<le> _\<close> len by simp
    then show "block_at d' (unat s) ! i = overwrite (unat off) ?w (block_at d (unat s)) ! i"
      using i fits n length_block_at [OF ok s]
      by (auto simp: block_at_def bytes nth_overwrite)
  qed
  moreover have "block_at d' b = block_at d b" if b: "b < k" "b \<noteq> unat s" for b
  proof (cases "b < unat s")
    case True
    then have "DATA_BLOCK_ALLOC_SIZE * b + DATA_BLOCK_ALLOC_SIZE \<le> DATA_BLOCK_ALLOC_SIZE * unat s"
      by (metis Suc_leI mult_Suc_right add.commute mult_le_mono2)
    with fits show ?thesis
      by (simp add: block_at_def bytes take_drop)
  next
    case False
    with b have "DATA_BLOCK_ALLOC_SIZE * unat s + DATA_BLOCK_ALLOC_SIZE \<le> DATA_BLOCK_ALLOC_SIZE * b"
      by (metis Suc_leI linorder_neqE_nat mult_Suc_right add.commute mult_le_mono2)
    with fits n show ?thesis by (simp add: block_at_def bytes)
  qed
  ultimately show ?thesis by auto
qed

lemma update_short:
  assumes ok: "disk_ok d k" and s: "unat s < k" and n: "length buf < unat n"
  shows "update_block_table_slot s buf off n d = Undef"
proof -
  from ok s have "can_open (host d) (data_path d)" "files (host d) (data_path d) \<noteq> None" "k \<le> NUM_OF_DATA_BLOCKS"
    by (auto simp: disk_ok_def)
  with s n disk_ok_path [OF ok] fopen_rplus show ?thesis by (simp add: update_block_table_slot_def)
qed

lemma read_ok:
  assumes ok: "disk_ok d k" and s: "unat s < k"
    and n: "unat off + unat n \<le> DATA_BLOCK_ALLOC_SIZE" "pos + unat n \<le> length buf"
  shows "read_block_table_slot s buf pos off n d =
     Ret (SUCCESS, overwrite pos (take (unat n) (drop (unat off) (block_at d (unat s)))) buf)"
proof -
  from ok s have co: "can_open (host d) (data_path d)" "files (host d) (data_path d) \<noteq> None"
    and k: "k \<le> NUM_OF_DATA_BLOCKS" by (auto simp: disk_ok_def)
  have "unat (4096 * s + off) = DATA_BLOCK_ALLOC_SIZE * unat s + unat off"
    using block_offset [OF s k] n(1) by simp
  with s k n disk_ok_path [OF ok] fopen_rplus [OF co] show ?thesis
    by (simp add: read_block_table_slot_def fread_at_def block_at_def data_bytes_def drop_take min_def add.commute)
qed

interpretation blocks: block_device disk_ok block_at occupy_block_table_slot update_block_table_slot
    read_block_table_slot
  by unfold_locales
    (simp add: disk_ok_def, erule (1) length_block_at, erule (3) occupy_ok, erule occupy_full,
      erule (3) update_ok, erule (2) update_short, erule (3) read_ok)

subsection \<open>Allocating in any table\<close>

text \<open>
  In general a block is allocated in the first free slot, wherever that is, and its bytes go to the end of the
  data file, because the file is opened for appending.
\<close>

lemma occupy_appends:
  assumes "free_slot 0 (data_block_table d) = Some i" and "pw_dir (host d) \<noteq> None"
    and "can_open (host d) (data_path d)" and "unat n \<le> DATA_BLOCK_ALLOC_SIZE" and "unat n \<le> length buf"
  obtains d' where "occupy_block_table_slot ino buf n sa d = Ret (SUCCESS, of_nat (Suc i), d')"
    "data_block_table d' = (data_block_table d)[i := \<lparr>allocated = True, inode_index = ino\<rparr>]"
    "data_bytes d' = data_bytes d @ take (unat n) buf @ replicate (DATA_BLOCK_ALLOC_SIZE - unat n) 0"
    "pw_dir (host d') = pw_dir (host d)" "can_open (host d') = can_open (host d)" "files (host d') (data_path d') \<noteq> None"
proof -
  let ?p = "data_path d"
  let ?w = "overwrite 0 (take (unat n) buf) (replicate DATA_BLOCK_ALLOC_SIZE 0) :: byte list"
  from fopen_aplus [OF assms(3)] obtain h where h: "fopen (host d) ?p F_aplus = Some h"
    "pw_dir h = pw_dir (host d)" "can_open h = can_open (host d)" "contents h ?p = data_bytes d"
    by (auto simp: data_bytes_def)
  define d' where "d' = d\<lparr>data_block_table :=
    (data_block_table d)[i := \<lparr>allocated = True, inode_index = ino\<rparr>], host := fwrite_append h ?p ?w\<rparr>"
  have path: "libfs_path (host d) ''/data'' = Ret ?p"
    using assms(2) by (auto simp: libfs_path_def data_path_def)
  have w: "?w = take (unat n) buf @ replicate (DATA_BLOCK_ALLOC_SIZE - unat n) 0"
    using assms(4,5) by (simp add: overwrite_def)
  have "occupy_block_table_slot ino buf n sa d = Ret (SUCCESS, of_nat (Suc i), d')"
    using assms(1,4,5) path h(1) by (simp add: occupy_block_table_slot_def Let_def d'_def)
  moreover have p: "data_path d' = ?p" by (rule data_path_cong) (simp add: d'_def h)
  have "data_bytes d' = data_bytes d @ ?w"
    by (simp add: data_bytes_def p) (simp add: d'_def h(4) data_bytes_def)
  moreover have "files (host d') (data_path d') \<noteq> None" unfolding p by (simp add: d'_def)
  ultimately show thesis using w by (intro that [of d']) (simp_all add: d'_def h)
qed

text \<open>Reading a slot whose bytes are in the file.\<close>

lemma read_slot_any:
  assumes "unat s < NUM_OF_DATA_BLOCKS" "unat off + unat n \<le> DATA_BLOCK_ALLOC_SIZE" "pos + unat n \<le> length buf"
    and "pw_dir (host d) \<noteq> None" "can_open (host d) (data_path d)" "files (host d) (data_path d) \<noteq> None"
  shows "read_block_table_slot s buf pos off n d =
    Ret (SUCCESS, overwrite pos (take (unat n) (drop (unat off) (block_at d (unat s)))) buf)"
proof -
  have "unat (4096 * s + off) = DATA_BLOCK_ALLOC_SIZE * unat s + unat off"
    using block_offset [OF assms(1) order_refl] assms(2) by simp
  moreover have "libfs_path (host d) ''/data'' = Ret (data_path d)"
    using assms(4) by (auto simp: libfs_path_def data_path_def)
  ultimately show ?thesis using assms(1-3) fopen_rplus [OF assms(5,6)]
    by (simp add: read_block_table_slot_def fread_at_def block_at_def data_bytes_def drop_take min_def add.commute)
qed

end
