(* ===== verification/Linked_List.thy ===== *)
theory Linked_List
  imports Prelude
begin

text \<open>
  The doubly linked lists of \<^verbatim>\<open>service/inode.c\<close>. Every table of the service (inodes, open
  descriptors, file names) is a heap of cells with \<^verbatim>\<open>next\<close>/\<^verbatim>\<open>prev\<close> pointers and a global head
  pointer; the C code repeats the same four pieces of pointer code for each of them, which are
  the four operations of this theory:
  \<^item> \<open>find_node\<close>: \<^verbatim>\<open>while (it) { if (match) ...; it = it->next; }\<close>;
  \<^item> \<open>last_node\<close>: \<^verbatim>\<open>while (curr->next != NULL) curr = curr->next;\<close>;
  \<^item> \<open>append_cell\<close>: \<^verbatim>\<open>malloc\<close> a cell and link it behind the last one;
  \<^item> \<open>unlink_cell\<close>: take a cell out of the chain and \<^verbatim>\<open>free\<close> it, without touching the head.
  A freed cell leaves the heap, so following a stale pointer to it is \<open>Undef\<close>. \<^verbatim>\<open>malloc\<close> is
  taken to succeed and to return an address that was never used before.
\<close>

subsection \<open>Cells, heaps and tables\<close>

record node =
  nxt :: ptr
  prv :: ptr

type_synonym 'z heap = "nat \<Rightarrow> 'z node_scheme option"

record 'z table =
  cells :: "'z heap"
  head :: ptr
  brk :: nat

definition empty_table :: "'z table" where
  "empty_table = \<lparr>cells = Map.empty, head = None, brk = 0\<rparr>"

definition load :: "'z heap \<Rightarrow> ptr \<Rightarrow> 'z node_scheme outcome" where
  "load h p = (case p of None \<Rightarrow> Undef
    | Some a \<Rightarrow> (case h a of None \<Rightarrow> Undef | Some n \<Rightarrow> Ret n))"

definition set_nxt :: "'z heap \<Rightarrow> ptr \<Rightarrow> ptr \<Rightarrow> 'z heap outcome" where
  "set_nxt h p v = (case p of None \<Rightarrow> Undef
    | Some a \<Rightarrow> (case h a of None \<Rightarrow> Undef | Some n \<Rightarrow> Ret (h(a \<mapsto> n\<lparr>nxt := v\<rparr>))))"

definition set_prv :: "'z heap \<Rightarrow> ptr \<Rightarrow> ptr \<Rightarrow> 'z heap outcome" where
  "set_prv h p v = (case p of None \<Rightarrow> Undef
    | Some a \<Rightarrow> (case h a of None \<Rightarrow> Undef | Some n \<Rightarrow> Ret (h(a \<mapsto> n\<lparr>prv := v\<rparr>))))"

subsection \<open>The search loop and the walk to the last cell\<close>

partial_function (option) find_loop ::
  "('z node_scheme \<Rightarrow> bool) \<Rightarrow> 'z heap \<Rightarrow> ptr \<Rightarrow> ptr outcome option" where
  "find_loop P h p =
     (case p of None \<Rightarrow> Some (Ret None)
      | Some a \<Rightarrow> (case h a of None \<Rightarrow> Some Undef
         | Some n \<Rightarrow> (if P n then Some (Ret (Some a)) else find_loop P h (nxt n))))"

definition find_node :: "('z node_scheme \<Rightarrow> bool) \<Rightarrow> 'z heap \<Rightarrow> ptr \<Rightarrow> ptr outcome" where
  "find_node P h p = (case find_loop P h p of None \<Rightarrow> Diverge | Some r \<Rightarrow> r)"

partial_function (option) last_loop :: "'z heap \<Rightarrow> nat \<Rightarrow> nat outcome option" where
  "last_loop h a =
     (case h a of None \<Rightarrow> Some Undef
      | Some n \<Rightarrow> (case nxt n of None \<Rightarrow> Some (Ret a) | Some b \<Rightarrow> last_loop h b))"

definition last_node :: "'z heap \<Rightarrow> nat \<Rightarrow> nat outcome" where
  "last_node h a = (case last_loop h a of None \<Rightarrow> Diverge | Some r \<Rightarrow> r)"

subsection \<open>Appending and unlinking\<close>

text \<open>
  \<open>append_cell fill t\<close> allocates a cell, fills it with \<open>fill None\<close> when the table is empty and
  with \<open>fill (Some curr)\<close> when \<open>curr\<close> is the last cell, and links it. The address of the new
  cell and the cell's content are returned with the new table.
\<close>

definition append_cell ::
  "('z node_scheme option \<Rightarrow> 'z node_scheme) \<Rightarrow> 'z table \<Rightarrow> ('z node_scheme \<times> 'z table) outcome" where
  "append_cell fill t =
     (let a = brk t; t1 = t\<lparr>brk := Suc a\<rparr> in
      case head t of
        None \<Rightarrow>
          (let n = (fill None)\<lparr>nxt := None, prv := None\<rparr>
           in Ret (n, t1\<lparr>cells := (cells t)(a \<mapsto> n), head := Some a\<rparr>))
      | Some h \<Rightarrow>
          obind (last_node (cells t) h) (\<lambda>c.
          obind (load (cells t) (Some c)) (\<lambda>curr.
            let n = (fill (Some curr))\<lparr>nxt := None, prv := Some c\<rparr>
            in obind (set_nxt ((cells t)(a \<mapsto> n)) (Some c) (Some a)) (\<lambda>h'.
               Ret (n, t1\<lparr>cells := h'\<rparr>)))))"

definition unlink_cell :: "nat \<Rightarrow> 'z heap \<Rightarrow> 'z heap outcome" where
  "unlink_cell a h =
     obind (load h (Some a)) (\<lambda>n.
     obind (case prv n of None \<Rightarrow> Ret h | Some p \<Rightarrow> set_nxt h (Some p) (nxt n)) (\<lambda>h1.
     obind (case nxt n of None \<Rightarrow> Ret h1 | Some q \<Rightarrow> set_prv h1 (Some q) (prv n)) (\<lambda>h2.
     Ret (h2(a := None)))))"

text \<open>
  Taking a cell out and moving the head when it was the first one, as
  \<^verbatim>\<open>remove_descriptor\<close> and \<^verbatim>\<open>remove_inode\<close> write it (with their redundant writes).
\<close>

definition unlink_cell_head :: "nat \<Rightarrow> 'z table \<Rightarrow> 'z table outcome" where
  "unlink_cell_head a t =
     obind (load (cells t) (Some a)) (\<lambda>n.
     obind (case prv n of
              Some p \<Rightarrow> obind (set_nxt (cells t) (Some p) (nxt n)) (\<lambda>h1. Ret (t\<lparr>cells := h1\<rparr>))
            | None \<Rightarrow>
                obind (case nxt n of Some q \<Rightarrow> set_prv (cells t) (Some q) None | None \<Rightarrow> Ret (cells t))
                  (\<lambda>h1. Ret (t\<lparr>cells := h1, head := nxt n\<rparr>))) (\<lambda>t1.
     obind (case nxt n of
              Some q \<Rightarrow> set_prv (cells t1) (Some q) (prv n)
            | None \<Rightarrow> (case prv n of Some p \<Rightarrow> set_nxt (cells t1) (Some p) None | None \<Rightarrow> Ret (cells t1)))
       (\<lambda>h2. Ret (t1\<lparr>cells := h2(a := None)\<rparr>))))"

definition modify_cell :: "('z node_scheme \<Rightarrow> 'z node_scheme) \<Rightarrow> nat \<Rightarrow> 'z heap \<Rightarrow> 'z heap outcome" where
  "modify_cell f a h = obind (load h (Some a)) (\<lambda>n. Ret (h(a \<mapsto> f n)))"

lemmas heap_defs = load_def set_nxt_def set_prv_def unlink_cell_def unlink_cell_head_def modify_cell_def

subsection \<open>Well-formed chains\<close>

text \<open>
  \<open>dpath h pr p as e\<close>: starting at pointer \<open>p\<close>, with predecessor \<open>pr\<close>, the \<open>next\<close> pointers run
  through the addresses \<open>as\<close> and end in \<open>e\<close>, and every \<open>prev\<close> pointer is right.
\<close>

fun dpath :: "'z heap \<Rightarrow> ptr \<Rightarrow> ptr \<Rightarrow> nat list \<Rightarrow> ptr \<Rightarrow> bool" where
  "dpath h pr p [] e \<longleftrightarrow> p = e"
| "dpath h pr p (a # as) e \<longleftrightarrow> p = Some a \<and>
     (case h a of None \<Rightarrow> False | Some n \<Rightarrow> prv n = pr \<and> dpath h (Some a) (nxt n) as e)"

definition endp :: "ptr \<Rightarrow> nat list \<Rightarrow> ptr" where
  "endp pr as = (if as = [] then pr else Some (last as))"

definition table_wf :: "'z table \<Rightarrow> nat list \<Rightarrow> bool" where
  "table_wf t as \<longleftrightarrow> dpath (cells t) None (head t) as None \<and> distinct as \<and>
     (\<forall>a. brk t \<le> a \<longrightarrow> cells t a = None)"

text \<open>The content of a table: its cells in order, with the link pointers erased.\<close>

definition strip :: "'z node_scheme \<Rightarrow> 'z node_scheme" where
  "strip n = n\<lparr>nxt := None, prv := None\<rparr>"

definition view :: "'z heap \<Rightarrow> nat list \<Rightarrow> 'z node_scheme list" where
  "view h as = map (\<lambda>a. strip (the (h a))) as"

definition table_is :: "'z table \<Rightarrow> 'z node_scheme list \<Rightarrow> bool" where
  "table_is t xs \<longleftrightarrow> (\<exists>as. table_wf t as \<and> xs = view (cells t) as)"

lemma endp_simps [simp]: "endp pr [] = pr" "endp pr (as @ [a]) = Some a" "as \<noteq> [] \<Longrightarrow> endp pr as = Some (last as)"
  by (simp_all add: endp_def)

lemma endp_Cons [simp]: "endp pr (a # as) = endp (Some a) as"
  by (simp add: endp_def)

lemma strip_simps [simp]:
  "nxt (strip n) = None" "prv (strip n) = None" "strip (strip n) = strip n"
  "strip (n\<lparr>nxt := x\<rparr>) = strip n" "strip (n\<lparr>prv := y\<rparr>) = strip n"
  by (simp_all add: strip_def)

lemma view_simps [simp]:
  "view h [] = []" "view h (a # as) = strip (the (h a)) # view h as" "view h (as @ bs) = view h as @ view h bs"
  "length (view h as) = length as"
  by (simp_all add: view_def)

lemma view_upd_other [simp]: "a \<notin> set as \<Longrightarrow> view (h(a := v)) as = view h as"
  by (auto simp: view_def)

lemma view_upd_link:
  "h a = Some n \<Longrightarrow> strip m = strip n \<Longrightarrow> view (h(a \<mapsto> m)) as = view h as"
  by (auto simp: view_def)

lemma dpath_append:
  "dpath h pr p (as @ bs) e \<longleftrightarrow> (\<exists>m. dpath h pr p as m \<and> dpath h (endp pr as) m bs e)"
  by (induction as arbitrary: pr p) (auto split: option.splits simp del: endp_simps simp: endp_def)

lemma dpath_upd [simp]: "a \<notin> set as \<Longrightarrow> dpath (h(a := v)) pr p as e = dpath h pr p as e"
  by (induction as arbitrary: pr p) (auto split: option.splits)

lemma dpath_cell: "dpath h pr p as e \<Longrightarrow> a \<in> set as \<Longrightarrow> \<exists>n. h a = Some n"
  by (induction as arbitrary: pr p) (auto split: option.splits)

lemma dpath_set_end:
  assumes "dpath h pr p (as @ [c]) e" and "c \<notin> set as"
  shows "\<exists>n. h c = Some n \<and> nxt n = e \<and> dpath (h(c \<mapsto> n\<lparr>nxt := e'\<rparr>)) pr p (as @ [c]) e'"
  using assms by (auto simp: dpath_append split: option.splits)

lemma dpath_set_start:
  assumes "dpath h pr p (c # as) e" and "c \<notin> set as"
  shows "\<exists>n. h c = Some n \<and> prv n = pr \<and> dpath (h(c \<mapsto> n\<lparr>prv := pr'\<rparr>)) pr' p (c # as) e"
  using assms by (auto split: option.splits)

lemma dpath_modify:
  assumes "dpath h pr p as e" "h a = Some n" "nxt m = nxt n" "prv m = prv n"
  shows "dpath (h(a \<mapsto> m)) pr p as e"
  using assms by (induction as arbitrary: pr p) (auto split: option.splits)

lemma dpath_unique: "dpath h pr p as None \<Longrightarrow> dpath h pr p bs None \<Longrightarrow> as = bs"
proof (induction as arbitrary: pr p bs)
  case Nil
  then show ?case by (cases bs) auto
next
  case (Cons a as)
  then show ?case by (cases bs) (auto split: option.splits)
qed

lemma table_wf_unique: "table_wf t as \<Longrightarrow> table_wf t bs \<Longrightarrow> as = bs"
  by (auto simp: table_wf_def dest: dpath_unique)

lemma table_is_unique: "table_is t xs \<Longrightarrow> table_is t ys \<Longrightarrow> xs = ys"
  by (auto simp: table_is_def dest: table_wf_unique)

lemma table_wf_brk: "table_wf t as \<Longrightarrow> brk t \<notin> set as"
  by (auto simp: table_wf_def dest: dpath_cell)

lemma table_is_empty: "table_is empty_table []"
  unfolding table_is_def by (rule exI [of _ "[]"]) (simp add: table_wf_def empty_table_def)

subsection \<open>The loops on well-formed chains\<close>

lemma find_loop_wf:
  "dpath h pr p as None \<Longrightarrow> find_loop P h p = Some (Ret (find (\<lambda>a. P (the (h a))) as))"
proof (induction as arbitrary: pr p)
  case Nil
  then show ?case by (simp add: find_loop.simps)
next
  case (Cons a as)
  then obtain n where n: "p = Some a" "h a = Some n" "dpath h (Some a) (nxt n) as None"
    by (auto split: option.splits)
  from Cons.IH [OF n(3)] n(1,2) show ?case by (subst find_loop.simps) simp
qed

lemma find_node_wf:
  "table_wf t as \<Longrightarrow> find_node P (cells t) (head t) = Ret (find (\<lambda>a. P (the (cells t a))) as)"
  unfolding table_wf_def find_node_def by (auto dest: find_loop_wf [where P = P])

lemma last_loop_wf:
  "dpath h pr (Some a) (a # as) None \<Longrightarrow> last_loop h a = Some (Ret (last (a # as)))"
proof (induction as arbitrary: pr a)
  case Nil
  then show ?case by (auto simp: last_loop.simps [of h a] split: option.splits)
next
  case (Cons b as)
  then obtain n where n: "h a = Some n" "nxt n = Some b" "dpath h (Some a) (Some b) (b # as) None"
    by (auto split: option.splits)
  from Cons.IH [OF n(3)] n(1,2) show ?case by (simp add: last_loop.simps [of h a])
qed

lemma last_node_wf:
  "dpath h pr (Some a) (a # as) None \<Longrightarrow> last_node h a = Ret (last (a # as))"
  by (simp add: last_node_def last_loop_wf)

text \<open>A search started at NULL finds nothing; one started at a freed cell is undefined.\<close>

lemma find_node_None [simp]: "find_node P h None = Ret None"
  by (simp add: find_node_def find_loop.simps)

lemma find_node_freed: "h a = None \<Longrightarrow> find_node P h (Some a) = Undef"
  by (simp add: find_node_def find_loop.simps)

subsection \<open>Appending\<close>

lemma append_cell_wf:
  assumes wf: "table_wf t as"
  defines "prev_cell \<equiv> (if as = [] then None else cells t (last as))"
  shows "\<exists>n t'. append_cell fill t = Ret (n, t') \<and> strip n = strip (fill prev_cell) \<and>
    table_wf t' (as @ [brk t]) \<and> view (cells t') as = view (cells t) as \<and>
    cells t' (brk t) = Some n \<and> (as \<noteq> [] \<longrightarrow> head t' = head t)"
proof (cases as rule: rev_cases)
  case Nil
  with wf show ?thesis
    by (auto simp: table_wf_def append_cell_def prev_cell_def Let_def strip_def)
next
  case (snoc bs c)
  let ?h = "cells t" and ?a = "brk t"
  from wf snoc have dp: "dpath ?h None (head t) (bs @ [c]) None" and c: "c \<notin> set bs"
    and dist: "distinct (bs @ [c])" and free: "\<forall>a. brk t \<le> a \<longrightarrow> ?h a = None"
    by (simp_all add: table_wf_def)
  have a: "?a \<notin> set (bs @ [c])" using table_wf_brk [OF wf] snoc by simp
  then have ac: "?a \<noteq> c" by auto
  obtain b0 bs' where b0: "bs @ [c] = b0 # bs'" by (cases bs) auto
  with dp have hd: "head t = Some b0" by auto
  with dp b0 have "last_node ?h b0 = Ret (last (b0 # bs'))" by (intro last_node_wf [where pr = None]) simp
  then have lst: "last_node ?h b0 = Ret c" using b0 by (metis last_snoc)
  obtain curr where curr: "?h c = Some curr" "nxt curr = None" using dp
    by (auto simp: dpath_append split: option.splits)
  define n where "n = (fill (Some curr))\<lparr>nxt := None, prv := Some c\<rparr>"
  define h' where "h' = ?h(?a \<mapsto> n, c \<mapsto> curr\<lparr>nxt := Some ?a\<rparr>)"
  have eq: "append_cell fill t = Ret (n, t\<lparr>brk := Suc ?a, cells := h'\<rparr>)"
    using hd lst curr ac
    by (simp add: append_cell_def Let_def load_def set_nxt_def n_def h'_def)
  have "dpath h' None (head t) (bs @ [c]) (Some ?a)"
  proof -
    have "dpath (?h(?a \<mapsto> n)) None (head t) (bs @ [c]) None" using dp a by simp
    from dpath_set_end [OF this c, of "Some ?a"] curr ac show ?thesis by (simp add: h'_def)
  qed
  moreover have "dpath h' (Some c) (Some ?a) [?a] None" using ac by (simp add: h'_def n_def)
  ultimately have "dpath h' None (head t) (as @ [?a]) None"
    unfolding snoc dpath_append [of h' None "head t" "bs @ [c]"] by auto
  moreover have "\<forall>b. Suc ?a \<le> b \<longrightarrow> h' b = None"
    using free ac curr(1) by (auto simp: h'_def)
  ultimately have "table_wf (t\<lparr>brk := Suc ?a, cells := h'\<rparr>) (as @ [?a])"
    using dist a snoc by (simp add: table_wf_def)
  moreover have "view h' as = view ?h as"
  proof -
    have "view h' as = view (?h(?a \<mapsto> n)) as"
      unfolding h'_def by (rule view_upd_link [where n = curr]) (use curr ac in auto)
    then show ?thesis using a snoc by simp
  qed
  ultimately show ?thesis using eq ac curr(1) snoc
    by (auto simp: h'_def n_def prev_cell_def strip_def)
qed

text \<open>
  The list-level reading: the stripped new cell is added at the end, where the filling function
  sees the last element.
\<close>

lemma append_cell_is:
  assumes tab: "table_is t xs"
    and fill: "\<And>c. strip (fill (Some (strip c))) = strip (fill (Some c))"
  shows "\<exists>n t'. append_cell fill t = Ret (n, t') \<and>
    strip n = strip (fill (if xs = [] then None else Some (last xs))) \<and> table_is t' (xs @ [strip n])"
proof -
  from tab obtain as where wf: "table_wf t as" and xs: "xs = view (cells t) as"
    by (auto simp: table_is_def)
  have prevc: "strip (fill (if as = [] then None else cells t (last as)))
      = strip (fill (if xs = [] then None else Some (last xs)))"
  proof (cases as rule: rev_cases)
    case Nil
    with xs show ?thesis by simp
  next
    case (snoc bs c)
    with wf obtain n where "cells t c = Some n" unfolding table_wf_def
      by (metis dpath_cell in_set_conv_decomp)
    with snoc xs fill [of n] show ?thesis by (simp)
  qed
  obtain n t' where "append_cell fill t = Ret (n, t')"
    "strip n = strip (fill (if as = [] then None else cells t (last as)))"
    "table_wf t' (as @ [brk t])" "view (cells t') as = view (cells t) as" "cells t' (brk t) = Some n"
    using append_cell_wf [OF wf, of fill] by blast
  moreover from this have "table_is t' (xs @ [strip n])"
    unfolding table_is_def by (intro exI [of _ "as @ [brk t]"]) (simp add: xs)
  ultimately show ?thesis using prevc by auto
qed

subsection \<open>Changing a cell in place\<close>

lemma table_wf_split:
  assumes "table_wf t (bs @ a # cs)"
  obtains n where "cells t a = Some n" "prv n = endp None bs"
    "dpath (cells t) None (head t) bs (Some a)" "dpath (cells t) (Some a) (nxt n) cs None"
  using assms by (auto simp: table_wf_def dpath_append split: option.splits)

lemma modify_cell_wf:
  assumes wf: "table_wf t (bs @ a # cs)"
    and links: "\<And>n. nxt (f n) = nxt n" "\<And>n. prv (f n) = prv n"
  obtains n where "cells t a = Some n"
    "modify_cell f a (cells t) = Ret ((cells t)(a \<mapsto> f n))"
    "table_wf (t\<lparr>cells := (cells t)(a \<mapsto> f n)\<rparr>) (bs @ a # cs)"
    "view ((cells t)(a \<mapsto> f n)) (bs @ a # cs) =
       view (cells t) bs @ strip (f n) # view (cells t) cs"
proof -
  from wf obtain n where n: "cells t a = Some n" by (rule table_wf_split)
  from wf have "dpath (cells t) None (head t) (bs @ a # cs) None" "distinct (bs @ a # cs)"
    and free: "\<forall>b. brk t \<le> b \<longrightarrow> cells t b = None" by (simp_all add: table_wf_def)
  with dpath_modify [OF this(1) n links] n
  have "table_wf (t\<lparr>cells := (cells t)(a \<mapsto> f n)\<rparr>) (bs @ a # cs)"
    by (auto simp: table_wf_def)
  with n \<open>distinct (bs @ a # cs)\<close> show thesis
    by (intro that [of n]) (simp_all add: modify_cell_def load_def)
qed

subsection \<open>Unlinking a cell\<close>

lemma dpath_cong: "(\<And>b. b \<in> set as \<Longrightarrow> h b = h' b) \<Longrightarrow> dpath h pr p as e = dpath h' pr p as e"
  by (induction as arbitrary: pr p) (auto split: option.splits)

lemma relink_end:
  assumes dp: "dpath h None p bs e" and dist: "distinct bs"
  shows "\<exists>h1. (case endp None bs of None \<Rightarrow> Ret h | Some q \<Rightarrow> set_nxt h (Some q) e') = Ret h1 \<and>
    dpath h1 None (if bs = [] then e' else p) bs e' \<and> (\<forall>b. b \<notin> set bs \<longrightarrow> h1 b = h b) \<and>
    (\<forall>as. view h1 as = view h as)"
proof (cases bs rule: rev_cases)
  case Nil
  then show ?thesis by simp
next
  case (snoc ds c)
  with dist have "c \<notin> set ds" by simp
  from dpath_set_end [OF dp [unfolded snoc] this, of e'] obtain n where
    n: "h c = Some n" "dpath (h(c \<mapsto> n\<lparr>nxt := e'\<rparr>)) None p (ds @ [c]) e'" by blast
  have "view (h(c \<mapsto> n\<lparr>nxt := e'\<rparr>)) as = view h as" for as
    using n(1) by (intro view_upd_link [where n = n]) simp_all
  with n snoc show ?thesis
    by (intro exI [of _ "h(c \<mapsto> n\<lparr>nxt := e'\<rparr>)"]) (auto simp: set_nxt_def)
qed

lemma relink_start:
  assumes dp: "dpath h pr p cs None" and dist: "distinct cs"
  shows "\<exists>h1. (case p of None \<Rightarrow> Ret h | Some q \<Rightarrow> set_prv h (Some q) pr') = Ret h1 \<and>
    dpath h1 pr' p cs None \<and> (\<forall>b. b \<notin> set cs \<longrightarrow> h1 b = h b) \<and> (\<forall>as. view h1 as = view h as)"
proof (cases cs)
  case Nil
  with dp show ?thesis by simp
next
  case (Cons c ds)
  with dist have "c \<notin> set ds" by simp
  from dpath_set_start [OF dp [unfolded Cons] this, of pr'] obtain n where
    n: "h c = Some n" "dpath (h(c \<mapsto> n\<lparr>prv := pr'\<rparr>)) pr' p (c # ds) None" by blast
  have "view (h(c \<mapsto> n\<lparr>prv := pr'\<rparr>)) as = view h as" for as
    using n(1) by (intro view_upd_link [where n = n]) simp_all
  moreover have "p = Some c" using dp Cons by simp
  ultimately show ?thesis using n Cons
    by (intro exI [of _ "h(c \<mapsto> n\<lparr>prv := pr'\<rparr>)"]) (auto simp: set_prv_def)
qed

lemma unlink_cell_wf:
  assumes wf: "table_wf t (bs @ a # cs)"
  obtains h' where "unlink_cell a (cells t) = Ret h'"
    "dpath h' None (if bs = [] then nxt (the (cells t a)) else head t) (bs @ cs) None"
    "view h' (bs @ cs) = view (cells t) (bs @ cs)" "h' a = None"
    "\<And>b. brk t \<le> b \<Longrightarrow> h' b = None"
proof -
  let ?h = "cells t"
  from wf obtain n where n: "?h a = Some n" "prv n = endp None bs"
    "dpath ?h None (head t) bs (Some a)" "dpath ?h (Some a) (nxt n) cs None"
    by (rule table_wf_split)
  from wf have dist: "distinct bs" "distinct cs" "a \<notin> set bs" "a \<notin> set cs" "set bs \<inter> set cs = {}"
    and free: "\<And>b. brk t \<le> b \<Longrightarrow> ?h b = None" and used: "\<And>b. brk t \<le> b \<Longrightarrow> b \<notin> set (bs @ a # cs)"
    by (auto simp: table_wf_def dest!: dpath_cell)
  from relink_end [OF n(3) dist(1), of "nxt n"] obtain h1 where
    h1: "(case endp None bs of None \<Rightarrow> Ret ?h | Some q \<Rightarrow> set_nxt ?h (Some q) (nxt n)) = Ret h1"
      "dpath h1 None (if bs = [] then nxt n else head t) bs (nxt n)"
      "\<forall>b. b \<notin> set bs \<longrightarrow> h1 b = ?h b" "\<forall>as. view h1 as = view ?h as" by blast
  have "dpath h1 (Some a) (nxt n) cs None"
    using dpath_cong [of cs h1 ?h] h1(3) dist(5) n(4) by blast
  from relink_start [OF this dist(2), of "prv n"] obtain h2 where
    h2: "(case nxt n of None \<Rightarrow> Ret h1 | Some q \<Rightarrow> set_prv h1 (Some q) (prv n)) = Ret h2"
      "dpath h2 (prv n) (nxt n) cs None" "\<forall>b. b \<notin> set cs \<longrightarrow> h2 b = h1 b"
      "\<forall>as. view h2 as = view h1 as" by blast
  have bs: "dpath h2 None (if bs = [] then nxt n else head t) bs (nxt n)"
    using dpath_cong [of bs h2 h1] h2(3) dist(5) h1(2) by blast
  have "unlink_cell a ?h = Ret (h2(a := None))"
    using n h1(1) h2(1) by (simp add: unlink_cell_def load_def)
  moreover have "dpath (h2(a := None)) None (if bs = [] then nxt (the (?h a)) else head t) (bs @ cs) None"
    using bs h2(2) dist n(1,2) by (auto simp: dpath_append)
  moreover have "view (h2(a := None)) (bs @ cs) = view ?h (bs @ cs)"
    using h1(4) h2(4) dist by simp
  moreover have "(h2(a := None)) b = None" if "brk t \<le> b" for b
    using free [OF that] used [OF that] h1(3) h2(3) by auto
  ultimately show thesis by (intro that [of "h2(a := None)"]) simp_all
qed

lemma unlink_cell_head_eq:
  "unlink_cell_head a t =
     obind (load (cells t) (Some a)) (\<lambda>n.
     obind (unlink_cell a (cells t)) (\<lambda>h.
       Ret (t\<lparr>cells := h, head := (if prv n = None then nxt n else head t)\<rparr>)))"
  by (auto simp: heap_defs split: option.splits)

text \<open>Unlinking through \<open>unlink_cell_head\<close>: the cell leaves the table, wherever it stands.\<close>

lemma unlink_cell_head_wf:
  assumes wf: "table_wf t (bs @ a # cs)"
  obtains t' where "unlink_cell_head a t = Ret t'" "table_wf t' (bs @ cs)"
    "view (cells t') (bs @ cs) = view (cells t) (bs @ cs)"
proof -
  from wf obtain n where n: "cells t a = Some n" "prv n = endp None bs" by (rule table_wf_split)
  from wf obtain h' where h': "unlink_cell a (cells t) = Ret h'"
    "dpath h' None (if bs = [] then nxt (the (cells t a)) else head t) (bs @ cs) None"
    "view h' (bs @ cs) = view (cells t) (bs @ cs)" "\<And>b. brk t \<le> b \<Longrightarrow> h' b = None"
    using unlink_cell_wf [OF wf] by blast
  define t' where "t' = t\<lparr>cells := h', head := (if prv n = None then nxt n else head t)\<rparr>"
  have "unlink_cell_head a t = Ret t'"
    using n h'(1) by (simp add: unlink_cell_head_eq load_def t'_def)
  moreover have "(prv n = None) = (bs = [])" using n(2) by (simp add: endp_def)
  then have "table_wf t' (bs @ cs)"
    using h'(2,4) wf n(1) by (auto simp: table_wf_def t'_def)
  ultimately show thesis using h'(3) by (intro that [of t']) (simp_all add: t'_def)
qed

text \<open>
  Unlinking without moving the head is right only behind the first cell. For the first cell it
  leaves the head pointing at freed memory.
\<close>

lemma unlink_cell_later_wf:
  assumes wf: "table_wf t (bs @ a # cs)" and "bs \<noteq> []"
  obtains h' where "unlink_cell a (cells t) = Ret h'" "table_wf (t\<lparr>cells := h'\<rparr>) (bs @ cs)"
    "view h' (bs @ cs) = view (cells t) (bs @ cs)"
proof -
  from wf obtain h' where "unlink_cell a (cells t) = Ret h'"
    "dpath h' None (if bs = [] then nxt (the (cells t a)) else head t) (bs @ cs) None"
    "view h' (bs @ cs) = view (cells t) (bs @ cs)" "\<And>b. brk t \<le> b \<Longrightarrow> h' b = None"
    using unlink_cell_wf [OF wf] by blast
  with assms show thesis by (intro that [of h']) (auto simp: table_wf_def)
qed

lemma unlink_cell_first_dangles:
  assumes wf: "table_wf t (a # cs)"
  obtains h' where "unlink_cell a (cells t) = Ret h'" "head t = Some a" "h' a = None"
proof -
  from wf have "table_wf t ([] @ a # cs)" by simp
  from unlink_cell_wf [OF this] obtain h' where "unlink_cell a (cells t) = Ret h'" "h' a = None"
    by blast
  with wf show thesis by (intro that [of h']) (simp_all add: table_wf_def)
qed

subsection \<open>A cell in focus\<close>

text \<open>
  \<open>cell_at t a bs x cs\<close>: address \<open>a\<close> holds the element \<open>x\<close> of the table \<open>bs @ x # cs\<close>. It is what an
  operation knows after its search loop, and it survives the writes through the found pointer.
\<close>

definition cell_at :: "'z table \<Rightarrow> nat \<Rightarrow> 'z node_scheme list \<Rightarrow> 'z node_scheme \<Rightarrow> 'z node_scheme list \<Rightarrow> bool" where
  "cell_at t a bs x cs \<longleftrightarrow> (\<exists>as n as'. table_wf t (as @ a # as') \<and> bs = view (cells t) as \<and>
     cs = view (cells t) as' \<and> cells t a = Some n \<and> strip n = x)"

lemma cell_at_is: "cell_at t a bs x cs \<Longrightarrow> table_is t (bs @ x # cs)"
  by (auto simp: cell_at_def table_is_def)

lemma cell_at_load: "cell_at t a bs x cs \<Longrightarrow> \<exists>n. cells t a = Some n \<and> load (cells t) (Some a) = Ret n \<and> strip n = x"
  by (auto simp: cell_at_def load_def)

lemma cell_at_store:
  assumes "cell_at t a bs x cs" and "cells t a = Some n" and "nxt m = nxt n" "prv m = prv n"
  shows "cell_at (t\<lparr>cells := (cells t)(a \<mapsto> m)\<rparr>) a bs (strip m) cs"
proof -
  from assms obtain as as' where wf: "table_wf t (as @ a # as')" and v: "bs = view (cells t) as" "cs = view (cells t) as'"
    by (auto simp: cell_at_def)
  from wf have "dpath (cells t) None (head t) (as @ a # as') None" and free: "\<forall>b. brk t \<le> b \<longrightarrow> cells t b = None"
    and "distinct (as @ a # as')" by (auto simp only: table_wf_def)
  moreover from this(1) have "dpath ((cells t)(a \<mapsto> m)) None (head t) (as @ a # as') None"
    using assms(2-4) by (intro dpath_modify [where n = n])
  moreover have "\<not> brk t \<le> a" using free assms(2) by auto
  ultimately have "table_wf (t\<lparr>cells := (cells t)(a \<mapsto> m)\<rparr>) (as @ a # as')"
    unfolding table_wf_def by simp
  moreover from wf have "a \<notin> set as" "a \<notin> set as'" by (auto simp: table_wf_def)
  ultimately show ?thesis using v unfolding cell_at_def
    by (intro exI [of _ as] exI [of _ m] exI [of _ as']) simp
qed

lemma cell_at_unlink:
  assumes "cell_at t a bs x cs" and "bs \<noteq> []"
  shows "\<exists>h. unlink_cell a (cells t) = Ret h \<and> table_is (t\<lparr>cells := h\<rparr>) (bs @ cs)"
proof -
  from assms obtain as as' where wf: "table_wf t (as @ a # as')" and v: "bs = view (cells t) as" "cs = view (cells t) as'"
    by (auto simp: cell_at_def)
  with assms(2) have "as \<noteq> []" by auto
  from unlink_cell_later_wf [OF wf this] obtain h where h: "unlink_cell a (cells t) = Ret h"
    "table_wf (t\<lparr>cells := h\<rparr>) (as @ as')" "view h (as @ as') = view (cells t) (as @ as')" by blast
  then have "table_is (t\<lparr>cells := h\<rparr>) (bs @ cs)"
    unfolding table_is_def v by (intro exI [of _ "as @ as'"]) simp
  with h(1) show ?thesis by blast
qed

lemma cell_at_unlink_head:
  assumes "cell_at t a bs x cs"
  shows "\<exists>t'. unlink_cell_head a t = Ret t' \<and> table_is t' (bs @ cs)"
proof -
  from assms obtain as as' where wf: "table_wf t (as @ a # as')" and v: "bs = view (cells t) as" "cs = view (cells t) as'"
    by (auto simp: cell_at_def)
  from unlink_cell_head_wf [OF wf] obtain t' where "unlink_cell_head a t = Ret t'" "table_wf t' (as @ as')"
    "view (cells t') (as @ as') = view (cells t) (as @ as')" by blast
  moreover from this have "table_is t' (bs @ cs)"
    unfolding table_is_def v by (intro exI [of _ "as @ as'"]) simp
  ultimately show ?thesis by blast
qed

lemma cell_at_unlink_first:
  assumes "cell_at t a [] x cs"
  shows "\<exists>h. unlink_cell a (cells t) = Ret h \<and> head t = Some a \<and> h a = None"
proof -
  from assms obtain as' where wf: "table_wf t (a # as')"
    by (auto simp: cell_at_def view_def)
  from unlink_cell_first_dangles [OF wf] show ?thesis by blast
qed

subsection \<open>Tables searched by a key\<close>

text \<open>
  The client side of the three tables: searches compare a field of the cell that is not a link
  pointer. Every law of this interface is about that field only; the tables of the service
  provide it for \<open>index\<close>, \<open>desc\<close> and \<open>filename\<close>.
\<close>

locale keyed_cells =
  fixes key :: "'z node_scheme \<Rightarrow> 'k"
  assumes key_strip: "key (strip n) = key n"
begin

lemma find_key_view:
  "find (\<lambda>x. key x = k) (view h as) = map_option (\<lambda>a. strip (the (h a))) (find (\<lambda>a. key (the (h a)) = k) as)"
  by (induction as) (auto simp: key_strip)

lemma find_key_None:
  assumes "table_is t xs" and "find (\<lambda>x. key x = k) xs = None"
  shows "find_node (\<lambda>n. key n = k) (cells t) (head t) = Ret None"
  using assms by (auto simp: table_is_def find_node_wf find_key_view)

lemma find_key_Some:
  assumes tab: "table_is t xs" and fnd: "find (\<lambda>x. key x = k) xs = Some x"
  obtains a n bs cs where "find_node (\<lambda>n. key n = k) (cells t) (head t) = Ret (Some a)"
    "cells t a = Some n" "strip n = x" "key n = k" "table_wf t (bs @ a # cs)"
    "xs = view (cells t) bs @ x # view (cells t) cs" "\<forall>y\<in>set (view (cells t) bs). key y \<noteq> k"
proof -
  from tab obtain as where wf: "table_wf t as" and xs: "xs = view (cells t) as"
    by (auto simp: table_is_def)
  from fnd xs obtain a where a: "find (\<lambda>a. key (the (cells t a)) = k) as = Some a"
    "x = strip (the (cells t a))" by (auto simp: find_key_view)
  from find_split [OF a(1)] obtain bs cs where
    split: "as = bs @ a # cs" "key (the (cells t a)) = k" "\<forall>b\<in>set bs. key (the (cells t b)) \<noteq> k"
    by blast
  from wf split(1) obtain n where n: "cells t a = Some n" using table_wf_split by blast
  have "\<forall>y\<in>set (view (cells t) bs). key y \<noteq> k"
    using split(3) by (auto simp: view_def key_strip)
  with n a split wf xs show thesis
    by (intro that [of a n bs cs]) (simp_all add: find_node_wf)
qed

lemma find_key_at:
  assumes "table_is t xs" and "find (\<lambda>x. key x = k) xs = Some x"
  obtains a bs cs where "find_node (\<lambda>n. key n = k) (cells t) (head t) = Ret (Some a)"
    "cell_at t a bs x cs" "xs = bs @ x # cs" "key x = k" "\<forall>y\<in>set bs. key y \<noteq> k"
proof (rule find_key_Some [OF assms])
  fix a n as as'
  assume "find_node (\<lambda>n. key n = k) (cells t) (head t) = Ret (Some a)" "cells t a = Some n"
    "strip n = x" "key n = k" "table_wf t (as @ a # as')"
    "xs = view (cells t) as @ x # view (cells t) as'" "\<forall>y\<in>set (view (cells t) as). key y \<noteq> k"
  then show thesis
    by (intro that [of a "view (cells t) as" "view (cells t) as'"]) (auto simp: cell_at_def key_strip)
qed

lemma find_key_iff: "find (\<lambda>x. key x = k) xs = None \<longleftrightarrow> k \<notin> key ` set xs"
  by (auto simp: find_None_iff)

lemma find_key_obtain:
  assumes "k \<in> key ` set xs"
  obtains x where "find (\<lambda>x. key x = k) xs = Some x" "key x = k" "x \<in> set xs"
  using assms find_key_iff [of k xs]
  by (cases "find (\<lambda>x. key x = k) xs") (auto simp: find_Some_iff)

lemma find_key_taken:
  assumes "table_is t xs"
  obtains p where "find_node (\<lambda>n. key n = k) (cells t) (head t) = Ret p" "p \<noteq> None \<longleftrightarrow> k \<in> key ` set xs"
proof (cases "k \<in> key ` set xs")
  case True
  then obtain x where "find (\<lambda>x. key x = k) xs = Some x" by (rule find_key_obtain)
  from find_key_Some [OF assms this] obtain a where
    "find_node (\<lambda>n. key n = k) (cells t) (head t) = Ret (Some a)" by blast
  with True show thesis by (intro that [of "Some a"]) auto
next
  case False
  with find_key_None [OF assms] find_key_iff have
    "find_node (\<lambda>n. key n = k) (cells t) (head t) = Ret None" by blast
  with False show thesis by (intro that [of None]) auto
qed

lemma update_key:
  assumes tab: "table_is t xs" and fnd: "find (\<lambda>x. key x = k) xs = Some x"
    and links: "\<And>n. nxt (f n) = nxt n" "\<And>n. prv (f n) = prv n" "\<And>n. strip (f n) = f (strip n)"
  obtains a n where "find_node (\<lambda>n. key n = k) (cells t) (head t) = Ret (Some a)"
    "cells t a = Some n" "strip n = x"
    "modify_cell f a (cells t) = Ret ((cells t)(a \<mapsto> f n))"
    "table_is (t\<lparr>cells := (cells t)(a \<mapsto> f n)\<rparr>) (upd_first (\<lambda>x. key x = k) f xs)"
proof -
  obtain a n bs cs where f: "find_node (\<lambda>n. key n = k) (cells t) (head t) = Ret (Some a)"
    "cells t a = Some n" "strip n = x" "key n = k" "table_wf t (bs @ a # cs)"
    "xs = view (cells t) bs @ x # view (cells t) cs" "\<forall>y\<in>set (view (cells t) bs). key y \<noteq> k"
    using find_key_Some [OF tab fnd] by blast
  obtain m where m: "cells t a = Some m" "modify_cell f a (cells t) = Ret ((cells t)(a \<mapsto> f m))"
    "table_wf (t\<lparr>cells := (cells t)(a \<mapsto> f m)\<rparr>) (bs @ a # cs)"
    "view ((cells t)(a \<mapsto> f m)) (bs @ a # cs) = view (cells t) bs @ strip (f m) # view (cells t) cs"
    using modify_cell_wf [OF f(5) links(1,2)] by blast
  have "key x = k" using f(3,4) key_strip by metis
  with f(3,6,7) have "upd_first (\<lambda>x. key x = k) f xs = view (cells t) bs @ strip (f n) # view (cells t) cs"
    by (auto simp: upd_first_append links(3))
  with m f show thesis by (intro that [of a n]) (auto simp: table_is_def)
qed

lemma remove_key:
  assumes tab: "table_is t xs" and fnd: "find (\<lambda>x. key x = k) xs = Some x"
  obtains a n t' where "find_node (\<lambda>n. key n = k) (cells t) (head t) = Ret (Some a)"
    "cells t a = Some n" "strip n = x" "unlink_cell_head a t = Ret t'"
    "table_is t' (del_first (\<lambda>x. key x = k) xs)"
proof -
  obtain a n bs cs where f: "find_node (\<lambda>n. key n = k) (cells t) (head t) = Ret (Some a)"
    "cells t a = Some n" "strip n = x" "key n = k" "table_wf t (bs @ a # cs)"
    "xs = view (cells t) bs @ x # view (cells t) cs" "\<forall>y\<in>set (view (cells t) bs). key y \<noteq> k"
    using find_key_Some [OF tab fnd] by blast
  obtain t' where t': "unlink_cell_head a t = Ret t'" "table_wf t' (bs @ cs)"
    "view (cells t') (bs @ cs) = view (cells t) (bs @ cs)" by (rule unlink_cell_head_wf [OF f(5)])
  have "key x = k" using f(3,4) key_strip by metis
  with f(6,7) have "del_first (\<lambda>x. key x = k) xs = view (cells t) (bs @ cs)"
    by (auto simp: del_first_append)
  with t' f show thesis by (intro that [of a n t']) (auto simp: table_is_def)
qed

text \<open>Unlinking behind the first cell, and unlinking the first cell.\<close>

lemma unlink_key_later:
  assumes tab: "table_is t (y # xs)" and "key y \<noteq> k" and fnd: "find (\<lambda>x. key x = k) xs = Some x"
  obtains a n h' where "find_node (\<lambda>n. key n = k) (cells t) (head t) = Ret (Some a)"
    "cells t a = Some n" "strip n = x" "unlink_cell a (cells t) = Ret h'"
    "table_is (t\<lparr>cells := h'\<rparr>) (y # del_first (\<lambda>x. key x = k) xs)"
proof -
  from assms have fnd': "find (\<lambda>x. key x = k) (y # xs) = Some x" by simp
  obtain a n bs cs where f: "find_node (\<lambda>n. key n = k) (cells t) (head t) = Ret (Some a)"
    "cells t a = Some n" "strip n = x" "key n = k" "table_wf t (bs @ a # cs)"
    "y # xs = view (cells t) bs @ x # view (cells t) cs" "\<forall>y\<in>set (view (cells t) bs). key y \<noteq> k"
    using find_key_Some [OF tab fnd'] by blast
  have kx: "key x = k" using f(3,4) key_strip by metis
  with f(6) \<open>key y \<noteq> k\<close> have "bs \<noteq> []" by auto
  from unlink_cell_later_wf [OF f(5) this] obtain h' where
    h': "unlink_cell a (cells t) = Ret h'" "table_wf (t\<lparr>cells := h'\<rparr>) (bs @ cs)"
    "view h' (bs @ cs) = view (cells t) (bs @ cs)" by blast
  have "del_first (\<lambda>x. key x = k) (y # xs) = view (cells t) (bs @ cs)"
    using f(6,7) kx by (auto simp: del_first_append)
  with \<open>key y \<noteq> k\<close> have "y # del_first (\<lambda>x. key x = k) xs = view (cells t) (bs @ cs)" by simp
  then have "table_is (t\<lparr>cells := h'\<rparr>) (y # del_first (\<lambda>x. key x = k) xs)"
    unfolding table_is_def using h'(2,3) by (intro exI [of _ "bs @ cs"]) simp
  with f h' show thesis by (intro that [of a n h']) auto
qed

lemma unlink_key_first:
  assumes tab: "table_is t (x # xs)" and "key x = k"
  obtains a n h' where "find_node (\<lambda>n. key n = k) (cells t) (head t) = Ret (Some a)"
    "cells t a = Some n" "strip n = x" "unlink_cell a (cells t) = Ret h'"
    "head t = Some a" "h' a = None"
proof -
  from assms have "find (\<lambda>x. key x = k) (x # xs) = Some x" by simp
  then obtain a n bs cs where f: "find_node (\<lambda>n. key n = k) (cells t) (head t) = Ret (Some a)"
    "cells t a = Some n" "strip n = x" "key n = k" "table_wf t (bs @ a # cs)"
    "x # xs = view (cells t) bs @ x # view (cells t) cs" "\<forall>y\<in>set (view (cells t) bs). key y \<noteq> k"
    using find_key_Some [OF tab] by blast
  have "bs = []" using f(6,7) assms(2) by (cases bs) auto
  with f(5) have "table_wf t (a # cs)" by simp
  from unlink_cell_first_dangles [OF this] obtain h' where
    "unlink_cell a (cells t) = Ret h'" "head t = Some a" "h' a = None" by blast
  with f show thesis by (intro that [of a n h']) auto
qed

end

end
