(* ===== verification/Inode_Table.thy ===== *)
theory Inode_Table
  imports Linked_List Common
begin

text \<open>
  The inode table of \<^verbatim>\<open>service/inode.c\<close>: a linked list of \<^verbatim>\<open>struct inode_t\<close>. A new inode gets the
  number after the last one's.
\<close>

record inode_t = node +
  index :: u32
  ftype :: u32
  stat :: stat_t
  mode :: u64
  owner :: u32
  owner_group :: u32
  ref_count :: u32
  data_blocks :: "u32 list"

type_synonym inode_table_t = "unit inode_t_ext table"

text \<open>\<^verbatim>\<open>memset(node->data_blocks, 0, ...)\<close>\<close>

definition no_blocks :: "u32 list" where
  "no_blocks = replicate FILE_MAX_BLOCKS 0"

definition new_inode ::
  "u32 \<Rightarrow> u32 \<Rightarrow> u32 \<Rightarrow> u32 \<Rightarrow> u32 \<Rightarrow> u64 \<Rightarrow> u64 \<Rightarrow> timespec \<Rightarrow> timespec \<Rightarrow> timespec \<Rightarrow> inode_t" where
  "new_inode i ty own grp refs md sz atim mtim ctim =
     \<lparr>nxt = None, prv = None, index = i, ftype = ty,
      stat = \<lparr>st_size = sz, st_atim = atim, st_mtim = mtim, st_ctim = ctim\<rparr>,
      mode = md, owner = own, owner_group = grp, ref_count = refs, data_blocks = no_blocks\<rparr>"

definition add_inode ::
  "inode_table_t \<Rightarrow> u32 \<Rightarrow> u32 \<Rightarrow> u32 \<Rightarrow> u32 \<Rightarrow> u64 \<Rightarrow> u64 \<Rightarrow> timespec \<Rightarrow> timespec \<Rightarrow> timespec \<Rightarrow>
   (status \<times> u32 \<times> inode_table_t) outcome" where
  "add_inode t ty own grp refs md sz atim mtim ctim =
     obind (append_cell (\<lambda>l. new_inode (case l of None \<Rightarrow> 0 | Some cur \<Rightarrow> index cur + 1)
         ty own grp refs md sz atim mtim ctim) t)
       (\<lambda>(n, t'). Ret (SUCCESS, index n, t'))"

subsection \<open>The operations on a well-formed table\<close>

interpretation inodes: keyed_cells "index :: inode_t \<Rightarrow> u32"
  by unfold_locales (simp add: strip_def)

definition next_index :: "inode_t list \<Rightarrow> u32" where
  "next_index is = (if is = [] then 0 else index (last is) + 1)"

lemma add_inode_spec:
  assumes tab: "table_is t is"
  obtains t' where
    "add_inode t ty own grp refs md sz atim mtim ctim = Ret (SUCCESS, next_index is, t')"
    "table_is t' (is @ [new_inode (next_index is) ty own grp refs md sz atim mtim ctim])"
proof -
  let ?fill = "\<lambda>l :: inode_t option. new_inode (case l of None \<Rightarrow> 0 | Some cur \<Rightarrow> index cur + 1)
      ty own grp refs md sz atim mtim ctim"
  obtain n t' where n: "append_cell ?fill t = Ret (n, t')"
    "strip n = strip (?fill (if is = [] then None else Some (last is)))" "table_is t' (is @ [strip n])"
    using append_cell_is [OF tab, of ?fill] by (auto simp: inodes.key_strip)
  have s: "strip n = new_inode (next_index is) ty own grp refs md sz atim mtim ctim"
    unfolding n(2) by (simp add: strip_def next_index_def new_inode_def)
  then have "index n = next_index is"
    using inodes.key_strip [of n] by (simp add: new_inode_def)
  with n s show thesis by (intro that [of t']) (simp_all add: add_inode_def)
qed

end
