(* ===== verification/File_IO.thy ===== *)
theory File_IO
  imports Data_Blocks Inode_Table
begin

text \<open>
  \<^verbatim>\<open>write_inode\<close> and \<^verbatim>\<open>read_inode\<close> of \<^verbatim>\<open>service/inode.c\<close>: the loops that cut a byte range into
  block accesses. The loops take the block operations as arguments, so that their lemmas are
  proved once from the laws of \<open>block_device\<close>; \<open>write_inode\<close> and \<open>read_inode\<close> run them on the
  operations of \<open>Data_Blocks\<close>. Offsets and sizes are 32-bit words, as in the code: the bound check
  \<^verbatim>\<open>*offset + size > DATA_BLOCK_ALLOC_SIZE * FILE_MAX_BLOCKS\<close> wraps.
\<close>

subsection \<open>The loops\<close>

text \<open>
  One iteration per block number \<open>i\<close> of the list: the block at the offset is updated when it
  exists, every other block is allocated afresh. \<open>co\<close> is \<^verbatim>\<open>current_offset\<close>, \<open>sz\<close> what is left of
  \<^verbatim>\<open>size\<close>, \<open>bl\<close> the array \<^verbatim>\<open>inode->data_blocks\<close>.
\<close>

fun write_loop ::
  "'d occupy_op \<Rightarrow> 'd update_op \<Rightarrow> u32 \<Rightarrow> byte list \<Rightarrow> u32 \<Rightarrow> u32 \<Rightarrow> nat list \<Rightarrow> u32 \<Rightarrow> u32 \<Rightarrow>
   u32 list \<Rightarrow> 'd \<Rightarrow> (status \<times> u32 list \<times> 'd) outcome" where
  "write_loop occ upd ino buf off cb [] co sz bl d = Ret (SUCCESS, bl, d)"
| "write_loop occ upd ino buf off cb (i # is) co sz bl d =
     (if length bl \<le> i then Undef
      else if i = unat cb \<and> bl ! i \<noteq> 0 then
        (let room = 4096 - off mod 4096;
             size_to_write = (if sz > room then room else sz)
         in obind (upd (bl ! i - 1) (drop (unat co) buf) (off mod 4096) size_to_write d) (\<lambda>(st, d1).
            if st \<noteq> SUCCESS then Ret (FAILURE, bl, d1)
            else write_loop occ upd ino buf off cb is (co + size_to_write) (sz - size_to_write) bl d1))
      else
        (let size_to_write = (if sz > 4096 then 4096 else sz)
         in if length buf < unat co + unat size_to_write then Undef
            else let buffer = overwrite 0 (take (unat size_to_write) (drop (unat co) buf))
                                (replicate DATA_BLOCK_ALLOC_SIZE 0)
            in obind (occ ino buffer size_to_write 0 d) (\<lambda>(st, slot, d1).
               if st \<noteq> SUCCESS then Ret (FAILURE, bl, d1)
               else write_loop occ upd ino buf off cb is (co + size_to_write) (sz - size_to_write)
                      (bl[i := slot]) d1)))"

definition total_blocks :: "u32 \<Rightarrow> u32" where
  "total_blocks new_offset = new_offset div 4096 + (if new_offset mod 4096 \<noteq> 0 then 1 else 0)"

definition write_inode ::
  "inode_t \<Rightarrow> byte list \<Rightarrow> u32 \<Rightarrow> u32 \<Rightarrow> disk \<Rightarrow> (status \<times> inode_t \<times> u32 \<times> disk) outcome" where
  "write_inode ino buf off sz d =
     (let current_block = off div 4096; new_offset = off + sz in
      if off + sz > 4096 * 100 then Ret (FAILURE, ino, off, d)
      else obind (write_loop occupy_block_table_slot update_block_table_slot (index ino) buf off current_block
                   [unat current_block ..< unat (total_blocks new_offset)] 0 sz (data_blocks ino) d)
             (\<lambda>(st, bl, d'). 
               if st = SUCCESS
               then Ret (SUCCESS, ino\<lparr>data_blocks := bl, stat := (stat ino)\<lparr>st_size := ucast new_offset\<rparr>\<rparr>,
                         new_offset, d')
               else Ret (FAILURE, ino\<lparr>data_blocks := bl\<rparr>, off, d')))"

lemma room_bounds: "0 < unat (4096 - off mod 4096 :: u32)" "unat (4096 - off mod 4096 :: u32) \<le> 4096"
  "unat (4096 - off mod 4096 :: u32) = 4096 - unat off mod 4096"
proof -
  have m: "unat (off mod 4096) = unat off mod 4096" by (simp add: unat_mod)
  then have "off mod 4096 \<le> (4096 :: u32)" by (simp add: word_le_nat_alt)
  then have "unat (4096 - off mod 4096) = 4096 - unat off mod 4096"
    by (simp add: unat_sub m)
  then show "unat (4096 - off mod 4096) = 4096 - unat off mod 4096"
    "0 < unat (4096 - off mod 4096)" "unat (4096 - off mod 4096) \<le> 4096" by simp_all
qed

lemma chunk_unat:
  fixes sz off :: u32
  shows "unat (if sz > 4096 - off mod 4096 then 4096 - off mod 4096 else sz) =
    min (unat sz) (4096 - unat off mod 4096)"
  using room_bounds [of off] by (auto simp: word_less_nat_alt min_def)

function read_loop ::
  "'d read_op \<Rightarrow> u32 list \<Rightarrow> u32 \<Rightarrow> u32 \<Rightarrow> u32 \<Rightarrow> u32 \<Rightarrow> byte list \<Rightarrow> 'd \<Rightarrow>
   (status \<times> byte list \<times> u32) outcome" where
  "read_loop rd bl bytes_to_read co off cb buf d =
     (if bytes_to_read = 0 then Ret (SUCCESS, buf, off)
      else let room = 4096 - off mod 4096;
               n = (if bytes_to_read > room then room else bytes_to_read);
               size_to_read = (if n > 4096 then 4096 else n)
           in if length bl \<le> unat cb then Undef
              else obind (rd (bl ! unat cb - 1) buf (unat co) (off mod 4096) size_to_read d) (\<lambda>(st, buf1).
                if st \<noteq> SUCCESS then Ret (FAILURE, buf1, off)
                else read_loop rd bl (bytes_to_read - size_to_read) (co + size_to_read) (off + size_to_read)
                       (cb + 1) buf1 d))"
  by pat_completeness auto

termination
proof (relation "measure (\<lambda>(rd, bl, bytes_to_read, co, off, cb, buf, d). unat bytes_to_read)", goal_cases)
  case 1
  show ?case by simp
next
  case (2 rd bl bytes_to_read co off cb buf d room n size_to_read r st buf1)
  have "0 < unat bytes_to_read" using 2(1) by (simp add: unat_gt_0)
  have n: "0 < unat n" "n \<le> bytes_to_read"
    using 2(2,3) room_bounds(1) [of off] \<open>0 < unat bytes_to_read\<close> by (auto simp: word_le_nat_alt word_less_nat_alt)
  have "n \<le> 4096" unfolding 2(3) using room_bounds(2) [of off] 2(2)
    by (auto simp: word_le_nat_alt word_less_nat_alt)
  with 2(4) have "size_to_read = n" by auto
  with n \<open>0 < unat bytes_to_read\<close> show ?case by (simp add: unat_sub)
qed

declare read_loop.simps [simp del]

definition read_inode ::
  "inode_t \<Rightarrow> byte list \<Rightarrow> u32 \<Rightarrow> u32 \<Rightarrow> disk \<Rightarrow> (status \<times> byte list \<times> u32) outcome" where
  "read_inode ino buf off sz d =
     (if off + sz > 4096 * 100 then Ret (FAILURE, buf, off)
      else read_loop read_block_table_slot (data_blocks ino) sz 0 off (off div 4096) buf d)"

subsection \<open>The bytes of a file\<close>

text \<open>
  \<open>byte_at blk d bl p\<close> is byte \<open>p\<close> of the file whose block array is \<open>bl\<close>; it exists
  (\<open>mapped\<close>) when the block is allocated. \<open>blocks_ok bl k\<close>: the array is a 100-entry array
  of distinct slots below \<open>k\<close> (slot numbers are stored plus one, 0 is "none").
\<close>

definition byte_at :: "('d \<Rightarrow> nat \<Rightarrow> byte list) \<Rightarrow> 'd \<Rightarrow> u32 list \<Rightarrow> nat \<Rightarrow> byte" where
  "byte_at blk d bl p = blk d (unat (bl ! (p div DATA_BLOCK_ALLOC_SIZE)) - 1) ! (p mod DATA_BLOCK_ALLOC_SIZE)"

definition mapped :: "u32 list \<Rightarrow> nat \<Rightarrow> bool" where
  "mapped bl p \<longleftrightarrow> p div DATA_BLOCK_ALLOC_SIZE < FILE_MAX_BLOCKS \<and> bl ! (p div DATA_BLOCK_ALLOC_SIZE) \<noteq> 0"

definition blocks_ok :: "u32 list \<Rightarrow> nat \<Rightarrow> bool" where
  "blocks_ok bl k \<longleftrightarrow> length bl = FILE_MAX_BLOCKS \<and> (\<forall>i<FILE_MAX_BLOCKS. unat (bl ! i) \<le> k) \<and>
     (\<forall>i<FILE_MAX_BLOCKS. \<forall>j<FILE_MAX_BLOCKS. bl ! i = bl ! j \<and> bl ! i \<noteq> 0 \<longrightarrow> i = j)"

lemma blocks_ok_no_blocks: "blocks_ok no_blocks k"
  by (simp add: blocks_ok_def no_blocks_def)

lemma mapped_slot:
  assumes "mapped bl p" "blocks_ok bl k"
  shows "unat (bl ! (p div DATA_BLOCK_ALLOC_SIZE)) - 1 < k \<and> 0 < unat (bl ! (p div DATA_BLOCK_ALLOC_SIZE))"
proof -
  have "0 < unat (bl ! (p div DATA_BLOCK_ALLOC_SIZE))" using assms(1) by (simp add: mapped_def unat_gt_0)
  moreover have "unat (bl ! (p div DATA_BLOCK_ALLOC_SIZE)) \<le> k"
    using assms by (auto simp: mapped_def blocks_ok_def)
  ultimately show ?thesis by linarith
qed

lemma mapped_distinct:
  assumes "mapped bl p" "mapped bl q" "blocks_ok bl k"
    and "p div DATA_BLOCK_ALLOC_SIZE \<noteq> q div DATA_BLOCK_ALLOC_SIZE"
  shows "unat (bl ! (p div DATA_BLOCK_ALLOC_SIZE)) - 1 \<noteq> unat (bl ! (q div DATA_BLOCK_ALLOC_SIZE)) - 1"
proof -
  have "bl ! (p div DATA_BLOCK_ALLOC_SIZE) \<noteq> bl ! (q div DATA_BLOCK_ALLOC_SIZE)"
    using assms unfolding mapped_def blocks_ok_def by blast
  moreover have "0 < unat (bl ! (p div DATA_BLOCK_ALLOC_SIZE))" "0 < unat (bl ! (q div DATA_BLOCK_ALLOC_SIZE))"
    using assms mapped_slot by blast+
  ultimately show ?thesis by (metis Suc_diff_1 word_unat_eq_iff)
qed

lemma blocks_ok_extend:
  assumes "blocks_ok bl k" "k < NUM_OF_DATA_BLOCKS" "i < FILE_MAX_BLOCKS"
  shows "blocks_ok (bl[i := of_nat (Suc k)]) (Suc k)" "unat (of_nat (Suc k) :: u32) = Suc k"
proof -
  show u: "unat (of_nat (Suc k) :: u32) = Suc k"
    using assms(2) by (intro unat_of_nat_u32) (simp add: NUM_OF_DATA_BLOCKS_def)
  have "bl ! j \<noteq> of_nat (Suc k)" if "j < FILE_MAX_BLOCKS" for j
  proof
    assume "bl ! j = of_nat (Suc k)"
    with u have "unat (bl ! j) = Suc k" by simp
    with assms(1) that show False by (auto simp: blocks_ok_def)
  qed
  with assms u show "blocks_ok (bl[i := of_nat (Suc k)]) (Suc k)"
    unfolding blocks_ok_def by (auto simp: nth_list_update le_Suc_eq)
qed

subsection \<open>The loops over any block device\<close>

text \<open>The number of blocks that \<open>n\<close> bytes take.\<close>

definition nblocks :: "nat \<Rightarrow> nat" where
  "nblocks n = (n + 4095) div DATA_BLOCK_ALLOC_SIZE"

lemma nblocks_0 [simp]: "nblocks 0 = 0"
  by (simp add: nblocks_def)

lemma nblocks_bounds: "n \<le> DATA_BLOCK_ALLOC_SIZE * nblocks n" "DATA_BLOCK_ALLOC_SIZE * nblocks n < n + DATA_BLOCK_ALLOC_SIZE"
  unfolding nblocks_def by linarith+

lemma nblocks_le: "nblocks n \<le> m \<longleftrightarrow> n \<le> DATA_BLOCK_ALLOC_SIZE * m"
  using nblocks_bounds [of n] by linarith

lemma nblocks_unique: "n \<le> DATA_BLOCK_ALLOC_SIZE * m \<Longrightarrow> DATA_BLOCK_ALLOC_SIZE * m < n + DATA_BLOCK_ALLOC_SIZE \<Longrightarrow> nblocks n = m"
  using nblocks_bounds [of n] by linarith

lemma nblocks_qr: "r < DATA_BLOCK_ALLOC_SIZE \<Longrightarrow>
  nblocks (DATA_BLOCK_ALLOC_SIZE * q + r) = q + (if r = 0 then 0 else 1)"
  by (intro nblocks_unique) auto

lemma tail_pos: "off = DATA_BLOCK_ALLOC_SIZE * c + r \<Longrightarrow> w + r = DATA_BLOCK_ALLOC_SIZE \<Longrightarrow> w \<le> p - off \<Longrightarrow>
  off \<le> p \<Longrightarrow> DATA_BLOCK_ALLOC_SIZE * Suc c + (p - off - w) = p" for p :: nat
proof -
  assume a: "off = DATA_BLOCK_ALLOC_SIZE * c + r" "w + r = DATA_BLOCK_ALLOC_SIZE" "w \<le> p - off" "off \<le> p"
  then obtain v where "p = off + w + v" by (metis le_add_diff_inverse add.assoc le_Suc_ex)
  with a(1,2) show ?thesis by simp
qed

lemma nblocks_add: "nblocks (DATA_BLOCK_ALLOC_SIZE * q + n) = q + nblocks n"
  using nblocks_bounds [of n] by (intro nblocks_unique) simp_all

lemma nblocks_step: "0 < n \<Longrightarrow> nblocks n = Suc (nblocks (n - min n DATA_BLOCK_ALLOC_SIZE))"
  using nblocks_bounds [of "n - min n DATA_BLOCK_ALLOC_SIZE"]
  by (intro nblocks_unique) (auto simp: min_def)

lemma unat_total_blocks: "unat (total_blocks n) = nblocks (unat n)"
proof -
  have q: "unat n div 4096 < 1048576" using unat_lt_u32 [of n] by linarith
  have z: "(n mod 4096 = 0) = (unat n mod 4096 = 0)"
    by (simp add: unat_mod flip: u32_eq_0)
  have "unat (total_blocks n) = unat n div 4096 + (if unat n mod 4096 = 0 then 0 else 1)"
    using q unfolding total_blocks_def z by (simp add: unat_add_u32 unat_div)
  moreover have "nblocks (unat n) = unat n div 4096 + (if unat n mod 4096 = 0 then 0 else 1)"
    using nblocks_qr [of "unat n mod 4096" "unat n div 4096"] by simp
  ultimately show ?thesis by simp
qed

text \<open>
  What the loop of \<^verbatim>\<open>write_inode\<close> leaves when it wrote \<open>sz\<close> bytes at \<open>off\<close> and allocated the blocks from
  \<open>first\<close> up to \<open>tb\<close>: fresh slots for these, the other slots and bytes as they were (except the
  first block of the range when it existed), and the bytes of the buffer.
\<close>

definition loop_wrote ::
  "('d \<Rightarrow> nat \<Rightarrow> byte list) \<Rightarrow> nat \<Rightarrow> u32 list \<Rightarrow> 'd \<Rightarrow> nat \<Rightarrow> nat \<Rightarrow> nat \<Rightarrow> nat \<Rightarrow> byte list \<Rightarrow> u32 list \<Rightarrow> 'd \<Rightarrow> bool" where
  "loop_wrote blk k bl d first tb off sz buf bl' d' \<longleftrightarrow>
     (\<forall>i. i < first \<or> tb \<le> i \<longrightarrow> bl' ! i = bl ! i) \<and>
     (\<forall>i. first \<le> i \<and> i < tb \<longrightarrow> k < unat (bl' ! i)) \<and>
     (\<forall>b<k. first = off div DATA_BLOCK_ALLOC_SIZE \<or> b \<noteq> unat (bl ! (off div DATA_BLOCK_ALLOC_SIZE)) - 1 \<longrightarrow>
        blk d' b = blk d b) \<and>
     (\<forall>p. off \<le> p \<and> p < off + sz \<longrightarrow> byte_at blk d' bl' p = buf ! (p - off)) \<and>
     (\<forall>p. mapped bl p \<and> (p < off \<or> DATA_BLOCK_ALLOC_SIZE * tb \<le> p) \<longrightarrow> byte_at blk d' bl' p = byte_at blk d bl p)"

text \<open>The file starts a new block at \<open>off\<close>: the allocating iterations did it all.\<close>

lemma wrote_aligned:
  assumes "blocks_ok bl k" "off = DATA_BLOCK_ALLOC_SIZE * c"
    and "\<forall>i. i < c \<or> tb \<le> i \<longrightarrow> bl' ! i = bl ! i" "\<forall>i. c \<le> i \<and> i < tb \<longrightarrow> k < unat (bl' ! i)"
    and "\<forall>b<k. blk d' b = blk d b" "\<forall>q < sz. byte_at blk d' bl' (DATA_BLOCK_ALLOC_SIZE * c + q) = buf ! q"
  shows "loop_wrote blk k bl d c tb off sz buf bl' d'"
proof -
  have "byte_at blk d' bl' p = buf ! (p - off)" if "off \<le> p" "p < off + sz" for p
    using assms(6) [rule_format, of "p - off"] that assms(2) by simp
  moreover have "byte_at blk d' bl' p = byte_at blk d bl p"
    if p: "mapped bl p" "p < off \<or> DATA_BLOCK_ALLOC_SIZE * tb \<le> p" for p
  proof -
    have "p div DATA_BLOCK_ALLOC_SIZE < c \<or> tb \<le> p div DATA_BLOCK_ALLOC_SIZE" using p(2) assms(2) by linarith
    then have "bl' ! (p div DATA_BLOCK_ALLOC_SIZE) = bl ! (p div DATA_BLOCK_ALLOC_SIZE)" using assms(3) by blast
    with assms(5) mapped_slot [OF p(1) assms(1)] show ?thesis by (simp add: byte_at_def)
  qed
  ultimately show ?thesis using assms(3-5) by (simp add: loop_wrote_def)
qed

text \<open>The block at \<open>off\<close> exists: it was updated in place, in slot \<open>s\<close>, with the first \<open>w\<close> bytes.\<close>

lemma wrote_updated:
  assumes bl: "blocks_ok bl k" "mapped bl off" "s = unat (bl ! (off div DATA_BLOCK_ALLOC_SIZE)) - 1"
    and off: "off = DATA_BLOCK_ALLOC_SIZE * c + r" "r < DATA_BLOCK_ALLOC_SIZE" "c < tb"
    and w: "w = min sz (DATA_BLOCK_ALLOC_SIZE - r)" "w \<le> length buf" "length (blk d s) = DATA_BLOCK_ALLOC_SIZE"
    and upd: "blk d1 s = overwrite r (take w buf) (blk d s)" "\<forall>b<k. b \<noteq> s \<longrightarrow> blk d1 b = blk d b"
    and A: "\<forall>i. i < Suc c \<or> tb \<le> i \<longrightarrow> bl' ! i = bl ! i" "\<forall>i. Suc c \<le> i \<and> i < tb \<longrightarrow> k < unat (bl' ! i)"
      "\<forall>b<k. blk d' b = blk d1 b" "\<forall>q < sz - w. byte_at blk d' bl' (DATA_BLOCK_ALLOC_SIZE * Suc c + q) = buf ! (w + q)"
  shows "loop_wrote blk k bl d (Suc c) tb off sz buf bl' d'"
proof -
  have c: "off div DATA_BLOCK_ALLOC_SIZE = c" using off by simp
  have sk: "s < k" using mapped_slot [OF bl(2,1)] bl(3) by simp
  have rw: "r + w \<le> DATA_BLOCK_ALLOC_SIZE" using off(2) unfolding w(1) min_def by (split if_split) linarith
  have lw: "length (take w buf) = w" using w(2) by simp
  have new: "byte_at blk d' bl' p = buf ! (p - off)" if p: "off \<le> p" "p < off + sz" for p
  proof (cases "p - off < w")
    case True
    define t where "t = p - off"
    have t: "t < w" "r + t < DATA_BLOCK_ALLOC_SIZE" using True rw by (simp_all add: t_def)
    have "p = DATA_BLOCK_ALLOC_SIZE * c + (r + t)" using p(1) off(1) by (simp add: t_def)
    with t have "p div DATA_BLOCK_ALLOC_SIZE = c" "p mod DATA_BLOCK_ALLOC_SIZE = r + t" by simp_all
    then have "byte_at blk d' bl' p = blk d1 s ! (r + t)" using A(1,3) sk bl(3) c by (simp add: byte_at_def)
    also have "\<dots> = buf ! t" using t lw w(3) rw unfolding upd(1) by (subst nth_overwrite) (simp_all del: length_take)
    finally show ?thesis by (simp add: t_def)
  next
    case False
    have w4: "w + r = DATA_BLOCK_ALLOC_SIZE" "w \<le> p - off"
      using False p rw unfolding w(1) min_def by (simp_all split: if_splits)
    have "p - off < sz" using p by linarith
    then have q: "p - off - w < sz - w" by (rule diff_less_mono [OF _ w4(2)])
    have q2: "DATA_BLOCK_ALLOC_SIZE * Suc c + (p - off - w) = p" by (rule tail_pos [OF off(1) w4 p(1)])
    have q3: "w + (p - off - w) = p - off" by (rule le_add_diff_inverse [OF w4(2)])
    from A(4) [rule_format, OF q] show ?thesis unfolding q2 q3 .
  qed
  have old: "byte_at blk d' bl' p = byte_at blk d bl p"
    if p: "mapped bl p" "p < off \<or> DATA_BLOCK_ALLOC_SIZE * tb \<le> p" for p
  proof -
    let ?j = "p div DATA_BLOCK_ALLOC_SIZE"
    have "?j \<le> c \<or> tb \<le> ?j" using p(2) off(1,2) by linarith
    then have blj: "bl' ! ?j = bl ! ?j" using A(1) by (auto simp: le_imp_less_Suc)
    show ?thesis
    proof (cases "?j = c")
      case True
      have "p < off" using p(2) True off(3) by (metis div_less_iff_less_mult div_mult_self1_is_m linorder_not_less mult.commute not_less_iff_gr_or_eq zero_less_numeral)
      then have "p mod DATA_BLOCK_ALLOC_SIZE < r"
        using off(1) True by (metis add_less_cancel_left mult_div_mod_eq)
      then have "blk d1 s ! (p mod DATA_BLOCK_ALLOC_SIZE) = blk d s ! (p mod DATA_BLOCK_ALLOC_SIZE)"
        using lw w(3) off(2) rw unfolding upd(1) by (subst nth_overwrite) (simp_all del: length_take)
      with A(3) sk bl(3) c True blj show ?thesis by (simp add: byte_at_def)
    next
      case False
      have "unat (bl ! ?j) - 1 \<noteq> s" using mapped_distinct [OF p(1) bl(2,1)] False bl(3) c by simp
      with A(3) upd(2) mapped_slot [OF p(1) bl(1)] blj show ?thesis by (simp add: byte_at_def)
    qed
  qed
  have "\<forall>b<k. b \<noteq> s \<longrightarrow> blk d' b = blk d b" using A(3) upd(2) by simp
  then have "\<forall>b<k. Suc c = off div DATA_BLOCK_ALLOC_SIZE \<or>
      b \<noteq> unat (bl ! (off div DATA_BLOCK_ALLOC_SIZE)) - 1 \<longrightarrow> blk d' b = blk d b"
    unfolding bl(3) c by simp
  with A(1,2) new old show ?thesis unfolding loop_wrote_def by blast
qed

context block_device
begin

text \<open>One allocation, with the zero-filled buffer the loop builds.\<close>

lemma alloc_block:
  assumes "ok d k" "k < NUM_OF_DATA_BLOCKS" and w: "unat w \<le> DATA_BLOCK_ALLOC_SIZE" "unat co + unat w \<le> length buf"
  obtains d1 where
    "occ ino (overwrite 0 (take (unat w) (drop (unat co) buf)) (replicate DATA_BLOCK_ALLOC_SIZE 0)) w 0 d =
      Ret (SUCCESS, of_nat (Suc k), d1)" "ok d1 (Suc k)"
    "blk d1 k = take (unat w) (drop (unat co) buf) @ replicate (DATA_BLOCK_ALLOC_SIZE - unat w) 0"
    "\<forall>b<k. blk d1 b = blk d b"
proof -
  let ?b = "overwrite 0 (take (unat w) (drop (unat co) buf)) (replicate DATA_BLOCK_ALLOC_SIZE 0)"
  have lb: "length (take (unat w) (drop (unat co) buf)) = unat w" using w(2) by simp
  then have "unat w \<le> length ?b" "take (unat w) ?b = take (unat w) (drop (unat co) buf)"
    using w(1) by (simp_all add: overwrite_def)
  with occ_ok [OF assms(1-3), of ?b ino 0] that show thesis by metis
qed

text \<open>The bytes of a fresh first block and of the blocks behind it.\<close>

lemma alloc_bytes:
  assumes "unat (bl' ! i0) = Suc k" "blk d' k = take w (drop co buf) @ replicate (DATA_BLOCK_ALLOC_SIZE - w) 0"
    and "w = min sz DATA_BLOCK_ALLOC_SIZE" "co + sz \<le> length buf"
    and "\<forall>q < sz - w. byte_at blk d' bl' (DATA_BLOCK_ALLOC_SIZE * Suc i0 + q) = buf ! (co + w + q)" "q < sz"
  shows "byte_at blk d' bl' (DATA_BLOCK_ALLOC_SIZE * i0 + q) = buf ! (co + q)"
proof (cases "q < DATA_BLOCK_ALLOC_SIZE")
  case True
  then have "(DATA_BLOCK_ALLOC_SIZE * i0 + q) div DATA_BLOCK_ALLOC_SIZE = i0"
    "(DATA_BLOCK_ALLOC_SIZE * i0 + q) mod DATA_BLOCK_ALLOC_SIZE = q" by simp_all
  then have "byte_at blk d' bl' (DATA_BLOCK_ALLOC_SIZE * i0 + q) = blk d' k ! q"
    using assms(1) by (simp add: byte_at_def)
  also have "\<dots> = buf ! (co + q)" using True assms(3,4,6) unfolding assms(2) by (simp add: nth_append)
  finally show ?thesis .
next
  case False
  then have q: "w = DATA_BLOCK_ALLOC_SIZE" "q - w < sz - w" using assms(3,6) by simp_all
  then have "DATA_BLOCK_ALLOC_SIZE * Suc i0 + (q - w) = DATA_BLOCK_ALLOC_SIZE * i0 + q" "co + w + (q - w) = co + q"
    using False by simp_all
  with assms(5) q(2) show ?thesis by metis
qed

text \<open>
  The allocating iterations: \<open>m\<close> fresh blocks, starting at block number \<open>i0\<close>, take the remaining
  \<open>sz\<close> bytes of the buffer from \<open>co\<close> on.
\<close>

lemma alloc_loop:
  assumes "ok d k" "blocks_ok bl k" "m = nblocks (unat sz)" "i0 + m \<le> FILE_MAX_BLOCKS"
    and "k + m \<le> NUM_OF_DATA_BLOCKS" "unat co + unat sz \<le> length buf" "unat co + unat sz \<le> 409600"
    and "\<And>i. i0 \<le> i \<Longrightarrow> i < i0 + m \<Longrightarrow> i = unat cb \<Longrightarrow> bl ! i = 0"
  shows "\<exists>bl' d'. write_loop occ upd ino buf off cb [i0..<i0 + m] co sz bl d = Ret (SUCCESS, bl', d') \<and>
    ok d' (k + m) \<and> blocks_ok bl' (k + m) \<and>
    (\<forall>i. i < i0 \<or> i0 + m \<le> i \<longrightarrow> bl' ! i = bl ! i) \<and>
    (\<forall>i. i0 \<le> i \<and> i < i0 + m \<longrightarrow> k < unat (bl' ! i)) \<and>
    (\<forall>b<k. blk d' b = blk d b) \<and>
    (\<forall>q<unat sz. byte_at blk d' bl' (DATA_BLOCK_ALLOC_SIZE * i0 + q) = buf ! (unat co + q))"
  using assms
proof (induction m arbitrary: i0 co sz bl d k)
  case 0
  then have "unat sz = 0" using nblocks_bounds(1) [of "unat sz"] by simp
  with 0 show ?case by auto
next
  case (Suc m)
  let ?w = "if sz > 4096 then 4096 else sz"
  have sz: "0 < unat sz" using Suc.prems(3) by (cases "unat sz = 0") auto
  have w: "unat ?w = min (unat sz) 4096" by (auto simp: word_less_nat_alt min_def)
  have co': "unat (co + ?w) = unat co + min (unat sz) 4096"
    using Suc.prems(7) w by (subst unat_add_u32) auto
  have sz': "unat (sz - ?w) = unat sz - min (unat sz) 4096"
    using w by (subst unat_minus_u32) auto
  have m: "m = nblocks (unat (sz - ?w))"
    using Suc.prems(3) nblocks_step [OF sz] sz' by simp
  have k: "k < NUM_OF_DATA_BLOCKS" and i0: "i0 < FILE_MAX_BLOCKS" using Suc.prems(4,5) by simp_all
  let ?buffer = "overwrite 0 (take (unat ?w) (drop (unat co) buf)) (replicate DATA_BLOCK_ALLOC_SIZE 0)"
  have room: "unat co + unat ?w \<le> length buf" "unat ?w \<le> DATA_BLOCK_ALLOC_SIZE" using Suc.prems(6) w by simp_all
  obtain d1 where
    d1: "occ ino ?buffer ?w 0 d = Ret (SUCCESS, of_nat (Suc k), d1)" "ok d1 (Suc k)"
      "blk d1 k = take (unat ?w) (drop (unat co) buf) @ replicate (DATA_BLOCK_ALLOC_SIZE - unat ?w) 0"
      "\<forall>b<k. blk d1 b = blk d b"
    by (rule alloc_block [OF Suc.prems(1) k room(2,1)])
  let ?bl1 = "bl[i0 := of_nat (Suc k)]"
  note bl1 = blocks_ok_extend [OF Suc.prems(2) k i0]
  have len: "length bl = FILE_MAX_BLOCKS" using Suc.prems(2) by (simp add: blocks_ok_def)
  have "Suc i0 + m \<le> FILE_MAX_BLOCKS" "Suc k + m \<le> NUM_OF_DATA_BLOCKS"
    "unat (co + ?w) + unat (sz - ?w) \<le> length buf" "unat (co + ?w) + unat (sz - ?w) \<le> 409600"
    using Suc.prems(4-7) co' sz' by simp_all
  from Suc.IH [OF d1(2) bl1(1) m this] obtain bl' d' where
    IH: "write_loop occ upd ino buf off cb [Suc i0..<Suc i0 + m] (co + ?w) (sz - ?w) ?bl1 d1 = Ret (SUCCESS, bl', d')"
      "ok d' (Suc k + m)" "blocks_ok bl' (Suc k + m)"
      "\<forall>i. i < Suc i0 \<or> Suc i0 + m \<le> i \<longrightarrow> bl' ! i = ?bl1 ! i"
      "\<forall>i. Suc i0 \<le> i \<and> i < Suc i0 + m \<longrightarrow> Suc k < unat (bl' ! i)"
      "\<forall>b<Suc k. blk d' b = blk d1 b"
      "\<forall>q<unat (sz - ?w). byte_at blk d' bl' (DATA_BLOCK_ALLOC_SIZE * Suc i0 + q) = buf ! (unat (co + ?w) + q)"
    using Suc.prems(8) by (auto simp: nth_list_update)
  have upt: "[i0..<i0 + Suc m] = i0 # [Suc i0..<Suc i0 + m]" by (simp add: upt_conv_Cons del: upt_Suc)
  have "bl ! i0 = 0" if "i0 = unat cb" using Suc.prems(8) [of i0] that by simp
  then have step: "write_loop occ upd ino buf off cb [i0..<i0 + Suc m] co sz bl d = Ret (SUCCESS, bl', d')"
    unfolding upt using IH(1) d1(1) len i0 room(1) by (auto simp: Let_def simp del: upt_Suc of_nat_Suc)
  have bli0: "bl' ! i0 = of_nat (Suc k)" using IH(4) len i0 by simp
  have bytes: "byte_at blk d' bl' (DATA_BLOCK_ALLOC_SIZE * i0 + q) = buf ! (unat co + q)" if q: "q < unat sz" for q
  proof (rule alloc_bytes [OF _ _ w Suc.prems(6) _ q])
    show "unat (bl' ! i0) = Suc k" using bli0 bl1(2) by simp
    show "blk d' k = take (unat ?w) (drop (unat co) buf) @ replicate (DATA_BLOCK_ALLOC_SIZE - unat ?w) 0"
      using IH(6) d1(3) by simp
    show "\<forall>q < unat sz - unat ?w. byte_at blk d' bl' (DATA_BLOCK_ALLOC_SIZE * Suc i0 + q) = buf ! (unat co + unat ?w + q)"
      using IH(7) unfolding co' sz' w .
  qed
  have new: "k < unat (bl' ! i)" if "i0 \<le> i" "i < i0 + Suc m" for i
  proof (cases "i = i0")
    case True
    with bli0 bl1(2) show ?thesis by simp
  next
    case False
    with that IH(5) have "Suc k < unat (bl' ! i)" by auto
    then show ?thesis by simp
  qed
  have old: "bl' ! i = bl ! i" if "i < i0 \<or> i0 + Suc m \<le> i" for i
    using that IH(4) by auto
  have keep: "blk d' b = blk d b" if "b < k" for b using that IH(6) d1(4) by simp
  show ?case using step IH(2,3) new old keep bytes by (intro exI [of _ bl'] exI [of _ d']) simp
qed

text \<open>
  A whole write of \<open>unat sz\<close> bytes at offset \<open>off\<close>. The first block is updated in place if it
  exists; otherwise the offset must stand at its start. \<open>first\<close> is the first block number that
  gets a fresh slot.
\<close>

lemma write_loop_aligned:
  fixes off sz :: u32
  assumes ok: "ok d k" "blocks_ok bl k" and c: "unat off = DATA_BLOCK_ALLOC_SIZE * c" "unat cb = c"
    and free: "\<not> (c < FILE_MAX_BLOCKS \<and> bl ! c \<noteq> 0)" and tb: "tb = nblocks (unat off + unat sz)"
    and room: "tb \<le> FILE_MAX_BLOCKS" "k + (tb - c) \<le> NUM_OF_DATA_BLOCKS" "unat sz \<le> length buf" "unat sz \<le> 409600"
  shows "\<exists>bl' d'. write_loop occ upd ino buf off cb [c..<tb] 0 sz bl d = Ret (SUCCESS, bl', d') \<and>
    ok d' (k + (tb - c)) \<and> blocks_ok bl' (k + (tb - c)) \<and> loop_wrote blk k bl d c tb (unat off) (unat sz) buf bl' d'"
proof -
  have t: "tb = c + nblocks (unat sz)" unfolding tb c(1) by (rule nblocks_add)
  have zero: "bl ! i = 0" if "c \<le> i" "i < c + nblocks (unat sz)" "i = unat cb" for i
    using free that room(1) t c(2) by auto
  have pre: "c + nblocks (unat sz) \<le> FILE_MAX_BLOCKS" "k + nblocks (unat sz) \<le> NUM_OF_DATA_BLOCKS"
    "unat (0::u32) + unat sz \<le> length buf" "unat (0::u32) + unat sz \<le> 409600" using t room by simp_all
  from alloc_loop [where off = off and cb = cb and ino = ino, OF ok refl pre zero] obtain bl' d' where
    A: "write_loop occ upd ino buf off cb [c..<tb] 0 sz bl d = Ret (SUCCESS, bl', d')"
      "ok d' (k + nblocks (unat sz))" "blocks_ok bl' (k + nblocks (unat sz))"
      "\<forall>i. i < c \<or> tb \<le> i \<longrightarrow> bl' ! i = bl ! i" "\<forall>i. c \<le> i \<and> i < tb \<longrightarrow> k < unat (bl' ! i)"
      "\<forall>b<k. blk d' b = blk d b" "\<forall>q<unat sz. byte_at blk d' bl' (DATA_BLOCK_ALLOC_SIZE * c + q) = buf ! q"
    unfolding t by auto
  have "nblocks (unat sz) = tb - c" by (simp add: t)
  with A(1-3) wrote_aligned [OF ok(2) c(1) A(4-7)] show ?thesis by auto
qed

text \<open>The sizes when the first block is updated: what is left for the fresh blocks.\<close>

lemma rest_blocks:
  fixes off sz stw :: u32
  assumes off: "unat off = DATA_BLOCK_ALLOC_SIZE * c + r" "r < DATA_BLOCK_ALLOC_SIZE"
    and w: "unat stw = min (unat sz) (DATA_BLOCK_ALLOC_SIZE - r)" and tb: "tb = nblocks (unat off + unat sz)"
  shows "unat (sz - stw) = unat sz - min (unat sz) (DATA_BLOCK_ALLOC_SIZE - r)" "tb - Suc c = nblocks (unat (sz - stw))"
proof -
  show sz': "unat (sz - stw) = unat sz - min (unat sz) (DATA_BLOCK_ALLOC_SIZE - r)"
    using w by (subst unat_minus_u32) auto
  show "tb - Suc c = nblocks (unat (sz - stw))"
  proof (cases "unat sz \<le> DATA_BLOCK_ALLOC_SIZE - r")
    case True
    then have "unat off + unat sz \<le> DATA_BLOCK_ALLOC_SIZE * Suc c" using off by simp
    then have "tb \<le> Suc c" by (simp add: tb nblocks_le)
    with True sz' show ?thesis by simp
  next
    case False
    then have "unat off + unat sz = DATA_BLOCK_ALLOC_SIZE * Suc c + unat (sz - stw)" using off sz' by simp
    then have "tb = Suc c + nblocks (unat (sz - stw))" unfolding tb by (simp only: nblocks_add)
    then show ?thesis by simp
  qed
qed

lemma write_loop_updated:
  fixes off sz :: u32
  assumes ok: "ok d k" "blocks_ok bl k" and c: "unat cb = unat off div DATA_BLOCK_ALLOC_SIZE" "c = unat cb"
    and used: "c < FILE_MAX_BLOCKS" "bl ! c \<noteq> 0" and tb: "tb = nblocks (unat off + unat sz)" "c < tb"
    and room: "tb \<le> FILE_MAX_BLOCKS" "k + (tb - Suc c) \<le> NUM_OF_DATA_BLOCKS" "unat sz \<le> length buf" "unat sz \<le> 409600"
  shows "\<exists>bl' d'. write_loop occ upd ino buf off cb [c..<tb] 0 sz bl d = Ret (SUCCESS, bl', d') \<and>
    ok d' (k + (tb - Suc c)) \<and> blocks_ok bl' (k + (tb - Suc c)) \<and>
    loop_wrote blk k bl d (Suc c) tb (unat off) (unat sz) buf bl' d'"
proof -
  let ?r = "unat off mod DATA_BLOCK_ALLOC_SIZE" and ?s = "bl ! c - 1"
  let ?w = "min (unat sz) (DATA_BLOCK_ALLOC_SIZE - ?r)"
  let ?stw = "if sz > 4096 - off mod 4096 then 4096 - off mod 4096 else sz"
  have off: "unat off = DATA_BLOCK_ALLOC_SIZE * c + ?r" "?r < DATA_BLOCK_ALLOC_SIZE" using c by simp_all
  have w: "unat ?stw = ?w" by (rule chunk_unat)
  have mp: "mapped bl (unat off)" using used c by (simp add: mapped_def)
  have s: "unat ?s = unat (bl ! (unat off div DATA_BLOCK_ALLOC_SIZE)) - 1" using used(2) c
    by (subst unat_minus_u32) (simp_all add: Suc_le_eq unat_gt_0)
  have sk: "unat ?s < k" using mapped_slot [OF mp ok(2)] s by simp
  have "unat (off mod 4096) + unat ?stw \<le> DATA_BLOCK_ALLOC_SIZE" "unat ?stw \<le> length buf"
    using w room(3) off(2) by (simp_all add: unat_mod)
  from upd_ok [OF ok(1) sk this] obtain d1 where
    d1: "upd ?s buf (off mod 4096) ?stw d = Ret (SUCCESS, d1)" "ok d1 k"
      "blk d1 (unat ?s) = overwrite ?r (take ?w buf) (blk d (unat ?s))" "\<forall>b<k. b \<noteq> unat ?s \<longrightarrow> blk d1 b = blk d b"
    unfolding w by (auto simp: unat_mod)
  note rest = rest_blocks [OF off w tb(1)]
  have co: "unat (0 + ?stw) = ?w" using w by simp
  have tbeq: "Suc c + (tb - Suc c) = tb" using tb(2) by simp
  have pre: "Suc c + (tb - Suc c) \<le> FILE_MAX_BLOCKS" "k + (tb - Suc c) \<le> NUM_OF_DATA_BLOCKS"
    "unat (0 + ?stw) + unat (sz - ?stw) \<le> length buf" "unat (0 + ?stw) + unat (sz - ?stw) \<le> 409600"
    using room unfolding tbeq co rest(1) by simp_all
  have zero: "bl ! i = 0" if "Suc c \<le> i" "i < Suc c + (tb - Suc c)" "i = unat cb" for i using that c by simp
  from alloc_loop [where off = off and cb = cb and ino = ino, OF d1(2) ok(2) rest(2) pre zero] obtain bl' d' where
    A: "write_loop occ upd ino buf off cb [Suc c..<tb] (0 + ?stw) (sz - ?stw) bl d1 = Ret (SUCCESS, bl', d')"
      "ok d' (k + (tb - Suc c))" "blocks_ok bl' (k + (tb - Suc c))"
      "\<forall>i. i < Suc c \<or> tb \<le> i \<longrightarrow> bl' ! i = bl ! i" "\<forall>i. Suc c \<le> i \<and> i < tb \<longrightarrow> k < unat (bl' ! i)"
      "\<forall>b<k. blk d' b = blk d1 b"
      "\<forall>q<unat sz - ?w. byte_at blk d' bl' (DATA_BLOCK_ALLOC_SIZE * Suc c + q) = buf ! (?w + q)"
    unfolding tbeq co rest(1) by blast
  have "length bl = FILE_MAX_BLOCKS" using ok(2) by (simp add: blocks_ok_def)
  then have "write_loop occ upd ino buf off cb [c..<tb] 0 sz bl d = Ret (SUCCESS, bl', d')"
    using tb(2) A(1) d1(1) used c by (simp add: upt_conv_Cons Let_def del: upt_Suc)
  moreover have "?w \<le> length buf" using room(3) by simp
  note wrote_updated [OF ok(2) mp s off tb(2) refl this length_blk [OF ok(1) sk] d1(3,4) A(4-7)]
  ultimately show ?thesis using A(2,3) by blast
qed

lemma write_loop_ok:
  fixes off sz :: u32 and bl :: "u32 list"
  defines "cb \<equiv> off div 4096" and "tb \<equiv> nblocks (unat off + unat sz)"
  defines "first \<equiv> (if unat cb < FILE_MAX_BLOCKS \<and> bl ! unat cb \<noteq> 0 then Suc (unat cb) else unat cb)"
  assumes ok: "ok d k" "blocks_ok bl k" and bound: "unat off + unat sz \<le> 409600"
    and aligned: "first = unat cb \<Longrightarrow> unat off mod DATA_BLOCK_ALLOC_SIZE = 0"
    and room: "k + (tb - first) \<le> NUM_OF_DATA_BLOCKS" and len: "unat sz \<le> length buf"
  obtains bl' d' where
    "write_loop occ upd ino buf off cb [unat cb..<tb] 0 sz bl d = Ret (SUCCESS, bl', d')"
    "ok d' (k + (tb - first))" "blocks_ok bl' (k + (tb - first))"
    "\<And>i. i < first \<or> tb \<le> i \<Longrightarrow> bl' ! i = bl ! i"
    "\<And>i. first \<le> i \<Longrightarrow> i < tb \<Longrightarrow> k < unat (bl' ! i)"
    "\<And>b. b < k \<Longrightarrow> first = unat cb \<or> b \<noteq> unat (bl ! unat cb) - 1 \<Longrightarrow> blk d' b = blk d b"
    "\<And>p. unat off \<le> p \<Longrightarrow> p < unat off + unat sz \<Longrightarrow> byte_at blk d' bl' p = buf ! (p - unat off)"
    "\<And>p. mapped bl p \<Longrightarrow> p < unat off \<or> DATA_BLOCK_ALLOC_SIZE * tb \<le> p \<Longrightarrow>
       byte_at blk d' bl' p = byte_at blk d bl p"
proof -
  let ?c = "unat cb"
  have c: "?c = unat off div DATA_BLOCK_ALLOC_SIZE" by (simp add: cb_def unat_div)
  have tb100: "tb \<le> FILE_MAX_BLOCKS" using bound by (simp add: tb_def nblocks_le)
  have sz: "unat sz \<le> 409600" using bound by simp
  consider "first = ?c" | "first = Suc ?c" "tb \<le> ?c" | "first = Suc ?c" "?c < tb"
    by (cases "tb \<le> ?c"; cases "first = ?c") (auto simp: first_def split: if_splits)
  then have "\<exists>bl' d'. write_loop occ upd ino buf off cb [?c..<tb] 0 sz bl d = Ret (SUCCESS, bl', d') \<and>
    ok d' (k + (tb - first)) \<and> blocks_ok bl' (k + (tb - first)) \<and>
    loop_wrote blk k bl d first tb (unat off) (unat sz) buf bl' d'"
  proof cases
    case 1
    then have a: "unat off = DATA_BLOCK_ALLOC_SIZE * ?c" and f: "\<not> (?c < FILE_MAX_BLOCKS \<and> bl ! ?c \<noteq> 0)"
      using aligned c by (auto simp: first_def split: if_splits)
    from write_loop_aligned [OF ok a refl f meta_eq_to_obj_eq [OF tb_def] tb100 _ len sz] room 1 show ?thesis by simp
  next
    case 2
    have "unat off + unat sz \<le> DATA_BLOCK_ALLOC_SIZE * ?c"
      using 2(2) unfolding tb_def nblocks_le .
    then have "unat sz = 0" using c by (metis add_leD1 add_le_same_cancel1 le_antisym le_zero_eq times_div_less_eq_dividend)
    then show ?thesis using 2 ok by (auto simp: loop_wrote_def)
  next
    case 3
    then have u: "?c < FILE_MAX_BLOCKS" "bl ! ?c \<noteq> 0" by (auto simp: first_def split: if_splits)
    from write_loop_updated [OF ok c refl u meta_eq_to_obj_eq [OF tb_def] 3(2) tb100 _ len sz] room 3(1) show ?thesis by simp
  qed
  then obtain bl' d' where r: "write_loop occ upd ino buf off cb [?c..<tb] 0 sz bl d = Ret (SUCCESS, bl', d')"
    "ok d' (k + (tb - first))" "blocks_ok bl' (k + (tb - first))"
    "loop_wrote blk k bl d first tb (unat off) (unat sz) buf bl' d'" by blast
  from r(4) show thesis unfolding loop_wrote_def c [symmetric] by (intro that [OF r(1-3)]) auto
qed

end

end
