(* ===== verification/File_Read.thy ===== *)
theory File_Read
  imports File_IO
begin

text \<open>
  Reading a file: the loop of \<^verbatim>\<open>read_inode\<close> over any block device, and what \<^verbatim>\<open>write_inode\<close> and
  \<^verbatim>\<open>read_inode\<close> of \<^verbatim>\<open>service/inode.c\<close> do on the block table.
\<close>

context block_device
begin

lemma block_end: "n + (DATA_BLOCK_ALLOC_SIZE - n mod DATA_BLOCK_ALLOC_SIZE) =
  DATA_BLOCK_ALLOC_SIZE * Suc (n div DATA_BLOCK_ALLOC_SIZE)"
proof -
  define q r where "q = n div DATA_BLOCK_ALLOC_SIZE" and "r = n mod DATA_BLOCK_ALLOC_SIZE"
  then have "r < DATA_BLOCK_ALLOC_SIZE" "n = DATA_BLOCK_ALLOC_SIZE * q + r" by simp_all
  then show ?thesis unfolding q_def [symmetric] r_def [symmetric] by simp
qed

lemma cap_4096: "unat n \<le> 4096 \<Longrightarrow> (if n > 4096 then 4096 else n) = (n :: u32)"
  by (simp add: word_less_nat_alt)

lemma chunk_bytes:
  assumes "length (blk d (unat (bl ! (off div DATA_BLOCK_ALLOC_SIZE)) - 1)) = DATA_BLOCK_ALLOC_SIZE"
    and "off mod DATA_BLOCK_ALLOC_SIZE + w \<le> DATA_BLOCK_ALLOC_SIZE"
  shows "take w (drop (off mod DATA_BLOCK_ALLOC_SIZE) (blk d (unat (bl ! (off div DATA_BLOCK_ALLOC_SIZE)) - 1))) =
    map (byte_at blk d bl) [off..<off + w]"
proof (rule nth_equalityI)
  show "length (take w (drop (off mod DATA_BLOCK_ALLOC_SIZE) (blk d (unat (bl ! (off div DATA_BLOCK_ALLOC_SIZE)) - 1)))) =
      length (map (byte_at blk d bl) [off..<off + w])"
    using assms by simp
next
  fix i assume "i < length (take w (drop (off mod DATA_BLOCK_ALLOC_SIZE) (blk d (unat (bl ! (off div DATA_BLOCK_ALLOC_SIZE)) - 1))))"
  then have i: "i < w" by simp
  define q r where "q = off div DATA_BLOCK_ALLOC_SIZE" and "r = off mod DATA_BLOCK_ALLOC_SIZE"
  have off: "off = DATA_BLOCK_ALLOC_SIZE * q + r" by (simp add: q_def r_def)
  have ri: "r + i < DATA_BLOCK_ALLOC_SIZE" using i assms(2) by (simp add: r_def)
  define u where "u = r + i"
  have "off + i = DATA_BLOCK_ALLOC_SIZE * q + u" "u < DATA_BLOCK_ALLOC_SIZE" using off ri by (simp_all add: u_def)
  then have "(off + i) div DATA_BLOCK_ALLOC_SIZE = q" "(off + i) mod DATA_BLOCK_ALLOC_SIZE = r + i"
    unfolding u_def [symmetric] by simp_all
  with i ri assms(1) show "take w (drop (off mod DATA_BLOCK_ALLOC_SIZE) (blk d (unat (bl ! (off div DATA_BLOCK_ALLOC_SIZE)) - 1))) ! i =
      map (byte_at blk d bl) [off..<off + w] ! i"
    unfolding q_def [symmetric] r_def [symmetric] by (simp add: byte_at_def)
qed

text \<open>Reading \<open>unat n\<close> mapped bytes at offset \<open>off\<close> returns exactly the bytes of the file.\<close>

lemma read_loop_step:
  assumes n0: "n \<noteq> 0" and m: "m = (if n > 4096 - off mod 4096 then 4096 - off mod 4096 else n)"
    and cb: "unat cb < length bl"
    and rd: "rd (bl ! unat cb - 1) buf (unat co) (off mod 4096) m d = Ret (SUCCESS, buf')"
  shows "read_loop rd bl n co off cb buf d = read_loop rd bl (n - m) (co + m) (off + m) (cb + 1) buf' d"
proof -
  have "unat m \<le> 4096" unfolding m chunk_unat by simp
  then have c: "(if m > 4096 then 4096 else m) = m" by (rule cap_4096)
  have cb': "\<not> length bl \<le> unat cb" using cb by simp
  show ?thesis
    by (subst read_loop.simps)
      (simp only: m [symmetric] c Let_def obind.simps if_not_P [OF n0] if_not_P [OF cb'] rd prod.case simp_thms if_False)
qed

lemma last_chunk:
  fixes n m off cb :: u32
  assumes "unat off + unat n \<le> 409600" "unat cb = unat off div DATA_BLOCK_ALLOC_SIZE"
    and m: "unat m = min (unat n) (DATA_BLOCK_ALLOC_SIZE - unat off mod DATA_BLOCK_ALLOC_SIZE)" and "n - m \<noteq> 0"
  shows "cb + 1 = (off + m) div 4096"
proof -
  let ?r = "unat off mod DATA_BLOCK_ALLOC_SIZE" and ?q = "unat off div DATA_BLOCK_ALLOC_SIZE"
  have le: "unat m \<le> unat n" using m by simp
  then have un: "unat (n - m) = unat n - unat m" "unat (off + m) = unat off + unat m"
    using assms(1) by (simp_all add: unat_minus_u32 unat_add_u32)
  from assms(4) have "0 < unat n - unat m" unfolding un(1) [symmetric] by (simp add: unat_gt_0)
  then have "unat m = DATA_BLOCK_ALLOC_SIZE - ?r" by (simp add: m min_def split: if_splits)
  then have "unat off + unat m = DATA_BLOCK_ALLOC_SIZE * Suc ?q" using block_end [of "unat off"] by simp
  then have "unat ((off + m) div 4096) = Suc ?q" using un(2) by (simp add: unat_div)
  moreover have "unat (cb + 1) = Suc ?q"
    using assms(1,2) by (subst unat_add_u32) simp_all
  ultimately show ?thesis by (simp add: word_unat_eq_iff)
qed

text \<open>One turn of the loop copies the rest of the current block, or what is still asked for.\<close>

lemma read_chunk:
  assumes ok: "ok d k" and bl: "blocks_ok bl k" and mp: "mapped bl (unat off)" and cb: "unat cb = unat off div DATA_BLOCK_ALLOC_SIZE"
    and m: "unat m = min (unat n) (DATA_BLOCK_ALLOC_SIZE - unat off mod DATA_BLOCK_ALLOC_SIZE)"
    and len: "unat co + unat n \<le> length buf"
  shows "unat cb < length bl"
    and "rd (bl ! unat cb - 1) buf (unat co) (off mod 4096) m d =
      Ret (SUCCESS, overwrite (unat co) (map (byte_at blk d bl) [unat off..<unat off + unat m]) buf)"
proof -
  define r q where "r = unat off mod DATA_BLOCK_ALLOC_SIZE" and "q = unat off div DATA_BLOCK_ALLOC_SIZE"
  note slot = mapped_slot [OF mp bl, folded q_def]
  show "unat cb < length bl" using mp bl cb by (simp add: mapped_def blocks_ok_def)
  have s: "unat (bl ! unat cb - 1) = unat (bl ! q) - 1"
    using slot cb by (subst unat_minus_u32) (auto simp: q_def)
  have sk: "unat (bl ! unat cb - 1) < k" using s slot by simp
  have r: "unat (off mod 4096) = r" by (simp add: r_def unat_mod)
  have rm: "r + unat m \<le> DATA_BLOCK_ALLOC_SIZE" using m by (simp add: r_def)
  then have r1: "unat (off mod 4096) + unat m \<le> DATA_BLOCK_ALLOC_SIZE" unfolding r .
  have r2: "unat co + unat m \<le> length buf" using m len by simp
  have "length (blk d (unat (bl ! q) - 1)) = DATA_BLOCK_ALLOC_SIZE" using length_blk [OF ok sk] s by simp
  from rd_ok [OF ok sk r1 r2] chunk_bytes [of d bl "unat off" "unat m", folded q_def r_def, OF this rm]
  show "rd (bl ! unat cb - 1) buf (unat co) (off mod 4096) m d =
      Ret (SUCCESS, overwrite (unat co) (map (byte_at blk d bl) [unat off..<unat off + unat m]) buf)"
    unfolding s r by simp
qed

lemma read_loop_ok:
  assumes "ok d k" "blocks_ok bl k" "unat off + unat n \<le> 409600"
    and "\<And>p. unat off \<le> p \<Longrightarrow> p < unat off + unat n \<Longrightarrow> mapped bl p"
    and "unat co + unat n \<le> length buf" "unat co + unat n \<le> 409600" "n \<noteq> 0 \<Longrightarrow> cb = off div 4096"
  shows "read_loop rd bl n co off cb buf d =
    Ret (SUCCESS, overwrite (unat co) (map (byte_at blk d bl) [unat off..<unat off + unat n]) buf, off + n)"
  using assms
proof (induction "unat n" arbitrary: n co off cb buf rule: less_induct)
  case less
  let ?bs = "\<lambda>o' l. map (byte_at blk d bl) [o'..<o' + l]"
  show ?case
  proof (cases "n = 0")
    case True
    then show ?thesis by (simp add: read_loop.simps)
  next
    case False
    define m where "m = (if n > 4096 - off mod 4096 then 4096 - off mod 4096 else n)"
    have m: "unat m = min (unat n) (DATA_BLOCK_ALLOC_SIZE - unat off mod DATA_BLOCK_ALLOC_SIZE)"
      unfolding m_def by (rule chunk_unat)
    have n0: "0 < unat n" using False by (simp add: unat_gt_0)
    have mn: "0 < unat m" "unat m \<le> unat n" using m n0 by simp_all
    have cb: "unat cb = unat off div DATA_BLOCK_ALLOC_SIZE" using less.prems(7) False by (simp add: unat_div)
    have mp: "mapped bl (unat off)" using less.prems(4) n0 by simp
    note chunk = read_chunk [OF less.prems(1,2) mp cb m less.prems(5)]
    let ?buf = "overwrite (unat co) (?bs (unat off) (unat m)) buf"
    note step = read_loop_step [OF False m_def chunk]
    have un: "unat (n - m) = unat n - unat m" "unat (co + m) = unat co + unat m" "unat (off + m) = unat off + unat m"
      using mn less.prems(3,6) by (simp_all add: unat_minus_u32 unat_add_u32)
    have A: "unat (n - m) < unat n" "unat (off + m) + unat (n - m) \<le> 409600"
      "unat (co + m) + unat (n - m) \<le> length ?buf" "unat (co + m) + unat (n - m) \<le> 409600"
      using un mn less.prems(3,5,6) by simp_all
    have B: "mapped bl p" if "unat (off + m) \<le> p" "p < unat (off + m) + unat (n - m)" for p
      using less.prems(4) [of p] that un mn by linarith
    have C: "read_loop rd bl (n - m) (co + m) (off + m) (cb + 1) ?buf d =
      Ret (SUCCESS, overwrite (unat (co + m)) (?bs (unat (off + m)) (unat (n - m))) ?buf, off + m + (n - m))"
      by (rule less.hyps [OF A(1) less.prems(1,2) A(2) B A(3,4) last_chunk [OF less.prems(3) cb m]])
    have "?bs (unat off) (unat m) @ ?bs (unat off + unat m) (unat n - unat m) = ?bs (unat off) (unat n)"
      unfolding map_append [symmetric]
      using mn upt_add_eq_append [of "unat off" "unat off + unat m" "unat n - unat m"] by simp
    then have D: "overwrite (unat co + unat m) (?bs (unat off + unat m) (unat n - unat m)) ?buf =
        overwrite (unat co) (?bs (unat off) (unat n)) buf"
      using overwrite_overwrite_adjacent [of "unat co" "?bs (unat off) (unat m)" "?bs (unat off + unat m) (unat n - unat m)" buf]
        less.prems(5) mn by simp
    show ?thesis unfolding step C un D by simp
  qed
qed

end

subsection \<open>\<^verbatim>\<open>write_inode\<close> and \<^verbatim>\<open>read_inode\<close> on the block table\<close>

text \<open>
  \<open>first_fresh bl off\<close>: the first block number a write at offset \<open>off\<close> allocates. The block of the
  offset itself is kept when it exists; all later ones are allocated again, whether they exist or
  not. \<open>writable ino off sz k\<close>: what a write needs in order to succeed on a disk with \<open>k\<close> used slots.
\<close>

definition first_fresh :: "u32 list \<Rightarrow> nat \<Rightarrow> nat" where
  "first_fresh bl off = (let c = off div DATA_BLOCK_ALLOC_SIZE
     in if c < FILE_MAX_BLOCKS \<and> bl ! c \<noteq> 0 then Suc c else c)"

definition writable :: "inode_t \<Rightarrow> u32 \<Rightarrow> u32 \<Rightarrow> nat \<Rightarrow> bool" where
  "writable ino off sz k \<longleftrightarrow> unat off + unat sz \<le> 409600 \<and>
     (mapped (data_blocks ino) (unat off) \<or> unat off mod DATA_BLOCK_ALLOC_SIZE = 0) \<and>
     k + (nblocks (unat off + unat sz) - first_fresh (data_blocks ino) (unat off)) \<le> NUM_OF_DATA_BLOCKS"

abbreviation file_byte :: "disk \<Rightarrow> u32 list \<Rightarrow> nat \<Rightarrow> byte" where
  "file_byte \<equiv> byte_at block_at"

lemma write_inode_ok:
  assumes ok: "disk_ok d k" "blocks_ok (data_blocks ino) k" and w: "writable ino off sz k"
    and len: "unat sz \<le> length buf"
  defines "first \<equiv> first_fresh (data_blocks ino) (unat off)" and "tb \<equiv> nblocks (unat off + unat sz)"
  obtains bl' d' where
    "write_inode ino buf off sz d = Ret (SUCCESS,
       ino\<lparr>data_blocks := bl', stat := (stat ino)\<lparr>st_size := ucast (off + sz)\<rparr>\<rparr>, off + sz, d')"
    "disk_ok d' (k + (tb - first))" "blocks_ok bl' (k + (tb - first))"
    "\<And>i. i < first \<or> tb \<le> i \<Longrightarrow> bl' ! i = data_blocks ino ! i"
    "\<And>i. first \<le> i \<Longrightarrow> i < tb \<Longrightarrow> k < unat (bl' ! i)"
    "\<And>b. b < k \<Longrightarrow> \<not> mapped (data_blocks ino) (unat off) \<or>
       b \<noteq> unat (data_blocks ino ! (unat off div DATA_BLOCK_ALLOC_SIZE)) - 1 \<Longrightarrow> block_at d' b = block_at d b"
    "\<And>p. unat off \<le> p \<Longrightarrow> p < unat off + unat sz \<Longrightarrow> file_byte d' bl' p = buf ! (p - unat off)"
    "\<And>p. mapped (data_blocks ino) p \<Longrightarrow> p < unat off \<or> DATA_BLOCK_ALLOC_SIZE * tb \<le> p \<Longrightarrow>
       file_byte d' bl' p = file_byte d (data_blocks ino) p"
proof -
  let ?bl = "data_blocks ino" and ?cb = "off div 4096"
  have bound: "unat off + unat sz \<le> 409600" using w by (simp add: writable_def)
  have cb: "unat ?cb = unat off div DATA_BLOCK_ALLOC_SIZE" by (simp add: unat_div)
  have f: "first = (if unat ?cb < FILE_MAX_BLOCKS \<and> ?bl ! unat ?cb \<noteq> 0 then Suc (unat ?cb) else unat ?cb)"
    by (simp add: first_def first_fresh_def cb Let_def)
  have m: "mapped ?bl (unat off) \<longleftrightarrow> first \<noteq> unat ?cb" by (simp add: f mapped_def cb)
  have new: "unat (off + sz) = unat off + unat sz" using bound by (intro unat_add_u32) simp
  then have le: "\<not> off + sz > 4096 * 100" using bound by (simp add: word_less_nat_alt)
  have tb: "unat (total_blocks (off + sz)) = tb" by (simp add: unat_total_blocks new tb_def)
  show thesis
  proof (rule blocks.write_loop_ok [where off = off and sz = sz and bl = ?bl and ino = "index ino" and buf = buf,
        folded tb_def f, OF ok bound _ _ len])
    show "first = unat ?cb \<Longrightarrow> unat off mod DATA_BLOCK_ALLOC_SIZE = 0"
      using w m by (auto simp: writable_def)
    show "k + (tb - first) \<le> NUM_OF_DATA_BLOCKS"
      using w by (simp add: writable_def first_def tb_def)
  next
    fix bl' d'
    assume A: "write_loop occupy_block_table_slot update_block_table_slot (index ino) buf off ?cb
        [unat ?cb..<tb] 0 sz ?bl d = Ret (SUCCESS, bl', d')"
      "disk_ok d' (k + (tb - first))" "blocks_ok bl' (k + (tb - first))"
      "\<And>i. i < first \<or> tb \<le> i \<Longrightarrow> bl' ! i = ?bl ! i"
      "\<And>i. first \<le> i \<Longrightarrow> i < tb \<Longrightarrow> k < unat (bl' ! i)"
      "\<And>b. b < k \<Longrightarrow> first = unat ?cb \<or> b \<noteq> unat (?bl ! unat ?cb) - 1 \<Longrightarrow> block_at d' b = block_at d b"
      "\<And>p. unat off \<le> p \<Longrightarrow> p < unat off + unat sz \<Longrightarrow> file_byte d' bl' p = buf ! (p - unat off)"
      "\<And>p. mapped ?bl p \<Longrightarrow> p < unat off \<or> DATA_BLOCK_ALLOC_SIZE * tb \<le> p \<Longrightarrow>
         file_byte d' bl' p = file_byte d ?bl p"
    show thesis
    proof (rule that [OF _ A(2-5)])
      show "write_inode ino buf off sz d = Ret (SUCCESS,
          ino\<lparr>data_blocks := bl', stat := (stat ino)\<lparr>st_size := ucast (off + sz)\<rparr>\<rparr>, off + sz, d')"
        using le A(1) by (simp add: write_inode_def Let_def tb)
    qed (use A(6-8) m cb in auto)
  qed
qed

lemma read_inode_ok:
  assumes ok: "disk_ok d k" "blocks_ok (data_blocks ino) k" and bound: "unat off + unat sz \<le> 409600"
    and "\<And>p. unat off \<le> p \<Longrightarrow> p < unat off + unat sz \<Longrightarrow> mapped (data_blocks ino) p"
    and len: "unat sz \<le> length buf"
  shows "read_inode ino buf off sz d = Ret (SUCCESS,
    overwrite 0 (map (file_byte d (data_blocks ino)) [unat off..<unat off + unat sz]) buf, off + sz)"
proof -
  have "unat (off + sz) = unat off + unat sz" using bound by (intro unat_add_u32) simp
  then have "\<not> off + sz > 4096 * 100" using bound by (simp add: word_less_nat_alt)
  then have "read_inode ino buf off sz d =
      read_loop read_block_table_slot (data_blocks ino) sz 0 off (off div 4096) buf d"
    by (simp add: read_inode_def)
  also have "\<dots> = Ret (SUCCESS,
      overwrite (unat (0::u32)) (map (file_byte d (data_blocks ino)) [unat off..<unat off + unat sz]) buf, off + sz)"
    using assms by (intro blocks.read_loop_ok) auto
  finally show ?thesis by simp
qed

lemma written_mapped:
  assumes "writable ino off sz k"
    and "\<And>i. i < first_fresh (data_blocks ino) (unat off) \<Longrightarrow> bl' ! i = data_blocks ino ! i"
    and "\<And>i. first_fresh (data_blocks ino) (unat off) \<le> i \<Longrightarrow> i < nblocks (unat off + unat sz) \<Longrightarrow> k < unat (bl' ! i)"
    and p: "unat off \<le> p" "p < unat off + unat sz"
  shows "mapped bl' p"
proof -
  define i c where "i = p div DATA_BLOCK_ALLOC_SIZE" and "c = unat off div DATA_BLOCK_ALLOC_SIZE"
  have bound: "unat off + unat sz \<le> 409600" using assms(1) by (simp add: writable_def)
  have i: "c \<le> i" "i < FILE_MAX_BLOCKS" using p bound unfolding i_def c_def by (auto simp: div_le_mono)
  have tb: "i < nblocks (unat off + unat sz)"
    using p(2) nblocks_bounds(1) [of "unat off + unat sz"] unfolding i_def by linarith
  have "bl' ! i \<noteq> 0"
  proof (cases "i < first_fresh (data_blocks ino) (unat off)")
    case True
    with i(1) have "i = c" "data_blocks ino ! c \<noteq> 0"
      by (auto simp: first_fresh_def Let_def c_def split: if_splits)
    with assms(2) [OF True] show ?thesis by simp
  next
    case False
    then have "k < unat (bl' ! i)" using assms(3) [of i] tb by simp
    then show ?thesis by auto
  qed
  with i show ?thesis by (simp add: mapped_def i_def)
qed

text \<open>A disk with an empty block table, as the service finds it on its first start.\<close>

definition blank_disk :: "string \<Rightarrow> disk" where
  "blank_disk dir = \<lparr>data_block_table = replicate NUM_OF_DATA_BLOCKS \<lparr>allocated = False, inode_index = 0\<rparr>,
     host = \<lparr>pw_dir = Some dir, can_open = (\<lambda>_. True), files = Map.empty\<rparr>\<rparr>"

lemma blank_disk_ok [simp]: "disk_ok (blank_disk dir) 0"
  by (simp add: disk_ok_def blank_disk_def data_bytes_def contents_def)

definition blank_inode :: inode_t where
  "blank_inode = new_inode 0 F_REGULAR 0 0 1 0 0 \<lparr>tv_sec = 0, tv_nsec = 0\<rparr> \<lparr>tv_sec = 0, tv_nsec = 0\<rparr>
     \<lparr>tv_sec = 0, tv_nsec = 0\<rparr>"

lemma blank_inode_blocks [simp]: "data_blocks blank_inode = no_blocks"
  by (simp add: blank_inode_def new_inode_def)

lemma blank_writable [simp]: "unat sz \<le> 409600 \<Longrightarrow> writable blank_inode 0 sz 0"
proof -
  assume "unat sz \<le> 409600"
  moreover from this have "nblocks (unat sz) \<le> FILE_MAX_BLOCKS" by (simp add: nblocks_le)
  ultimately show ?thesis
    by (auto simp: writable_def first_fresh_def no_blocks_def NUM_OF_DATA_BLOCKS_def Let_def)
qed

subsection \<open>Properties\<close>

lemma write_read_inode:
  assumes "disk_ok d k" and "blocks_ok (data_blocks ino) k" and "writable ino off sz k"
    and "unat sz \<le> length buf" and "unat sz \<le> length out"
  shows "\<exists>ino' d'. write_inode ino buf off sz d = Ret (SUCCESS, ino', off + sz, d') \<and>
    st_size (stat ino') = ucast (off + sz) \<and>
    read_inode ino' out off sz d' = Ret (SUCCESS, overwrite 0 (take (unat sz) buf) out, off + sz)"
proof (rule write_inode_ok [OF assms(1-4)])
  fix bl' d'
  let ?ino = "ino\<lparr>data_blocks := bl', stat := (stat ino)\<lparr>st_size := ucast (off + sz)\<rparr>\<rparr>"
  assume W: "write_inode ino buf off sz d = Ret (SUCCESS, ?ino, off + sz, d')"
    and D: "disk_ok d' (k + (nblocks (unat off + unat sz) - first_fresh (data_blocks ino) (unat off)))"
      "blocks_ok bl' (k + (nblocks (unat off + unat sz) - first_fresh (data_blocks ino) (unat off)))"
    and B: "\<And>i. i < first_fresh (data_blocks ino) (unat off) \<or> nblocks (unat off + unat sz) \<le> i \<Longrightarrow>
        bl' ! i = data_blocks ino ! i"
      "\<And>i. first_fresh (data_blocks ino) (unat off) \<le> i \<Longrightarrow> i < nblocks (unat off + unat sz) \<Longrightarrow> k < unat (bl' ! i)"
    and N: "\<And>p. unat off \<le> p \<Longrightarrow> p < unat off + unat sz \<Longrightarrow> file_byte d' bl' p = buf ! (p - unat off)"
  have "map (file_byte d' bl') [unat off..<unat off + unat sz] = take (unat sz) buf"
    using assms(4) N by (intro nth_equalityI) simp_all
  moreover have "read_inode ?ino out off sz d' = Ret (SUCCESS,
      overwrite 0 (map (file_byte d' (data_blocks ?ino)) [unat off..<unat off + unat sz]) out, off + sz)"
    using D assms(3,5) B written_mapped [OF assms(3), of bl']
    by (intro read_inode_ok) (auto simp: writable_def)
  ultimately show ?thesis using W by auto
qed

text \<open> C12. A successful write followed by a read of the same range gives the bytes written: on a disk
  that is used as a prefix of the data file (no block was freed yet), \<^verbatim>\<open>write_inode\<close> succeeds whenever
  the range fits in the file and the free slots suffice, advances the offset and sets the size, and
  \<^verbatim>\<open>read_inode\<close> from the old offset fills the caller's buffer with the first \<open>sz\<close> bytes of \<open>buf\<close>. \<close>

theorem write_then_read:
  assumes "disk_ok d k" and "blocks_ok (data_blocks ino) k" and "writable ino off sz k"
    and "unat sz \<le> length buf" and "unat sz \<le> length out"
  shows "\<exists>ino' d'. write_inode ino buf off sz d = Ret (SUCCESS, ino', off + sz, d') \<and>
    st_size (stat ino') = ucast (off + sz) \<and>
    read_inode ino' out off sz d' = Ret (SUCCESS, overwrite 0 (take (unat sz) buf) out, off + sz)"
  by (rule write_read_inode [OF assms])

theorem write_then_read_witness:
  "\<exists>ino' d'. write_inode blank_inode [1, 2, 3] 0 3 (blank_disk ''/root'') = Ret (SUCCESS, ino', 3, d') \<and>
    st_size (stat ino') = 3 \<and> read_inode ino' [0, 0, 0, 0] 0 3 d' = Ret (SUCCESS, [1, 2, 3, 0], 3)"
  using write_then_read [of "blank_disk ''/root''" 0 blank_inode 0 3 "[1, 2, 3]" "[0, 0, 0, 0]"]
  by (simp add: blocks_ok_no_blocks overwrite_def)

text \<open>Two block arrays share no slot.\<close>

definition disjoint_blocks :: "u32 list \<Rightarrow> u32 list \<Rightarrow> bool" where
  "disjoint_blocks bl bl' \<longleftrightarrow> (\<forall>i<FILE_MAX_BLOCKS. \<forall>j<FILE_MAX_BLOCKS. bl ! i \<noteq> 0 \<longrightarrow> bl ! i \<noteq> bl' ! j)"

text \<open>The frame of a write: when \<^verbatim>\<open>write_inode\<close> succeeds, the bytes of the file before the offset
  are unchanged, and every other file, that is every block array that shares no slot with the
  file's, keeps all its bytes and still shares no slot with it. \<close>

theorem write_frame:
  assumes "disk_ok d k" and "blocks_ok (data_blocks ino) k" and "writable ino off sz k"
    and "unat sz \<le> length buf"
  shows "\<exists>ino' d'. write_inode ino buf off sz d = Ret (SUCCESS, ino', off + sz, d') \<and>
    (\<forall>p. mapped (data_blocks ino) p \<and> p < unat off \<longrightarrow>
       file_byte d' (data_blocks ino') p = file_byte d (data_blocks ino) p) \<and>
    (\<forall>other. blocks_ok other k \<and> disjoint_blocks other (data_blocks ino) \<longrightarrow>
       disjoint_blocks other (data_blocks ino') \<and>
       (\<forall>p. mapped other p \<longrightarrow> file_byte d' other p = file_byte d other p))"
proof (rule write_inode_ok [OF assms])
  fix bl' d'
  let ?ino = "ino\<lparr>data_blocks := bl', stat := (stat ino)\<lparr>st_size := ucast (off + sz)\<rparr>\<rparr>"
  let ?f = "first_fresh (data_blocks ino) (unat off)" and ?tb = "nblocks (unat off + unat sz)"
  assume W: "write_inode ino buf off sz d = Ret (SUCCESS, ?ino, off + sz, d')"
    and B: "\<And>i. i < ?f \<or> ?tb \<le> i \<Longrightarrow> bl' ! i = data_blocks ino ! i"
      "\<And>i. ?f \<le> i \<Longrightarrow> i < ?tb \<Longrightarrow> k < unat (bl' ! i)"
    and O: "\<And>b. b < k \<Longrightarrow> \<not> mapped (data_blocks ino) (unat off) \<or>
       b \<noteq> unat (data_blocks ino ! (unat off div DATA_BLOCK_ALLOC_SIZE)) - 1 \<Longrightarrow> block_at d' b = block_at d b"
    and F: "\<And>p. mapped (data_blocks ino) p \<Longrightarrow> p < unat off \<or> DATA_BLOCK_ALLOC_SIZE * ?tb \<le> p \<Longrightarrow>
       file_byte d' bl' p = file_byte d (data_blocks ino) p"
  have "disjoint_blocks other bl' \<and> (\<forall>p. mapped other p \<longrightarrow> file_byte d' other p = file_byte d other p)"
    if oth: "blocks_ok other k" "disjoint_blocks other (data_blocks ino)" for other
  proof
    have "other ! i \<noteq> bl' ! j" if "i < FILE_MAX_BLOCKS" "j < FILE_MAX_BLOCKS" "other ! i \<noteq> 0" for i j
    proof (cases "j < ?f \<or> ?tb \<le> j")
      case True
      with B(1) that oth(2) show ?thesis by (simp add: disjoint_blocks_def)
    next
      case False
      with B(2) have "k < unat (bl' ! j)" by simp
      moreover have "unat (other ! i) \<le> k" using oth(1) that(1) by (simp add: blocks_ok_def)
      ultimately show ?thesis by auto
    qed
    then show "disjoint_blocks other bl'" by (simp add: disjoint_blocks_def)
    show "\<forall>p. mapped other p \<longrightarrow> file_byte d' other p = file_byte d other p"
    proof (intro allI impI)
      fix p assume p: "mapped other p"
      let ?s = "other ! (p div DATA_BLOCK_ALLOC_SIZE)" and ?c = "data_blocks ino ! (unat off div DATA_BLOCK_ALLOC_SIZE)"
      note sk = mapped_slot [OF p oth(1)]
      have "unat ?s - 1 \<noteq> unat ?c - 1" if m: "mapped (data_blocks ino) (unat off)"
      proof -
        have "?s \<noteq> ?c" using oth(2) p m by (simp add: disjoint_blocks_def mapped_def)
        then have "unat ?s \<noteq> unat ?c" by (metis word_unat_eq_iff)
        with sk mapped_slot [OF m assms(2)] show ?thesis by linarith
      qed
      with O [of "unat ?s - 1"] sk show "file_byte d' other p = file_byte d other p"
        by (auto simp: byte_at_def)
    qed
  qed
  with W F show ?thesis by auto
qed

theorem write_frame_witness:
  "\<exists>ino' d'. write_inode blank_inode [1, 2, 3] 0 3 (blank_disk ''/root'') = Ret (SUCCESS, ino', 3, d') \<and>
    disjoint_blocks no_blocks (data_blocks ino')"
proof -
  have "disjoint_blocks no_blocks no_blocks" by (simp add: disjoint_blocks_def no_blocks_def)
  with write_frame [of "blank_disk ''/root''" 0 blank_inode 0 3 "[1, 2, 3]"] show ?thesis
    by (auto simp: blocks_ok_no_blocks)
qed

text \<open> C35. Overwriting leaks slots: every block of the written range after the first one is allocated
  afresh even when it exists. Its old slot stays allocated in the block table although the file
  does not refer to it any more. \<close>

theorem overwrite_leaks:
  assumes "disk_ok d k" and "blocks_ok (data_blocks ino) k" and "writable ino off sz k"
    and "unat sz \<le> length buf"
    and i: "unat off div DATA_BLOCK_ALLOC_SIZE < i" "i < nblocks (unat off + unat sz)" "data_blocks ino ! i \<noteq> 0"
  shows "\<exists>ino' d'. write_inode ino buf off sz d = Ret (SUCCESS, ino', off + sz, d') \<and>
    allocated (data_block_table d' ! (unat (data_blocks ino ! i) - 1)) \<and>
    (\<forall>j<FILE_MAX_BLOCKS. data_blocks ino' ! j \<noteq> data_blocks ino ! i)"
proof (rule write_inode_ok [OF assms(1-4)])
  fix bl' d'
  let ?ino = "ino\<lparr>data_blocks := bl', stat := (stat ino)\<lparr>st_size := ucast (off + sz)\<rparr>\<rparr>"
  let ?f = "first_fresh (data_blocks ino) (unat off)" and ?tb = "nblocks (unat off + unat sz)"
  assume W: "write_inode ino buf off sz d = Ret (SUCCESS, ?ino, off + sz, d')"
    and D: "disk_ok d' (k + (?tb - ?f))"
    and B: "\<And>i. i < ?f \<or> ?tb \<le> i \<Longrightarrow> bl' ! i = data_blocks ino ! i"
      "\<And>i. ?f \<le> i \<Longrightarrow> i < ?tb \<Longrightarrow> k < unat (bl' ! i)"
  have "?tb \<le> FILE_MAX_BLOCKS" using assms(3) by (simp add: writable_def nblocks_le)
  with i(2) have i100: "i < FILE_MAX_BLOCKS" by simp
  have fi: "?f \<le> i" using i(1) by (simp add: first_fresh_def Let_def)
  have s: "0 < unat (data_blocks ino ! i)" "unat (data_blocks ino ! i) \<le> k"
    using i(3) i100 assms(2) by (simp_all add: unat_gt_0 blocks_ok_def)
  then have "allocated (data_block_table d' ! (unat (data_blocks ino ! i) - 1))"
    using D unfolding disk_ok_def by auto
  moreover have "bl' ! j \<noteq> data_blocks ino ! i" if j: "j < FILE_MAX_BLOCKS" for j
  proof (cases "j < ?f \<or> ?tb \<le> j")
    case True
    with fi i(2) have "j \<noteq> i" by auto
    then have "data_blocks ino ! i \<noteq> data_blocks ino ! j"
      using assms(2) i(3) i100 j unfolding blocks_ok_def by metis
    with True B(1) show ?thesis by simp
  next
    case False
    with B(2) have "k < unat (bl' ! j)" by simp
    with s(2) show ?thesis by auto
  qed
  ultimately show ?thesis using W by auto
qed

text \<open>A two-block file on a disk whose first two slots hold it.\<close>

definition two_block_inode :: inode_t where
  "two_block_inode = blank_inode\<lparr>data_blocks := [1, 2] @ replicate 98 0\<rparr>"

definition two_block_disk :: "string \<Rightarrow> disk" where
  "two_block_disk dir = (blank_disk dir)
     \<lparr>data_block_table := replicate 2 \<lparr>allocated = True, inode_index = 0\<rparr> @
        replicate 998 \<lparr>allocated = False, inode_index = 0\<rparr>,
      host := (host (blank_disk dir))\<lparr>files := [dir @ ''/libfs/data'' \<mapsto> replicate 8192 0]\<rparr>\<rparr>"

lemma two_block_ok:
  "disk_ok (two_block_disk dir) 2" "blocks_ok (data_blocks two_block_inode) 2"
  by (auto simp: disk_ok_def two_block_disk_def blank_disk_def data_bytes_def contents_def data_path_def
      NUM_OF_DATA_BLOCKS_def nth_append blocks_ok_def two_block_inode_def nth_Cons' split: if_splits)

lemma two_block_writable: "writable two_block_inode 0 5000 2"
proof -
  have "nblocks 5000 = 2" by (simp add: nblocks_def)
  then show ?thesis
    by (simp add: writable_def mapped_def two_block_inode_def first_fresh_def NUM_OF_DATA_BLOCKS_def)
qed

theorem overwrite_leaks_witness:
  "\<exists>ino' d'. write_inode two_block_inode (replicate 5000 7) 0 5000 (two_block_disk ''/root'') =
      Ret (SUCCESS, ino', 5000, d') \<and> allocated (data_block_table d' ! 1) \<and>
    (\<forall>j<FILE_MAX_BLOCKS. data_blocks ino' ! j \<noteq> 2)"
  using overwrite_leaks [OF two_block_ok two_block_writable, of "replicate 5000 7" 1]
  by (simp add: nblocks_def two_block_inode_def)

lemma wrapped_sum:
  assumes "2 ^ 32 \<le> unat off + unat (sz :: u32)" "unat off div DATA_BLOCK_ALLOC_SIZE < nblocks (unat (off + sz))"
  shows "unat (off + sz) div DATA_BLOCK_ALLOC_SIZE = unat off div DATA_BLOCK_ALLOC_SIZE"
proof -
  have "unat (off + sz) \<le> unat off"
    using assms(1) unat_lt_u32 [of off] unat_lt_u32 [of sz] by (auto simp: unat_word_ariths mod_if)
  then have "unat (off + sz) div DATA_BLOCK_ALLOC_SIZE \<le> unat off div DATA_BLOCK_ALLOC_SIZE" by (rule div_le_mono)
  moreover have "nblocks (unat (off + sz)) \<le> Suc (unat (off + sz) div DATA_BLOCK_ALLOC_SIZE)"
    using div_le_mono [of "unat (off + sz) + 4095" "unat (off + sz) + 4096" 4096] by (simp add: nblocks_def)
  ultimately show ?thesis using assms(2) by linarith
qed

text \<open> C36. The size check of \<^verbatim>\<open>write_inode\<close> is done in 32 bits. When \<open>offset + size\<close> wraps around, the wrapped sum decides:
  if it is larger than the largest file, the write fails and changes nothing; if it is not, and all the blocks up to
  it lie before the block of the offset, the write reports success, sets the file size and the offset to the wrapped
  sum and stores nothing. In the case that is left the wrapped sum lies in the block of the offset
  (\<open>wrapped_sum\<close>), and the loop is entered; of this case nothing is said. \<close>

theorem write_wraps_around:
  assumes "2 ^ 32 \<le> unat off + unat sz"
  shows "(409600 < unat (off + sz) \<longrightarrow> write_inode ino buf off sz d = Ret (FAILURE, ino, off, d)) \<and>
    (unat (off + sz) \<le> 409600 \<and> nblocks (unat (off + sz)) \<le> unat off div DATA_BLOCK_ALLOC_SIZE \<longrightarrow>
      write_inode ino buf off sz d = Ret (SUCCESS, ino\<lparr>stat := (stat ino)\<lparr>st_size := ucast (off + sz)\<rparr>\<rparr>, off + sz, d))"
proof (intro conjI impI; (elim conjE)?)
  assume "409600 < unat (off + sz)"
  then have "off + sz > 4096 * 100" by (simp add: word_less_nat_alt)
  then show "write_inode ino buf off sz d = Ret (FAILURE, ino, off, d)" by (simp add: write_inode_def Let_def)
next
  assume le: "unat (off + sz) \<le> 409600" and nb: "nblocks (unat (off + sz)) \<le> unat off div DATA_BLOCK_ALLOC_SIZE"
  have "\<not> off + sz > 4096 * 100" using le by (simp add: word_less_nat_alt)
  moreover have "[unat (off div 4096)..<unat (total_blocks (off + sz))] = []"
    using nb by (simp add: unat_total_blocks unat_div)
  ultimately show "write_inode ino buf off sz d =
      Ret (SUCCESS, ino\<lparr>stat := (stat ino)\<lparr>st_size := ucast (off + sz)\<rparr>\<rparr>, off + sz, d)"
    unfolding write_inode_def Let_def by (simp only: write_loop.simps) simp
qed

theorem write_wraps_around_witness:
  "write_inode blank_inode [1, 2, 3] 4096 (-4096) (blank_disk ''/root'') =
      Ret (SUCCESS, blank_inode\<lparr>stat := (stat blank_inode)\<lparr>st_size := 0\<rparr>\<rparr>, 0, blank_disk ''/root'') \<and>
    write_inode blank_inode [1, 2, 3] 2147483648 2415919104 (blank_disk ''/root'') =
      Ret (FAILURE, blank_inode, 2147483648, blank_disk ''/root'')"
  using write_wraps_around [of 4096 "-4096" blank_inode "[1, 2, 3]" "blank_disk ''/root''"]
    write_wraps_around [of 2147483648 2415919104 blank_inode "[1, 2, 3]" "blank_disk ''/root''"] by simp

text \<open>A write or a read whose end lies beyond the largest file (100 blocks, without wrapping) fails
  and changes nothing: not the disk, not the inode, not the buffer, not the offset. \<close>

theorem beyond_limit_fails:
  assumes "409600 < unat off + unat sz" and "unat off + unat sz < 2 ^ 32"
  shows "write_inode ino buf off sz d = Ret (FAILURE, ino, off, d) \<and>
    read_inode ino out off sz d = Ret (FAILURE, out, off)"
proof -
  have "unat (off + sz) = unat off + unat sz" using assms(2) by (intro unat_add_u32) simp
  with assms(1) have "off + sz > 4096 * 100" by (simp add: word_less_nat_alt)
  then show ?thesis by (simp add: write_inode_def read_inode_def Let_def)
qed

theorem beyond_limit_fails_witness:
  "write_inode blank_inode [] 409600 1 (blank_disk ''/'') = Ret (FAILURE, blank_inode, 409600, blank_disk ''/'') \<and>
    read_inode blank_inode [] 409600 1 (blank_disk ''/'') = Ret (FAILURE, [], 409600)"
  by (rule beyond_limit_fails) simp_all

text \<open>Reading at an offset whose block was never allocated fails and leaves buffer and offset as
  they are: the stored block number 0 becomes slot \<open>2 ^ 32 - 1\<close>, which the slot check refuses. \<close>

theorem read_unallocated_fails:
  assumes "length (data_blocks ino) = FILE_MAX_BLOCKS" and "sz \<noteq> 0" and "unat off + unat sz \<le> 409600"
    and "\<not> mapped (data_blocks ino) (unat off)"
  shows "read_inode ino buf off sz d = Ret (FAILURE, buf, off)"
proof -
  have "unat (off + sz) = unat off + unat sz" using assms(3) by (intro unat_add_u32) simp
  then have le: "\<not> off + sz > 4096 * 100" using assms(3) by (simp add: word_less_nat_alt)
  have "0 < unat sz" using assms(2) by (simp add: unat_gt_0)
  then have c: "unat off div DATA_BLOCK_ALLOC_SIZE < FILE_MAX_BLOCKS" using assms(3) by (simp add: less_mult_imp_div_less)
  then have z: "data_blocks ino ! unat (off div 4096) = 0" using assms(4) by (simp add: mapped_def unat_div)
  have "NUM_OF_DATA_BLOCKS < unat (-1 :: u32)"
    by (simp add: NUM_OF_DATA_BLOCKS_def unsigned_minus_1_eq_mask mask_eq_exp_minus_1)
  with c z assms(1,2) le show ?thesis
    by (simp add: read_inode_def read_loop.simps [of read_block_table_slot _ sz] Let_def unat_div
        read_block_table_slot_def)
qed

theorem read_unallocated_fails_witness:
  "read_inode blank_inode [9] 0 1 (blank_disk ''/'') = Ret (FAILURE, [9], 0)"
  by (rule read_unallocated_fails) (simp_all add: no_blocks_def mapped_def)

text \<open>On a full disk a write that needs a new block fails and stores nothing. \<close>

theorem full_disk_write_fails:
  assumes "disk_ok d NUM_OF_DATA_BLOCKS" and "length (data_blocks ino) = FILE_MAX_BLOCKS"
    and "sz \<noteq> 0" and "unat off + unat sz \<le> 409600" and "unat sz \<le> length buf"
    and "\<not> mapped (data_blocks ino) (unat off)"
  shows "write_inode ino buf off sz d = Ret (FAILURE, ino, off, d)"
proof -
  have n: "unat (off + sz) = unat off + unat sz" using assms(4) by (intro unat_add_u32) simp
  then have le: "\<not> off + sz > 4096 * 100" using assms(4) by (simp add: word_less_nat_alt)
  have sz: "0 < unat sz" using assms(3) by (simp add: unat_gt_0)
  let ?c = "unat off div DATA_BLOCK_ALLOC_SIZE"
  have c: "?c < FILE_MAX_BLOCKS" using sz assms(4) by (simp add: less_mult_imp_div_less)
  have "unat off < DATA_BLOCK_ALLOC_SIZE * nblocks (unat off + unat sz)"
    using nblocks_bounds(1) [of "unat off + unat sz"] sz by linarith
  then have "?c < nblocks (unat off + unat sz)" by linarith
  then have up: "[unat (off div 4096)..<unat (total_blocks (off + sz))] =
      ?c # [Suc ?c..<nblocks (unat off + unat sz)]"
    by (simp add: unat_total_blocks n unat_div upt_conv_Cons del: upt_Suc)
  have "unat (if sz > 4096 then 4096 else sz) \<le> length buf" using assms(5) by (auto simp: word_less_nat_alt)
  with c assms(2,6) have "write_loop occupy_block_table_slot update_block_table_slot (index ino) buf off
      (off div 4096) (?c # [Suc ?c..<nblocks (unat off + unat sz)]) 0 sz (data_blocks ino) d =
      Ret (FAILURE, data_blocks ino, d)"
    by (simp add: Let_def unat_div mapped_def blocks.occ_full [OF assms(1)] not_less)
  then show ?thesis using le unfolding write_inode_def Let_def up by simp
qed

definition full_disk :: "string \<Rightarrow> disk" where
  "full_disk dir = (blank_disk dir)
     \<lparr>data_block_table := replicate NUM_OF_DATA_BLOCKS \<lparr>allocated = True, inode_index = 0\<rparr>,
      host := (host (blank_disk dir))
        \<lparr>files := [dir @ ''/libfs/data'' \<mapsto> replicate (DATA_BLOCK_ALLOC_SIZE * NUM_OF_DATA_BLOCKS) 0]\<rparr>\<rparr>"

lemma full_disk_ok: "disk_ok (full_disk dir) NUM_OF_DATA_BLOCKS"
  by (auto simp: disk_ok_def full_disk_def blank_disk_def data_bytes_def contents_def data_path_def)

theorem full_disk_write_fails_witness:
  "write_inode blank_inode [1, 2, 3] 0 3 (full_disk ''/root'') = Ret (FAILURE, blank_inode, 0, full_disk ''/root'')"
  by (rule full_disk_write_fails [OF full_disk_ok]) (simp_all add: no_blocks_def mapped_def)

end
