(* ===== verification/Filename_Table.thy ===== *)
theory Filename_Table
  imports Linked_List Common
begin

text \<open>
  The name table of \<^verbatim>\<open>service/inode.c\<close>: a linked list of \<^verbatim>\<open>struct filename_inode_t\<close>, searched by
  \<^verbatim>\<open>strcmp\<close>. A C string is the list of its bytes without the terminating NUL; \<^verbatim>\<open>strcpy\<close> into the
  \<open>MAX_FILENAME_LEN\<close> byte field is undefined for a longer string.
\<close>

record filename_inode_t = node +
  node_index :: u32
  filename :: "byte list"

type_synonym filename_table_t = "unit filename_inode_t_ext table"

abbreviation name_entry :: "byte list \<Rightarrow> u32 \<Rightarrow> filename_inode_t" where
  "name_entry name i \<equiv> \<lparr>nxt = None, prv = None, node_index = i, filename = name\<rparr>"

definition check_if_filename_taken :: "filename_table_t \<Rightarrow> byte list \<Rightarrow> bool outcome" where
  "check_if_filename_taken t name =
     obind (find_node (\<lambda>n. filename n = name) (cells t) (head t)) (\<lambda>p. Ret (p \<noteq> None))"

text \<open>The out parameter \<^verbatim>\<open>*node_index\<close> keeps its value when the name is not found.\<close>

definition get_inode_index_for_filename :: "filename_table_t \<Rightarrow> byte list \<Rightarrow> u32 \<Rightarrow> (status \<times> u32) outcome" where
  "get_inode_index_for_filename t name ni =
     obind (find_node (\<lambda>n. filename n = name) (cells t) (head t)) (\<lambda>p.
     case p of None \<Rightarrow> Ret (FAILURE, ni)
     | Some a \<Rightarrow> obind (load (cells t) (Some a)) (\<lambda>n. Ret (SUCCESS, node_index n)))"

definition add_filename_to_table ::
  "filename_table_t \<Rightarrow> byte list \<Rightarrow> u32 \<Rightarrow> (status \<times> filename_table_t) outcome" where
  "add_filename_to_table t name ni =
     obind (find_node (\<lambda>n. filename n = name) (cells t) (head t)) (\<lambda>p.
     if p \<noteq> None then Ret (FILENAME_TAKEN, t)
     else if length name < MAX_FILENAME_LEN
     then obind (append_cell (\<lambda>_. name_entry name ni) t) (\<lambda>(n, t'). Ret (SUCCESS, t'))
     else Undef)"

definition rename_file ::
  "filename_table_t \<Rightarrow> byte list \<Rightarrow> byte list \<Rightarrow> (status \<times> filename_table_t) outcome" where
  "rename_file t oldname newname =
     obind (check_if_filename_taken t newname) (\<lambda>taken.
     if taken then Ret (FILENAME_TAKEN, t)
     else obind (find_node (\<lambda>n. filename n = oldname) (cells t) (head t)) (\<lambda>p.
       case p of None \<Rightarrow> Ret (FAILURE, t)
       | Some a \<Rightarrow>
           if length newname < MAX_FILENAME_LEN
           then obind (modify_cell (\<lambda>n. n\<lparr>filename := newname\<rparr>) a (cells t)) (\<lambda>h.
                Ret (SUCCESS, t\<lparr>cells := h\<rparr>))
           else Undef))"

text \<open>The cell is unlinked and freed; the global head pointer is not touched.\<close>

definition remove_filename_from_table :: "filename_table_t \<Rightarrow> byte list \<Rightarrow> (status \<times> filename_table_t) outcome" where
  "remove_filename_from_table t name =
     obind (find_node (\<lambda>n. filename n = name) (cells t) (head t)) (\<lambda>p.
     case p of None \<Rightarrow> Ret (FAILURE, t)
     | Some a \<Rightarrow> obind (unlink_cell a (cells t)) (\<lambda>h. Ret (SUCCESS, t\<lparr>cells := h\<rparr>)))"

subsection \<open>The operations on a well-formed table\<close>

interpretation names: keyed_cells "filename :: filename_inode_t \<Rightarrow> byte list"
  by unfold_locales (simp add: strip_def)

definition lookup_name :: "filename_inode_t list \<Rightarrow> byte list \<Rightarrow> u32 option" where
  "lookup_name xs name = map_option node_index (find (\<lambda>x. filename x = name) xs)"

abbreviation name_in :: "filename_inode_t list \<Rightarrow> byte list \<Rightarrow> bool" where
  "name_in xs name \<equiv> name \<in> filename ` set xs"

lemma find_name_None: "find (\<lambda>x. filename x = name) xs = None \<longleftrightarrow> \<not> name_in xs name"
  by (auto simp: find_None_iff)

lemma lookup_name_simps [simp]:
  "lookup_name [] name = None"
  "lookup_name (x # xs) name = (if filename x = name then Some (node_index x) else lookup_name xs name)"
  by (simp_all add: lookup_name_def)

lemma lookup_name_None: "lookup_name xs name = None \<longleftrightarrow> \<not> name_in xs name"
  by (simp add: lookup_name_def find_name_None)

lemma lookup_name_append:
  "lookup_name (xs @ ys) name = (case lookup_name xs name of None \<Rightarrow> lookup_name ys name | Some i \<Rightarrow> Some i)"
  by (induction xs) auto

lemma check_if_filename_taken_spec [c_spec]:
  assumes "table_is t xs"
  shows "check_if_filename_taken t name = Ret (name_in xs name)"
proof -
  obtain p where "find_node (\<lambda>n. filename n = name) (cells t) (head t) = Ret p"
    "p \<noteq> None \<longleftrightarrow> name_in xs name" by (rule names.find_key_taken [OF assms])
  then show ?thesis by (simp add: check_if_filename_taken_def)
qed

lemma get_inode_index_spec [c_spec]:
  "table_is t xs \<Longrightarrow> get_inode_index_for_filename t name ni =
     Ret (case lookup_name xs name of None \<Rightarrow> (FAILURE, ni) | Some i \<Rightarrow> (SUCCESS, i))"
proof (cases "find (\<lambda>x. filename x = name) xs")
  case None
  moreover assume "table_is t xs"
  ultimately show ?thesis
    using names.find_key_None [of t xs name]
    by (simp add: get_inode_index_for_filename_def lookup_name_def)
next
  case (Some x)
  assume "table_is t xs"
  from names.find_key_Some [OF this Some] obtain a n where
    "find_node (\<lambda>n. filename n = name) (cells t) (head t) = Ret (Some a)" "cells t a = Some n" "strip n = x"
    by blast
  with Some show ?thesis
    by (auto simp: get_inode_index_for_filename_def lookup_name_def load_def strip_def)
qed

lemma add_filename_taken [c_spec]:
  assumes "table_is t xs" and "name_in xs name"
  shows "add_filename_to_table t name ni = Ret (FILENAME_TAKEN, t)"
proof -
  obtain p where "find_node (\<lambda>n. filename n = name) (cells t) (head t) = Ret p"
    "p \<noteq> None \<longleftrightarrow> name_in xs name" by (rule names.find_key_taken [OF assms(1)])
  with assms(2) show ?thesis by (simp add: add_filename_to_table_def)
qed

lemma add_filename_spec:
  assumes tab: "table_is t xs" and new: "\<not> name_in xs name" and len: "length name < MAX_FILENAME_LEN"
  obtains t' where "add_filename_to_table t name ni = Ret (SUCCESS, t')"
    "table_is t' (xs @ [name_entry name ni])"
proof -
  have none: "find_node (\<lambda>n. filename n = name) (cells t) (head t) = Ret None"
    using names.find_key_None [OF tab] new find_name_None by metis
  obtain n t' where "append_cell (\<lambda>_. name_entry name ni) t = Ret (n, t')"
    "strip n = strip (name_entry name ni)" "table_is t' (xs @ [strip n])"
    using append_cell_is [OF tab, of "\<lambda>_. name_entry name ni"] by auto
  with none len show thesis
    by (intro that [of t']) (simp_all add: add_filename_to_table_def strip_def)
qed

lemma rename_file_taken [c_spec]:
  "table_is t xs \<Longrightarrow> name_in xs new \<Longrightarrow> rename_file t old new = Ret (FILENAME_TAKEN, t)"
  by (simp add: rename_file_def check_if_filename_taken_spec)

lemma rename_file_missing [c_spec]:
  "table_is t xs \<Longrightarrow> \<not> name_in xs new \<Longrightarrow> \<not> name_in xs old \<Longrightarrow> rename_file t old new = Ret (FAILURE, t)"
  using names.find_key_None [of t xs old]
  by (simp add: rename_file_def check_if_filename_taken_spec find_name_None)

lemma rename_file_spec:
  assumes tab: "table_is t xs" and new: "\<not> name_in xs new" and old: "name_in xs old"
    and len: "length new < MAX_FILENAME_LEN"
  obtains t' where "rename_file t old new = Ret (SUCCESS, t')"
    "table_is t' (upd_first (\<lambda>x. filename x = old) (\<lambda>x. x\<lparr>filename := new\<rparr>) xs)"
proof -
  from old obtain x where x: "find (\<lambda>x. filename x = old) xs = Some x"
    by (metis names.find_key_obtain)
  obtain a n where "find_node (\<lambda>n. filename n = old) (cells t) (head t) = Ret (Some a)"
    "modify_cell (\<lambda>n. n\<lparr>filename := new\<rparr>) a (cells t) = Ret ((cells t)(a \<mapsto> n\<lparr>filename := new\<rparr>))"
    "table_is (t\<lparr>cells := (cells t)(a \<mapsto> n\<lparr>filename := new\<rparr>)\<rparr>)
       (upd_first (\<lambda>x. filename x = old) (\<lambda>x. x\<lparr>filename := new\<rparr>) xs)"
    by (rule names.update_key [OF tab x, of "\<lambda>n. n\<lparr>filename := new\<rparr>"]) (simp_all add: strip_def)
  with tab new len show thesis
    by (intro that) (auto simp: rename_file_def check_if_filename_taken_spec)
qed

lemma remove_filename_missing [c_spec]:
  "table_is t xs \<Longrightarrow> \<not> name_in xs name \<Longrightarrow> remove_filename_from_table t name = Ret (FAILURE, t)"
  using names.find_key_None [of t xs name]
  by (simp add: remove_filename_from_table_def find_name_None)

lemma remove_filename_later:
  assumes tab: "table_is t (y # xs)" and "filename y \<noteq> name" and "name_in xs name"
  obtains t' where "remove_filename_from_table t name = Ret (SUCCESS, t')"
    "table_is t' (y # del_first (\<lambda>x. filename x = name) xs)"
proof -
  from assms(3) obtain x where x: "find (\<lambda>x. filename x = name) xs = Some x"
    by (metis names.find_key_obtain)
  from names.unlink_key_later [OF tab assms(2) x] obtain a h' where
    "find_node (\<lambda>n. filename n = name) (cells t) (head t) = Ret (Some a)"
    "unlink_cell a (cells t) = Ret h'" "table_is (t\<lparr>cells := h'\<rparr>) (y # del_first (\<lambda>x. filename x = name) xs)"
    by blast
  then show thesis by (intro that) (auto simp: remove_filename_from_table_def)
qed

lemma remove_filename_first:
  assumes tab: "table_is t (x # xs)"
  obtains t' a where "remove_filename_from_table t (filename x) = Ret (SUCCESS, t')"
    "head t' = Some a" "cells t' a = None"
proof -
  from names.unlink_key_first [OF tab refl] obtain a h' where
    "find_node (\<lambda>n. filename n = filename x) (cells t) (head t) = Ret (Some a)"
    "unlink_cell a (cells t) = Ret h'" "head t = Some a" "h' a = None" by blast
  then show thesis
    by (intro that [of "t\<lparr>cells := h'\<rparr>" a]) (simp_all add: remove_filename_from_table_def)
qed

end
