(* ===== verification/Descriptor_Table.thy ===== *)
theory Descriptor_Table
  imports Linked_List Common
begin

text \<open>
  The table of open descriptors of \<^verbatim>\<open>service/inode.c\<close>: a linked list of \<^verbatim>\<open>struct descriptor_t\<close>.
  A new descriptor gets the number after the last one's.
\<close>

record descriptor_t = node +
  desc :: u32
  d_mode :: u32
  d_offset :: u32
  d_node_index :: u32

type_synonym descriptor_table_t = "unit descriptor_t_ext table"

definition add_opened_descriptor ::
  "descriptor_table_t \<Rightarrow> u32 \<Rightarrow> u32 \<Rightarrow> u32 \<Rightarrow> (u32 \<times> descriptor_table_t) outcome" where
  "add_opened_descriptor t ni md off =
     obind (append_cell (\<lambda>l. \<lparr>nxt = None, prv = None,
         desc = (case l of None \<Rightarrow> 0 | Some cur \<Rightarrow> desc cur + 1),
         d_mode = md, d_offset = off, d_node_index = ni\<rparr>) t)
       (\<lambda>(n, t'). Ret (desc n, t'))"

definition look_for_opened_write :: "descriptor_table_t \<Rightarrow> u32 \<Rightarrow> bool outcome" where
  "look_for_opened_write t ni =
     obind (find_node (\<lambda>n. (d_node_index n, d_mode n) = (ni, WRITE_ONLY)) (cells t) (head t))
       (\<lambda>p. Ret (p \<noteq> None))"

definition remove_descriptor :: "descriptor_table_t \<Rightarrow> u32 \<Rightarrow> (status \<times> descriptor_table_t) outcome" where
  "remove_descriptor t fd =
     obind (find_node (\<lambda>n. desc n = fd) (cells t) (head t)) (\<lambda>p.
     case p of None \<Rightarrow> Ret (FAILURE, t)
     | Some a \<Rightarrow> obind (unlink_cell_head a t) (\<lambda>t'. Ret (SUCCESS, t')))"

subsection \<open>The operations on a well-formed table\<close>

interpretation descs: keyed_cells "desc :: descriptor_t \<Rightarrow> u32"
  by unfold_locales (simp add: strip_def)

interpretation writers: keyed_cells "\<lambda>n :: descriptor_t. (d_node_index n, d_mode n)"
  by unfold_locales (simp add: strip_def)

definition next_desc :: "descriptor_t list \<Rightarrow> u32" where
  "next_desc ds = (if ds = [] then 0 else desc (last ds) + 1)"

definition writer_open :: "descriptor_t list \<Rightarrow> u32 \<Rightarrow> bool" where
  "writer_open ds ni \<longleftrightarrow> (\<exists>d\<in>set ds. d_node_index d = ni \<and> d_mode d = WRITE_ONLY)"

abbreviation desc_entry :: "u32 \<Rightarrow> u32 \<Rightarrow> u32 \<Rightarrow> u32 \<Rightarrow> descriptor_t" where
  "desc_entry fd ni md off \<equiv>
     \<lparr>nxt = None, prv = None, desc = fd, d_mode = md, d_offset = off, d_node_index = ni\<rparr>"

lemma add_opened_descriptor_spec:
  assumes tab: "table_is t ds"
  obtains t' where "add_opened_descriptor t ni md off = Ret (next_desc ds, t')"
    "table_is t' (ds @ [desc_entry (next_desc ds) ni md off])"
proof -
  let ?fill = "\<lambda>l :: descriptor_t option. \<lparr>nxt = None, prv = None,
      desc = (case l of None \<Rightarrow> 0 | Some cur \<Rightarrow> desc cur + 1),
      d_mode = md, d_offset = off, d_node_index = ni\<rparr>"
  obtain n t' where n: "append_cell ?fill t = Ret (n, t')"
    "strip n = strip (?fill (if ds = [] then None else Some (last ds)))" "table_is t' (ds @ [strip n])"
    using append_cell_is [OF tab, of ?fill] by (auto simp: descs.key_strip)
  have s: "strip n = desc_entry (next_desc ds) ni md off"
    unfolding n(2) by (simp add: strip_def next_desc_def)
  then have "desc n = next_desc ds"
    using descs.key_strip [of n] by simp
  with n s show thesis by (intro that [of t']) (simp_all add: add_opened_descriptor_def)
qed

lemma look_for_opened_write_spec [c_spec]:
  assumes "table_is t ds"
  shows "look_for_opened_write t ni = Ret (writer_open ds ni)"
proof -
  obtain p where "find_node (\<lambda>n. (d_node_index n, d_mode n) = (ni, WRITE_ONLY)) (cells t) (head t) = Ret p"
    "p \<noteq> None \<longleftrightarrow> (ni, WRITE_ONLY) \<in> (\<lambda>n. (d_node_index n, d_mode n)) ` set ds"
    by (rule writers.find_key_taken [OF assms])
  then show ?thesis by (auto simp: look_for_opened_write_def writer_open_def)
qed

lemma remove_descriptor_missing [c_spec]:
  "table_is t ds \<Longrightarrow> fd \<notin> desc ` set ds \<Longrightarrow> remove_descriptor t fd = Ret (FAILURE, t)"
  using descs.find_key_None [of t ds fd] descs.find_key_iff [of fd ds]
  by (simp add: remove_descriptor_def)

lemma remove_descriptor_spec:
  assumes tab: "table_is t ds" and "fd \<in> desc ` set ds"
  obtains t' where "remove_descriptor t fd = Ret (SUCCESS, t')" "table_is t' (del_first (\<lambda>x. desc x = fd) ds)"
proof -
  from assms(2) obtain x where x: "find (\<lambda>x. desc x = fd) ds = Some x" by (rule descs.find_key_obtain)
  from descs.remove_key [OF tab x] obtain a t' where
    "find_node (\<lambda>n. desc n = fd) (cells t) (head t) = Ret (Some a)" "unlink_cell_head a t = Ret t'"
    "table_is t' (del_first (\<lambda>x. desc x = fd) ds)" by blast
  then show thesis by (intro that) (auto simp: remove_descriptor_def)
qed

end
