(* ===== verification/Fs_Ops.thy ===== *)
theory Fs_Ops
  imports File_Read Filename_Table Descriptor_Table
begin

text \<open>
  The operations of \<^verbatim>\<open>service/inode.c\<close> that work on several tables at once: permissions and
  \<^verbatim>\<open>stat\<close>, \<^verbatim>\<open>chmod\<close>, unlinking, links, and the descriptor operations open, read, write, seek, close.
  The four global tables and the clock form the state \<open>fs\<close>. Every operation that the code passes
  the inode list to takes the pointer \<open>hp\<close> (the callers pass \<^verbatim>\<open>inode_table\<close>).
\<close>

record fs =
  inode_table :: inode_table_t
  descriptor_table :: descriptor_table_t
  filename_table :: filename_table_t
  data_disk :: disk
  clock :: "nat \<Rightarrow> timespec"
  ticks :: nat

text \<open>\<^verbatim>\<open>clock_gettime\<close>: the \<open>ticks\<close>-th reading of the clock.\<close>

definition clock_gettime :: "fs \<Rightarrow> timespec \<times> fs" where
  "clock_gettime s = (clock s (ticks s), s\<lparr>ticks := Suc (ticks s)\<rparr>)"

subsection \<open>Access to the cells of the inode and the descriptor table\<close>

definition find_inode :: "ptr \<Rightarrow> u32 \<Rightarrow> fs \<Rightarrow> ptr outcome" where
  "find_inode hp ni s = find_node (\<lambda>n. index n = ni) (cells (inode_table s)) hp"

definition load_inode :: "nat \<Rightarrow> fs \<Rightarrow> inode_t outcome" where
  "load_inode a s = load (cells (inode_table s)) (Some a)"

definition upd_inode :: "(inode_t \<Rightarrow> inode_t) \<Rightarrow> nat \<Rightarrow> fs \<Rightarrow> fs outcome" where
  "upd_inode f a s = obind (modify_cell f a (cells (inode_table s))) (\<lambda>h.
     Ret (s\<lparr>inode_table := (inode_table s)\<lparr>cells := h\<rparr>\<rparr>))"

definition find_desc :: "u32 \<Rightarrow> fs \<Rightarrow> ptr outcome" where
  "find_desc fd s = find_node (\<lambda>n. desc n = fd) (cells (descriptor_table s)) (head (descriptor_table s))"

definition load_desc :: "nat \<Rightarrow> fs \<Rightarrow> descriptor_t outcome" where
  "load_desc a s = load (cells (descriptor_table s)) (Some a)"

definition upd_desc :: "(descriptor_t \<Rightarrow> descriptor_t) \<Rightarrow> nat \<Rightarrow> fs \<Rightarrow> fs outcome" where
  "upd_desc f a s = obind (modify_cell f a (cells (descriptor_table s))) (\<lambda>h.
     Ret (s\<lparr>descriptor_table := (descriptor_table s)\<lparr>cells := h\<rparr>\<rparr>))"

definition set_atim :: "timespec \<Rightarrow> inode_t \<Rightarrow> inode_t" where
  "set_atim t n = n\<lparr>stat := (stat n)\<lparr>st_atim := t\<rparr>\<rparr>"

definition set_mtim :: "timespec \<Rightarrow> inode_t \<Rightarrow> inode_t" where
  "set_mtim t n = n\<lparr>stat := (stat n)\<lparr>st_mtim := t\<rparr>\<rparr>"

definition set_ctim :: "timespec \<Rightarrow> inode_t \<Rightarrow> inode_t" where
  "set_ctim t n = n\<lparr>stat := (stat n)\<lparr>st_ctim := t\<rparr>\<rparr>"

subsection \<open>Attributes\<close>

text \<open>The last three components are the out parameters, which keep their values on failure.\<close>

definition get_file_owner_group_permissions ::
  "ptr \<Rightarrow> byte list \<Rightarrow> u32 \<Rightarrow> u32 \<Rightarrow> u64 \<Rightarrow> fs \<Rightarrow> (status \<times> u32 \<times> u32 \<times> u64) outcome" where
  "get_file_owner_group_permissions hp name own grp perms s =
     obind (get_inode_index_for_filename (filename_table s) name 0) (\<lambda>(st, ni).
     if status_code st = -1 then Ret (FILE_NOT_FOUND, own, grp, perms)
     else obind (find_inode hp ni s) (\<lambda>p.
       case p of None \<Rightarrow> Ret (FAILURE, own, grp, perms)
       | Some a \<Rightarrow> obind (load_inode a s) (\<lambda>n. Ret (SUCCESS, owner n, owner_group n, mode n))))"

definition get_file_stat_from_inode :: "ptr \<Rightarrow> byte list \<Rightarrow> fs \<Rightarrow> (status \<times> stat_t option \<times> fs) outcome" where
  "get_file_stat_from_inode hp name s =
     obind (get_inode_index_for_filename (filename_table s) name 0) (\<lambda>(st, ni).
     if status_code st = -1 then Ret (FILE_NOT_FOUND, None, s)
     else obind (find_inode hp ni s) (\<lambda>p.
       case p of None \<Rightarrow> Ret (FAILURE, None, s)
       | Some a \<Rightarrow> obind (load_inode a s) (\<lambda>n.
           let (now, s1) = clock_gettime s
           in obind (upd_inode (set_atim now) a s1) (\<lambda>s2. Ret (SUCCESS, Some (stat n), s2)))))"

definition chmod_inode :: "ptr \<Rightarrow> byte list \<Rightarrow> u32 \<Rightarrow> fs \<Rightarrow> (status \<times> fs) outcome" where
  "chmod_inode hp name md s =
     obind (get_inode_index_for_filename (filename_table s) name 0) (\<lambda>(st, ni).
     if st = FAILURE then Ret (FILE_NOT_FOUND, s)
     else obind (find_inode hp ni s) (\<lambda>p.
       case p of None \<Rightarrow> Ret (FAILURE, s)
       | Some a \<Rightarrow>
           let (now, s1) = clock_gettime s
           in obind (upd_inode (\<lambda>n. set_ctim now (set_atim now (n\<lparr>mode := ucast md\<rparr>))) a s1) (\<lambda>s2.
              Ret (SUCCESS, s2))))"

subsection \<open>Unlinking\<close>

text \<open>The loop that frees the slots of a file stops at the first block number 0.\<close>

fun free_blocks :: "u32 list \<Rightarrow> data_block_t list \<Rightarrow> data_block_t list outcome" where
  "free_blocks [] t = Ret t"
| "free_blocks (b # bs) t =
     (if b > 0
      then if unat (b - 1) < length t
           then free_blocks bs (t[unat (b - 1) := \<lparr>allocated = False, inode_index = 0\<rparr>])
           else Undef
      else Ret t)"

text \<open>
  When the link count reaches 0 the cell is taken out of the list; the assignment to the head
  pointer changes the parameter only, so the head of the table stays as it is.
\<close>

definition unlink_inode :: "ptr \<Rightarrow> byte list \<Rightarrow> fs \<Rightarrow> (status \<times> fs) outcome" where
  "unlink_inode hp name s =
     obind (get_inode_index_for_filename (filename_table s) name 0) (\<lambda>(st, ni).
     if st \<noteq> SUCCESS then Ret (FILE_NOT_FOUND, s)
     else obind (find_inode hp ni s) (\<lambda>p.
       case p of None \<Rightarrow> Ret (FAILURE, s)
       | Some a \<Rightarrow>
           let (now, s1) = clock_gettime s
           in obind (upd_inode (\<lambda>n. (set_ctim now (set_atim now n))\<lparr>ref_count := ref_count n - 1\<rparr>) a s1) (\<lambda>s2.
              obind (load_inode a s2) (\<lambda>n.
              obind (if ref_count n = 0
                     then obind (free_blocks (data_blocks n) (data_block_table (data_disk s2))) (\<lambda>t.
                          obind (unlink_cell a (cells (inode_table s2))) (\<lambda>h.
                          Ret (s2\<lparr>data_disk := (data_disk s2)\<lparr>data_block_table := t\<rparr>,
                                 inode_table := (inode_table s2)\<lparr>cells := h\<rparr>\<rparr>)))
                     else Ret s2) (\<lambda>s3.
              obind (remove_filename_from_table (filename_table s3) name) (\<lambda>(st', ft).
                Ret (if status_code st' = -1 then FAILURE else SUCCESS, s3\<lparr>filename_table := ft\<rparr>)))))))"

definition remove_inode :: "byte list \<Rightarrow> fs \<Rightarrow> (status \<times> fs) outcome" where
  "remove_inode name s =
     obind (get_inode_index_for_filename (filename_table s) name 0) (\<lambda>(st, ni).
     if status_code st = -1 then Ret (FILE_NOT_FOUND, s)
     else obind (find_inode (head (inode_table s)) ni s) (\<lambda>p.
       case p of None \<Rightarrow> Ret (FAILURE, s)
       | Some a \<Rightarrow> obind (unlink_cell_head a (inode_table s)) (\<lambda>t. Ret (SUCCESS, s\<lparr>inode_table := t\<rparr>))))"

subsection \<open>Open files\<close>

definition write_inode_fd :: "ptr \<Rightarrow> u32 \<Rightarrow> byte list \<Rightarrow> u32 \<Rightarrow> fs \<Rightarrow> (status \<times> fs) outcome" where
  "write_inode_fd hp fd buf sz s =
     obind (find_desc fd s) (\<lambda>q.
     case q of None \<Rightarrow> Ret (FAILURE, s)
     | Some f \<Rightarrow> obind (load_desc f s) (\<lambda>d.
       if d_mode d = READ_ONLY then Ret (FAILURE, s)
       else obind (find_inode hp (d_node_index d) s) (\<lambda>p.
         case p of None \<Rightarrow> Ret (FAILURE, s)
         | Some a \<Rightarrow>
             let (now, s1) = clock_gettime s
             in obind (upd_inode (\<lambda>n. set_mtim now (set_atim now n)) a s1) (\<lambda>s2.
                obind (load_inode a s2) (\<lambda>n.
                obind (write_inode n buf (d_offset d) sz (data_disk s2)) (\<lambda>(st, n', off', dk).
                obind (upd_inode (\<lambda>_. n') a (s2\<lparr>data_disk := dk\<rparr>)) (\<lambda>s3.
                obind (upd_desc (\<lambda>x. x\<lparr>d_offset := off'\<rparr>) f s3) (\<lambda>s4.
                  Ret (if st \<noteq> SUCCESS then FAILURE else SUCCESS, s4)))))))))"

definition read_inode_fd :: "ptr \<Rightarrow> u32 \<Rightarrow> byte list \<Rightarrow> u32 \<Rightarrow> fs \<Rightarrow> (status \<times> byte list \<times> fs) outcome" where
  "read_inode_fd hp fd buf sz s =
     obind (find_desc fd s) (\<lambda>q.
     case q of None \<Rightarrow> Ret (FAILURE, buf, s)
     | Some f \<Rightarrow> obind (load_desc f s) (\<lambda>d.
       obind (find_inode hp (d_node_index d) s) (\<lambda>p.
         case p of None \<Rightarrow> Ret (FAILURE, buf, s)
         | Some a \<Rightarrow>
             let (now, s1) = clock_gettime s
             in obind (upd_inode (set_atim now) a s1) (\<lambda>s2.
                obind (load_inode a s2) (\<lambda>n.
                obind (read_inode n buf (d_offset d) sz (data_disk s2)) (\<lambda>(st, buf', off').
                obind (upd_desc (\<lambda>x. x\<lparr>d_offset := off'\<rparr>) f s2) (\<lambda>s3.
                  Ret (if st \<noteq> SUCCESS then FAILURE else SUCCESS, buf', s3))))))))"

definition open_inode :: "ptr \<Rightarrow> u32 \<Rightarrow> byte list \<Rightarrow> u32 \<Rightarrow> fs \<Rightarrow> (status \<times> u32 \<times> fs) outcome" where
  "open_inode hp idx name md s =
     obind (get_inode_index_for_filename (filename_table s) name 0) (\<lambda>(st, ni).
     if status_code st = -1 then Ret (FILE_NOT_FOUND, idx, s)
     else obind (look_for_opened_write (descriptor_table s) ni) (\<lambda>w.
       if w then Ret (DOUBLE_WRITE, idx, s)
       else obind (find_inode hp ni s) (\<lambda>p.
         case p of None \<Rightarrow> Ret (FAILURE, idx, s)
         | Some a \<Rightarrow>
             obind (add_opened_descriptor (descriptor_table s) ni md 0) (\<lambda>(fd, dt).
             let (now, s1) = clock_gettime (s\<lparr>descriptor_table := dt\<rparr>)
             in obind (upd_inode (set_atim now) a s1) (\<lambda>s2. Ret (SUCCESS, fd, s2))))))"

text \<open>The comparison with \<^verbatim>\<open>st_size\<close> is done in the signed type \<^verbatim>\<open>off_t\<close>.\<close>

definition seek_inode_fd :: "ptr \<Rightarrow> u32 \<Rightarrow> u32 \<Rightarrow> fs \<Rightarrow> (status \<times> fs) outcome" where
  "seek_inode_fd hp fd offset s =
     obind (find_desc fd s) (\<lambda>q.
     case q of None \<Rightarrow> Ret (FAILURE, s)
     | Some f \<Rightarrow> obind (load_desc f s) (\<lambda>d.
       obind (find_inode hp (d_node_index d) s) (\<lambda>p.
         case p of None \<Rightarrow> Ret (FAILURE, s)
         | Some a \<Rightarrow> obind (load_inode a s) (\<lambda>n.
             if uint offset > sint (st_size (stat n)) then Ret (FAILURE, s)
             else obind (upd_desc (\<lambda>x. x\<lparr>d_offset := offset\<rparr>) f s) (\<lambda>s'. Ret (SUCCESS, s'))))))"

definition close_inode :: "u32 \<Rightarrow> fs \<Rightarrow> (status \<times> fs) outcome" where
  "close_inode fd s =
     obind (remove_descriptor (descriptor_table s) fd) (\<lambda>(st, dt).
     if st \<noteq> SUCCESS then Ret (FAILURE, s\<lparr>descriptor_table := dt\<rparr>)
     else Ret (SUCCESS, s\<lparr>descriptor_table := dt\<rparr>))"

subsection \<open>Links\<close>

text \<open>The result of adding the new name is not looked at.\<close>

definition create_hard_link :: "ptr \<Rightarrow> byte list \<Rightarrow> byte list \<Rightarrow> fs \<Rightarrow> (status \<times> fs) outcome" where
  "create_hard_link hp name new_name s =
     obind (get_inode_index_for_filename (filename_table s) name 0) (\<lambda>(st, ni).
     if status_code st = -1 then Ret (FILE_NOT_FOUND, s)
     else obind (check_if_filename_taken (filename_table s) new_name) (\<lambda>taken.
       if taken then Ret (FILENAME_TAKEN, s)
       else obind (find_inode hp ni s) (\<lambda>p.
         case p of None \<Rightarrow> Ret (FAILURE, s)
         | Some a \<Rightarrow> obind (load_inode a s) (\<lambda>n.
             obind (add_filename_to_table (filename_table s) new_name (index n)) (\<lambda>(st', ft).
             let (now, s1) = clock_gettime (s\<lparr>filename_table := ft\<rparr>)
             in obind (upd_inode (\<lambda>n. set_ctim now (set_atim now (n\<lparr>ref_count := ref_count n + 1\<rparr>))) a s1)
                  (\<lambda>s2. Ret (SUCCESS, s2)))))))"

text \<open>
  A "soft link" is a new file of type \<open>F_SYMLINK\<close> with a copy of the content. The buffer is an array
  of \<^verbatim>\<open>st_size\<close> bytes on the stack (an empty one for an empty file).
\<close>

definition create_soft_link ::
  "ptr \<Rightarrow> byte list \<Rightarrow> byte list \<Rightarrow> u32 \<Rightarrow> u32 \<Rightarrow> u64 \<Rightarrow> fs \<Rightarrow> (status \<times> fs) outcome" where
  "create_soft_link hp name new_name own grp md s =
     obind (get_inode_index_for_filename (filename_table s) name 0) (\<lambda>(st, parent).
     if st \<noteq> SUCCESS then Ret (FILE_NOT_FOUND, s)
     else obind (check_if_filename_taken (filename_table s) new_name) (\<lambda>taken.
     if taken then Ret (FILENAME_TAKEN, s)
     else let (now, s1) = clock_gettime s in
     obind (add_inode (inode_table s1) F_SYMLINK own grp 0 md 0 now now now) (\<lambda>(st1, child, it).
     let s2 = s1\<lparr>inode_table := it\<rparr> in
     if st1 \<noteq> SUCCESS then Ret (FAILURE, s2)
     else obind (add_filename_to_table (filename_table s2) new_name child) (\<lambda>(st2, ft).
     let s3 = s2\<lparr>filename_table := ft\<rparr> in
     if st2 \<noteq> SUCCESS then Ret (FAILURE, s3)
     else obind (find_inode hp parent s3) (\<lambda>pp.
     obind (case pp of None \<Rightarrow> Ret s3
            | Some a \<Rightarrow> (let (now', s') = clock_gettime s3 in upd_inode (set_atim now') a s')) (\<lambda>s4.
     obind (find_inode hp child s4) (\<lambda>cp.
     obind (case cp of None \<Rightarrow> Ret s4
            | Some c \<Rightarrow> upd_inode (\<lambda>n. n\<lparr>ref_count := ref_count n + 1\<rparr>) c s4) (\<lambda>s5.
     case (pp, cp) of
       (Some a, Some c) \<Rightarrow>
         obind (load_inode a s5) (\<lambda>pn.
         if sint (st_size (stat pn)) < 0 then Undef
         else obind (read_inode pn (replicate (unat (st_size (stat pn))) 0) 0 (ucast (st_size (stat pn)))
                (data_disk s5)) (\<lambda>(st3, buf, _).
         if st3 \<noteq> SUCCESS then Ret (FAILURE, s5)
         else obind (load_inode c s5) (\<lambda>cn.
         obind (write_inode cn buf 0 (ucast (st_size (stat pn))) (data_disk s5)) (\<lambda>(st4, cn', _, dk).
         obind (upd_inode (\<lambda>_. cn') c (s5\<lparr>data_disk := dk\<rparr>)) (\<lambda>s6.
           Ret (if st4 \<noteq> SUCCESS then FAILURE else SUCCESS, s6))))))
     | _ \<Rightarrow> Ret (FAILURE, s5)))))))))"

subsection \<open>Creating a file\<close>

text \<open>The part of \<^verbatim>\<open>service_create\<close> (\<^verbatim>\<open>service/operations.c\<close>) that works on the tables.\<close>

definition create_file :: "byte list \<Rightarrow> u32 \<Rightarrow> u32 \<Rightarrow> u64 \<Rightarrow> fs \<Rightarrow> (status \<times> u32 \<times> fs) outcome" where
  "create_file name own grp md s =
     (let (now, s1) = clock_gettime s in
      obind (check_if_filename_taken (filename_table s1) name) (\<lambda>taken.
      if \<not> taken
      then obind (add_inode (inode_table s1) F_REGULAR own grp 1 md 0 now now now) (\<lambda>(st, ni, it).
           obind (add_filename_to_table (filename_table s1) name ni) (\<lambda>(st', ft).
             Ret (if st' \<noteq> SUCCESS then FAILURE else st, ni, s1\<lparr>inode_table := it, filename_table := ft\<rparr>)))
      else Ret (FILENAME_TAKEN, 0, s1)))"

end
