(* ===== verification/Fs_Spec.thy ===== *)
theory Fs_Spec
  imports Fs_Ops
begin

text \<open>
  The specification of the operations of \<open>Fs_Ops\<close>, and the proof that they implement it. The
  specification works on lists of names, open descriptors and inodes (\<open>afs\<close>), without pointers;
  \<open>fs_rel s a\<close> links a state of the service to a specification state. A step of the service and
  its specification give the same kind of outcome with the same status and results, in related
  states (\<open>rel_outcome\<close>). Unlinking is the exception: it implements its specification only when
  the cells it frees are not at the head of their lists (theory \<open>Fs_Links\<close>).
\<close>

subsection \<open>Specification states\<close>

record afs =
  a_names :: "filename_inode_t list"
  a_descs :: "descriptor_t list"
  a_inodes :: "inode_t list"
  a_disk :: disk
  a_clock :: "nat \<Rightarrow> timespec"
  a_ticks :: nat

definition fs_rel :: "fs \<Rightarrow> afs \<Rightarrow> bool" where
  "fs_rel s a \<longleftrightarrow> table_is (filename_table s) (a_names a) \<and> table_is (descriptor_table s) (a_descs a) \<and>
     table_is (inode_table s) (a_inodes a) \<and> data_disk s = a_disk a \<and> clock s = a_clock a \<and> ticks s = a_ticks a"

abbreviation inode_no :: "afs \<Rightarrow> u32 \<Rightarrow> inode_t option" where
  "inode_no a ni \<equiv> find (\<lambda>n. index n = ni) (a_inodes a)"

abbreviation desc_no :: "afs \<Rightarrow> u32 \<Rightarrow> descriptor_t option" where
  "desc_no a fd \<equiv> find (\<lambda>d. desc d = fd) (a_descs a)"

definition a_now :: "afs \<Rightarrow> timespec" where
  "a_now a = a_clock a (a_ticks a)"

definition a_tick :: "afs \<Rightarrow> afs" where
  "a_tick a = a\<lparr>a_ticks := Suc (a_ticks a)\<rparr>"

definition a_upd_inode :: "u32 \<Rightarrow> (inode_t \<Rightarrow> inode_t) \<Rightarrow> afs \<Rightarrow> afs" where
  "a_upd_inode ni f a = a\<lparr>a_inodes := upd_first (\<lambda>n. index n = ni) f (a_inodes a)\<rparr>"

definition a_upd_desc :: "u32 \<Rightarrow> (descriptor_t \<Rightarrow> descriptor_t) \<Rightarrow> afs \<Rightarrow> afs" where
  "a_upd_desc fd f a = a\<lparr>a_descs := upd_first (\<lambda>d. desc d = fd) f (a_descs a)\<rparr>"

lemmas a_defs = a_now_def a_tick_def a_upd_inode_def a_upd_desc_def

subsection \<open>Specified operations\<close>

text \<open>
  A missing name makes \<^verbatim>\<open>get_inode_index_for_filename\<close> return \<open>FAILURE\<close>, which is 1; four callers
  compare with -1 and go on with inode 0. \<open>target\<close> is the inode they act on.
\<close>

definition target :: "afs \<Rightarrow> byte list \<Rightarrow> u32" where
  "target a name = (case lookup_name (a_names a) name of None \<Rightarrow> 0 | Some i \<Rightarrow> i)"

definition a_perms :: "byte list \<Rightarrow> u32 \<Rightarrow> u32 \<Rightarrow> u64 \<Rightarrow> afs \<Rightarrow> (status \<times> u32 \<times> u32 \<times> u64) outcome" where
  "a_perms name own grp perms a = Ret (case inode_no a (target a name) of
     None \<Rightarrow> (FAILURE, own, grp, perms) | Some n \<Rightarrow> (SUCCESS, owner n, owner_group n, mode n))"

definition a_stat :: "byte list \<Rightarrow> afs \<Rightarrow> (status \<times> stat_t option \<times> afs) outcome" where
  "a_stat name a = Ret (let i = target a name in case inode_no a i of
     None \<Rightarrow> (FAILURE, None, a)
   | Some n \<Rightarrow> (SUCCESS, Some (stat n), a_upd_inode i (set_atim (a_now a)) (a_tick a)))"

definition a_chmod :: "byte list \<Rightarrow> u32 \<Rightarrow> afs \<Rightarrow> (status \<times> afs) outcome" where
  "a_chmod name md a = Ret (case lookup_name (a_names a) name of
     None \<Rightarrow> (FILE_NOT_FOUND, a)
   | Some i \<Rightarrow> (case inode_no a i of
       None \<Rightarrow> (FAILURE, a)
     | Some n \<Rightarrow> (SUCCESS, a_upd_inode i (\<lambda>n. set_ctim (a_now a) (set_atim (a_now a) (n\<lparr>mode := ucast md\<rparr>)))
                     (a_tick a))))"

definition a_open :: "u32 \<Rightarrow> byte list \<Rightarrow> u32 \<Rightarrow> afs \<Rightarrow> (status \<times> u32 \<times> afs) outcome" where
  "a_open idx name md a = Ret (let i = target a name in
     if writer_open (a_descs a) i then (DOUBLE_WRITE, idx, a)
     else case inode_no a i of
       None \<Rightarrow> (FAILURE, idx, a)
     | Some n \<Rightarrow> (let fd = next_desc (a_descs a) in
         (SUCCESS, fd, a_upd_inode i (set_atim (a_now a))
            (a_tick (a\<lparr>a_descs := a_descs a @ [desc_entry fd i md 0]\<rparr>)))))"

definition a_close :: "u32 \<Rightarrow> afs \<Rightarrow> (status \<times> afs) outcome" where
  "a_close fd a = Ret (if fd \<in> desc ` set (a_descs a)
     then (SUCCESS, a\<lparr>a_descs := del_first (\<lambda>d. desc d = fd) (a_descs a)\<rparr>) else (FAILURE, a))"

definition a_seek :: "u32 \<Rightarrow> u32 \<Rightarrow> afs \<Rightarrow> (status \<times> afs) outcome" where
  "a_seek fd offset a = Ret (case desc_no a fd of
     None \<Rightarrow> (FAILURE, a)
   | Some d \<Rightarrow> (case inode_no a (d_node_index d) of
       None \<Rightarrow> (FAILURE, a)
     | Some n \<Rightarrow> if uint offset > sint (st_size (stat n)) then (FAILURE, a)
                 else (SUCCESS, a_upd_desc fd (\<lambda>d. d\<lparr>d_offset := offset\<rparr>) a)))"

definition a_write :: "u32 \<Rightarrow> byte list \<Rightarrow> u32 \<Rightarrow> afs \<Rightarrow> (status \<times> afs) outcome" where
  "a_write fd buf sz a = (case desc_no a fd of
     None \<Rightarrow> Ret (FAILURE, a)
   | Some d \<Rightarrow>
       if d_mode d = READ_ONLY then Ret (FAILURE, a)
       else case inode_no a (d_node_index d) of
         None \<Rightarrow> Ret (FAILURE, a)
       | Some n \<Rightarrow>
           obind (write_inode (set_mtim (a_now a) (set_atim (a_now a) n)) buf (d_offset d) sz (a_disk a))
             (\<lambda>(st, n', off', dk).
               Ret (st, a_upd_desc fd (\<lambda>d. d\<lparr>d_offset := off'\<rparr>)
                 (a_upd_inode (d_node_index d) (\<lambda>_. n') ((a_tick a)\<lparr>a_disk := dk\<rparr>)))))"

definition a_read :: "u32 \<Rightarrow> byte list \<Rightarrow> u32 \<Rightarrow> afs \<Rightarrow> (status \<times> byte list \<times> afs) outcome" where
  "a_read fd buf sz a = (case desc_no a fd of
     None \<Rightarrow> Ret (FAILURE, buf, a)
   | Some d \<Rightarrow> (case inode_no a (d_node_index d) of
         None \<Rightarrow> Ret (FAILURE, buf, a)
       | Some n \<Rightarrow>
           obind (read_inode n buf (d_offset d) sz (a_disk a)) (\<lambda>(st, buf', off').
             Ret (st, buf', a_upd_desc fd (\<lambda>d. d\<lparr>d_offset := off'\<rparr>)
               (a_upd_inode (d_node_index d) (set_atim (a_now a)) (a_tick a))))))"

definition a_link :: "byte list \<Rightarrow> byte list \<Rightarrow> afs \<Rightarrow> (status \<times> afs) outcome" where
  "a_link name new_name a = (let i = target a name in
     if name_in (a_names a) new_name then Ret (FILENAME_TAKEN, a)
     else case inode_no a i of
       None \<Rightarrow> Ret (FAILURE, a)
     | Some n \<Rightarrow>
         if length new_name < MAX_FILENAME_LEN
         then Ret (SUCCESS, a_upd_inode i
                (\<lambda>n. set_ctim (a_now a) (set_atim (a_now a) (n\<lparr>ref_count := ref_count n + 1\<rparr>)))
                (a_tick (a\<lparr>a_names := a_names a @ [name_entry new_name i]\<rparr>)))
         else Undef)"

definition a_rename :: "byte list \<Rightarrow> byte list \<Rightarrow> afs \<Rightarrow> (status \<times> afs) outcome" where
  "a_rename old new a =
     (if name_in (a_names a) new then Ret (FILENAME_TAKEN, a)
      else if \<not> name_in (a_names a) old then Ret (FAILURE, a)
      else if length new < MAX_FILENAME_LEN
      then Ret (SUCCESS, a\<lparr>a_names := upd_first (\<lambda>x. filename x = old) (\<lambda>x. x\<lparr>filename := new\<rparr>) (a_names a)\<rparr>)
      else Undef)"

text \<open>What \<^verbatim>\<open>service_create\<close> does to the tables.\<close>

definition a_create :: "byte list \<Rightarrow> u32 \<Rightarrow> u32 \<Rightarrow> u64 \<Rightarrow> afs \<Rightarrow> (status \<times> u32 \<times> afs) outcome" where
  "a_create name own grp md a =
     (let t = a_now a; i = next_index (a_inodes a) in
      if name_in (a_names a) name then Ret (FILENAME_TAKEN, 0, a_tick a)
      else if length name < MAX_FILENAME_LEN
      then Ret (SUCCESS, i, (a_tick a)\<lparr>a_inodes := a_inodes a @ [new_inode i F_REGULAR own grp 1 md 0 t t t],
                                a_names := a_names a @ [name_entry name i]\<rparr>)
      else Undef)"

subsection \<open>Focus on an inode\<close>

text \<open>The search found the inode \<open>x\<close> at address \<open>p\<close> of the inode table.\<close>

definition focus :: "fs \<Rightarrow> afs \<Rightarrow> nat \<Rightarrow> inode_t list \<Rightarrow> inode_t \<Rightarrow> inode_t list \<Rightarrow> bool" where
  "focus s a p bs x cs \<longleftrightarrow> fs_rel s a \<and> cell_at (inode_table s) p bs x cs \<and> a_inodes a = bs @ x # cs \<and>
     (\<forall>y\<in>set bs. index y \<noteq> index x)"

lemma focus_rel: "focus s a p bs x cs \<Longrightarrow> fs_rel s a"
  by (simp add: focus_def)

lemma inode_strip [simp]: "index (strip n) = index n" "ftype (strip n) = ftype n" "stat (strip n) = stat n"
  "mode (strip n) = mode n" "owner (strip n) = owner n" "owner_group (strip n) = owner_group n"
  "ref_count (strip n) = ref_count n" "data_blocks (strip n) = data_blocks n"
  by (simp_all add: strip_def)

lemma desc_strip [simp]: "desc (strip n) = desc n" "d_mode (strip n) = d_mode n" "d_offset (strip n) = d_offset n"
  "d_node_index (strip n) = d_node_index n"
  by (simp_all add: strip_def)

lemma find_inode_missing [c_spec]:
  "fs_rel s a \<Longrightarrow> inode_no a ni = None \<Longrightarrow> find_inode (head (inode_table s)) ni s = Ret None"
  unfolding fs_rel_def find_inode_def by (elim conjE, erule (1) inodes.find_key_None)

lemma find_inode_found:
  assumes rel: "fs_rel s a" and "inode_no a ni = Some x"
  obtains p bs cs where "find_inode (head (inode_table s)) ni s = Ret (Some p)" "focus s a p bs x cs" "index x = ni"
proof -
  from rel have "table_is (inode_table s) (a_inodes a)" by (simp add: fs_rel_def)
  from inodes.find_key_at [OF this assms(2)] obtain p bs cs where
    "find_node (\<lambda>n. index n = ni) (cells (inode_table s)) (head (inode_table s)) = Ret (Some p)"
    "cell_at (inode_table s) p bs x cs" "a_inodes a = bs @ x # cs" "index x = ni" "\<forall>y\<in>set bs. index y \<noteq> ni"
    by blast
  with rel show thesis by (intro that [of p bs cs]) (auto simp: find_inode_def focus_def)
qed

lemma focus_load:
  assumes "focus s a p bs x cs"
  obtains n where "load_inode p s = Ret n" "strip n = x" "cells (inode_table s) p = Some n"
  using assms cell_at_load unfolding focus_def load_inode_def by blast

lemma focus_upd:
  assumes foc: "focus s a p bs x cs" and n: "cells (inode_table s) p = Some n"
    and links: "nxt (f n) = nxt n" "prv (f n) = prv n" and ix: "index (f n) = index n"
    and f': "strip (f n) = f' x"
  obtains s' where "upd_inode f p s = Ret s'" "focus s' (a_upd_inode (index x) f' a) p bs (f' x) cs"
    "inode_table s' = (inode_table s)\<lparr>cells := (cells (inode_table s))(p \<mapsto> f n)\<rparr>"
    "filename_table s' = filename_table s" "descriptor_table s' = descriptor_table s"
    "data_disk s' = data_disk s" "clock s' = clock s" "ticks s' = ticks s"
proof -
  let ?h = "(cells (inode_table s))(p \<mapsto> f n)"
  let ?t = "(inode_table s)\<lparr>cells := ?h\<rparr>"
  from foc have c: "cell_at (inode_table s) p bs x cs" by (simp add: focus_def)
  have xn: "strip n = x" using cell_at_load [OF c] n by auto
  have "cell_at ?t p bs (strip (f n)) cs" by (rule cell_at_store [OF c n links])
  moreover from this have "table_is ?t (bs @ strip (f n) # cs)" by (rule cell_at_is)
  moreover have "index (f' x) = index x" using ix xn by (auto simp flip: f')
  moreover have "upd_first (\<lambda>n. index n = index x) f' (a_inodes a) = bs @ f' x # cs"
    using foc by (auto simp: focus_def upd_first_append)
  ultimately have "focus (s\<lparr>inode_table := ?t\<rparr>) (a_upd_inode (index x) f' a) p bs (f' x) cs"
    using foc unfolding focus_def by (simp add: fs_rel_def a_upd_inode_def f')
  moreover have "upd_inode f p s = Ret (s\<lparr>inode_table := ?t\<rparr>)"
    using n by (simp add: upd_inode_def modify_cell_def load_def)
  ultimately show thesis by (intro that [of "s\<lparr>inode_table := ?t\<rparr>"]) simp_all
qed

text \<open>Writing through the found pointer after a reading of the clock.\<close>

lemma now_rel: "fs_rel s a \<Longrightarrow> clock s (ticks s) = a_now a"
  by (simp add: fs_rel_def a_now_def)

lemma a_now_simps [simp]: "a_inodes (a_tick a) = a_inodes a" "a_names (a_tick a) = a_names a"
  "a_descs (a_tick a) = a_descs a" "a_disk (a_tick a) = a_disk a"
  by (simp_all add: a_tick_def)

lemma focus_tick: "focus s a p bs x cs \<Longrightarrow> focus (s\<lparr>ticks := Suc (ticks s)\<rparr>) (a_tick a) p bs x cs"
  unfolding focus_def fs_rel_def a_tick_def by force

text \<open>A change of an inode that does not touch the links or the number.\<close>

definition keeps_links :: "(inode_t \<Rightarrow> inode_t) \<Rightarrow> bool" where
  "keeps_links f \<longleftrightarrow> (\<forall>n. nxt (f n) = nxt n \<and> prv (f n) = prv n \<and> index (f n) = index n \<and> strip (f n) = f (strip n))"

lemma keeps_links_simps [simp]:
  "keeps_links (set_atim t)" "keeps_links (\<lambda>n. set_mtim t (set_atim t n))"
  "keeps_links (\<lambda>n. set_ctim t (set_atim t (n\<lparr>mode := m\<rparr>)))"
  "keeps_links (\<lambda>n. set_ctim t (set_atim t (n\<lparr>ref_count := ref_count n + 1\<rparr>)))"
  "keeps_links (\<lambda>n. (set_ctim t (set_atim t n))\<lparr>ref_count := ref_count n - 1\<rparr>)"
  "keeps_links (\<lambda>n. n\<lparr>ref_count := ref_count n + 1\<rparr>)"
  by (simp_all add: keeps_links_def strip_def set_atim_def set_mtim_def set_ctim_def)

lemma index_stamp [simp]: "index (set_atim t n) = index n" "index (set_mtim t n) = index n" "index (set_ctim t n) = index n"
  by (simp_all add: set_atim_def set_mtim_def set_ctim_def)

lemma focus_keeps:
  assumes foc: "focus s a p bs x cs" and f: "keeps_links f"
  obtains s' where "upd_inode f p s = Ret s'"
    "focus s' (a_upd_inode (index x) f a) p bs (f x) cs" "descriptor_table s' = descriptor_table s"
    "filename_table s' = filename_table s" "data_disk s' = data_disk s" "head (inode_table s') = head (inode_table s)"
proof -
  obtain n where n: "strip n = x" "cells (inode_table s) p = Some n" using focus_load [OF foc] by blast
  have k: "nxt (f n) = nxt n" "prv (f n) = prv n" "index (f n) = index n" "strip (f n) = f x"
    using f n(1) by (auto simp: keeps_links_def)
  obtain s' where s': "upd_inode f p s = Ret s'" "focus s' (a_upd_inode (index x) f a) p bs (f x) cs"
    "inode_table s' = (inode_table s)\<lparr>cells := (cells (inode_table s))(p \<mapsto> f n)\<rparr>"
    "filename_table s' = filename_table s" "descriptor_table s' = descriptor_table s" "data_disk s' = data_disk s"
    by (rule focus_upd [where f = f and f' = f, OF foc n(2) k])
  then show thesis by (intro that [of s']) simp_all
qed

lemmas touch = focus_keeps [OF focus_tick]

lemma lookup_rel: "fs_rel s a \<Longrightarrow> get_inode_index_for_filename (filename_table s) name ni =
    Ret (case lookup_name (a_names a) name of None \<Rightarrow> (FAILURE, ni) | Some i \<Rightarrow> (SUCCESS, i))"
  unfolding fs_rel_def by (elim conjE, erule get_inode_index_spec)

text \<open>The four callers that compare the result with -1 always go on, with the inode \<open>target\<close>.\<close>

lemma lookup_target: "fs_rel s a \<Longrightarrow> obind (get_inode_index_for_filename (filename_table s) name 0)
    (\<lambda>(st, ni). f ni) = f (target a name)"
  by (simp add: lookup_rel target_def split: option.split)

subsection \<open>Refinement of the operations on names and attributes\<close>

abbreviation refines :: "(status \<times> fs) outcome \<Rightarrow> (status \<times> afs) outcome \<Rightarrow> bool" where
  "refines \<equiv> rel_outcome (rel_prod (=) fs_rel)"

abbreviation refines' :: "(status \<times> 'r \<times> fs) outcome \<Rightarrow> (status \<times> 'r \<times> afs) outcome \<Rightarrow> bool" where
  "refines' \<equiv> rel_outcome (rel_prod (=) (rel_prod (=) fs_rel))"

lemma perms_refines:
  assumes rel: "fs_rel s a"
  shows "get_file_owner_group_permissions (head (inode_table s)) name own grp perms s = a_perms name own grp perms a"
proof (cases "inode_no a (target a name)")
  case None
  with rel show ?thesis
    by (simp add: get_file_owner_group_permissions_def lookup_target a_perms_def find_inode_missing)
next
  case (Some x)
  from find_inode_found [OF rel this] obtain p bs cs where
    p: "find_inode (head (inode_table s)) (target a name) s = Ret (Some p)" "focus s a p bs x cs" by blast
  from focus_load [OF p(2)] obtain n where "load_inode p s = Ret n" "strip n = x" by blast
  with p(1) Some rel show ?thesis
    by (auto simp: get_file_owner_group_permissions_def lookup_target a_perms_def)
qed

lemma stat_refines:
  assumes rel: "fs_rel s a"
  shows "refines' (get_file_stat_from_inode (head (inode_table s)) name s) (a_stat name a)"
proof (cases "inode_no a (target a name)")
  case None
  with rel show ?thesis
    by (simp add: get_file_stat_from_inode_def lookup_target a_stat_def find_inode_missing Let_def)
next
  case (Some x)
  from find_inode_found [OF rel this] obtain p bs cs where
    p: "find_inode (head (inode_table s)) (target a name) s = Ret (Some p)" "focus s a p bs x cs"
      "index x = target a name" by blast
  from focus_load [OF p(2)] obtain n where n: "load_inode p s = Ret n" "strip n = x" by blast
  obtain s' where "upd_inode (set_atim (a_now a)) p (s\<lparr>ticks := Suc (ticks s)\<rparr>) = Ret s'"
    "focus s' (a_upd_inode (index x) (set_atim (a_now a)) (a_tick a)) p bs (set_atim (a_now a) x) cs"
    by (rule touch [OF p(2), of "set_atim (a_now a)"]) simp
  with p(1,3) n Some rel show ?thesis
    by (auto simp: get_file_stat_from_inode_def lookup_target a_stat_def clock_gettime_def now_rel dest: focus_rel)
qed

lemma chmod_refines:
  assumes rel: "fs_rel s a"
  shows "refines (chmod_inode (head (inode_table s)) name md s) (a_chmod name md a)"
proof (cases "lookup_name (a_names a) name")
  case None
  with rel show ?thesis by (simp add: chmod_inode_def lookup_rel a_chmod_def)
next
  case i: (Some i)
  show ?thesis
  proof (cases "inode_no a i")
    case None
    with i rel show ?thesis by (simp add: chmod_inode_def lookup_rel a_chmod_def find_inode_missing)
  next
    case (Some x)
    from find_inode_found [OF rel this] obtain p bs cs where
      p: "find_inode (head (inode_table s)) i s = Ret (Some p)" "focus s a p bs x cs" "index x = i" by blast
    let ?f = "\<lambda>n. set_ctim (a_now a) (set_atim (a_now a) (n\<lparr>mode := ucast md\<rparr>))"
    obtain s' where "upd_inode ?f p (s\<lparr>ticks := Suc (ticks s)\<rparr>) = Ret s'"
      "focus s' (a_upd_inode (index x) ?f (a_tick a)) p bs (?f x) cs"
      by (rule touch [OF p(2), of ?f]) simp
    with p(1,3) i Some rel show ?thesis
      by (auto simp: chmod_inode_def lookup_rel a_chmod_def clock_gettime_def now_rel dest: focus_rel)
  qed
qed

lemma rename_refines:
  assumes rel: "fs_rel s a"
  shows "refines (obind (rename_file (filename_table s) old new) (\<lambda>(st, ft). Ret (st, s\<lparr>filename_table := ft\<rparr>)))
    (a_rename old new a)"
proof -
  from rel have tab: "table_is (filename_table s) (a_names a)" by (simp add: fs_rel_def)
  consider "name_in (a_names a) new" | "\<not> name_in (a_names a) new" "\<not> name_in (a_names a) old"
    | "\<not> name_in (a_names a) new" "name_in (a_names a) old" "length new < MAX_FILENAME_LEN"
    | "\<not> name_in (a_names a) new" "name_in (a_names a) old" "\<not> length new < MAX_FILENAME_LEN" by blast
  then show ?thesis
  proof cases
    case 1
    with rel show ?thesis by (simp add: rename_file_taken [OF tab] a_rename_def)
  next
    case 2
    with rel show ?thesis by (simp add: rename_file_missing [OF tab] a_rename_def)
  next
    case 3
    from rename_file_spec [OF tab this] obtain t' where
      "rename_file (filename_table s) old new = Ret (SUCCESS, t')"
      "table_is t' (upd_first (\<lambda>x. filename x = old) (\<lambda>x. x\<lparr>filename := new\<rparr>) (a_names a))" by blast
    with 3 rel show ?thesis by (simp add: a_rename_def fs_rel_def)
  next
    case 4
    from 4(2) obtain x where x: "find (\<lambda>x. filename x = old) (a_names a) = Some x"
      by (metis names.find_key_obtain)
    from names.find_key_at [OF tab x] obtain p where
      "find_node (\<lambda>n. filename n = old) (cells (filename_table s)) (head (filename_table s)) = Ret (Some p)" by blast
    with 4 show ?thesis
      by (simp add: rename_file_def check_if_filename_taken_spec [OF tab] a_rename_def)
  qed
qed

end
