(* ===== verification/Fs_Refine.thy ===== *)
theory Fs_Refine
  imports Fs_Spec
begin

text \<open>
  The descriptor operations and the links of \<open>Fs_Ops\<close> implement their specifications of \<open>Fs_Spec\<close>.
\<close>

subsection \<open>Descriptors\<close>

lemma find_desc_missing [c_spec]:
  "fs_rel s a \<Longrightarrow> desc_no a fd = None \<Longrightarrow> find_desc fd s = Ret None"
  unfolding fs_rel_def find_desc_def by (elim conjE, erule (1) descs.find_key_None)

definition desc_focus :: "fs \<Rightarrow> afs \<Rightarrow> nat \<Rightarrow> descriptor_t \<Rightarrow> bool" where
  "desc_focus s a q d \<longleftrightarrow> fs_rel s a \<and> (\<exists>bs cs. cell_at (descriptor_table s) q bs d cs \<and>
     a_descs a = bs @ d # cs \<and> (\<forall>y\<in>set bs. desc y \<noteq> desc d))"

lemma find_desc_found:
  assumes rel: "fs_rel s a" and "desc_no a fd = Some d"
  obtains q n where "find_desc fd s = Ret (Some q)" "desc_focus s a q d" "desc d = fd"
    "load_desc q s = Ret n" "strip n = d"
proof -
  from rel have "table_is (descriptor_table s) (a_descs a)" by (simp add: fs_rel_def)
  from descs.find_key_at [OF this assms(2)] obtain q bs cs where
    q: "find_node (\<lambda>n. desc n = fd) (cells (descriptor_table s)) (head (descriptor_table s)) = Ret (Some q)"
    "cell_at (descriptor_table s) q bs d cs" "a_descs a = bs @ d # cs" "desc d = fd" "\<forall>y\<in>set bs. desc y \<noteq> fd"
    by blast
  then have "desc_focus s a q d" using rel unfolding desc_focus_def by blast
  with q cell_at_load [OF q(2)] show thesis
    by (auto simp: find_desc_def load_desc_def intro: that)
qed

text \<open>The focus on a descriptor survives changes of the inode table, the disk and the clock.\<close>

lemma desc_focus_mono:
  "desc_focus s a q d \<Longrightarrow> fs_rel s' a' \<Longrightarrow> descriptor_table s' = descriptor_table s \<Longrightarrow>
   a_descs a' = a_descs a \<Longrightarrow> desc_focus s' a' q d"
  unfolding desc_focus_def by simp

lemma desc_focus_offset:
  assumes foc: "desc_focus s a q d"
  obtains s' where "upd_desc (\<lambda>d. d\<lparr>d_offset := off\<rparr>) q s = Ret s'"
    "fs_rel s' (a_upd_desc (desc d) (\<lambda>d. d\<lparr>d_offset := off\<rparr>) a)"
proof -
  let ?f = "\<lambda>d :: descriptor_t. d\<lparr>d_offset := off\<rparr>"
  from foc obtain bs cs where c: "cell_at (descriptor_table s) q bs d cs" "a_descs a = bs @ d # cs"
    "\<forall>y\<in>set bs. desc y \<noteq> desc d" by (auto simp: desc_focus_def)
  from cell_at_load [OF c(1)] obtain n where n: "cells (descriptor_table s) q = Some n" "strip n = d" by blast
  let ?t = "(descriptor_table s)\<lparr>cells := (cells (descriptor_table s))(q \<mapsto> ?f n)\<rparr>"
  have "cell_at ?t q bs (strip (?f n)) cs" by (rule cell_at_store [OF c(1) n(1)]) simp_all
  moreover have "strip (?f n) = ?f d" using n(2) by (auto simp: strip_def)
  ultimately have "table_is ?t (bs @ ?f d # cs)" using cell_at_is by metis
  moreover have "upd_first (\<lambda>x. desc x = desc d) ?f (a_descs a) = bs @ ?f d # cs"
    using c(2,3) by (auto simp: upd_first_append)
  ultimately have "fs_rel (s\<lparr>descriptor_table := ?t\<rparr>) (a_upd_desc (desc d) ?f a)"
    using foc by (simp add: desc_focus_def fs_rel_def a_upd_desc_def)
  moreover have "upd_desc ?f q s = Ret (s\<lparr>descriptor_table := ?t\<rparr>)"
    using n by (simp add: upd_desc_def modify_cell_def load_def)
  ultimately show thesis by (intro that)
qed

lemma close_refines:
  assumes rel: "fs_rel s a"
  shows "refines (close_inode fd s) (a_close fd a)"
proof (cases "fd \<in> desc ` set (a_descs a)")
  case True
  from rel have "table_is (descriptor_table s) (a_descs a)" by (simp add: fs_rel_def)
  from remove_descriptor_spec [OF this True] obtain t' where
    "remove_descriptor (descriptor_table s) fd = Ret (SUCCESS, t')"
    "table_is t' (del_first (\<lambda>x. desc x = fd) (a_descs a))" by blast
  with True rel show ?thesis by (simp add: close_inode_def a_close_def fs_rel_def)
next
  case False
  from rel have "table_is (descriptor_table s) (a_descs a)" by (simp add: fs_rel_def)
  from remove_descriptor_missing [OF this False] False rel show ?thesis
    by (simp add: close_inode_def a_close_def fs_rel_def)
qed

lemma seek_refines:
  assumes rel: "fs_rel s a"
  shows "refines (seek_inode_fd (head (inode_table s)) fd offset s) (a_seek fd offset a)"
proof (cases "desc_no a fd")
  case None
  with rel show ?thesis by (simp add: seek_inode_fd_def a_seek_def find_desc_missing)
next
  case d: (Some d)
  obtain q n where q: "find_desc fd s = Ret (Some q)" "desc_focus s a q d" "desc d = fd"
    "load_desc q s = Ret n" "strip n = d" by (rule find_desc_found [OF rel d])
  from q(5) have ni: "d_node_index n = d_node_index d" by auto
  show ?thesis
  proof (cases "inode_no a (d_node_index d)")
    case None
    with q(1,4) ni rel d show ?thesis by (simp add: seek_inode_fd_def a_seek_def find_inode_missing)
  next
    case (Some x)
    obtain p bs cs where p: "find_inode (head (inode_table s)) (d_node_index d) s = Ret (Some p)"
      "focus s a p bs x cs" by (rule find_inode_found [OF rel Some])
    obtain m where m: "load_inode p s = Ret m" "strip m = x" by (rule focus_load [OF p(2)])
    obtain s' where "upd_desc (\<lambda>d. d\<lparr>d_offset := offset\<rparr>) q s = Ret s'"
      "fs_rel s' (a_upd_desc (desc d) (\<lambda>d. d\<lparr>d_offset := offset\<rparr>) a)" by (rule desc_focus_offset [OF q(2)])
    with q(1,3,4) ni rel d Some p(1) m show ?thesis
      by (auto simp: seek_inode_fd_def a_seek_def)
  qed
qed

lemma open_refines:
  assumes rel: "fs_rel s a"
  shows "refines' (open_inode (head (inode_table s)) idx name md s) (a_open idx name md a)"
proof -
  let ?i = "target a name"
  from rel have tab: "table_is (descriptor_table s) (a_descs a)" by (simp add: fs_rel_def)
  show ?thesis
  proof (cases "inode_no a ?i")
    case None
    with rel show ?thesis
      by (simp add: open_inode_def lookup_target a_open_def find_inode_missing look_for_opened_write_spec [OF tab] Let_def)
  next
    case (Some x)
    obtain p bs cs where p: "find_inode (head (inode_table s)) ?i s = Ret (Some p)"
      "focus s a p bs x cs" "index x = ?i" by (rule find_inode_found [OF rel Some])
    let ?fd = "next_desc (a_descs a)"
    obtain dt where dt: "add_opened_descriptor (descriptor_table s) ?i md 0 = Ret (?fd, dt)"
      "table_is dt (a_descs a @ [desc_entry ?fd ?i md 0])" by (rule add_opened_descriptor_spec [OF tab])
    let ?s = "s\<lparr>descriptor_table := dt\<rparr>" and ?a = "a\<lparr>a_descs := a_descs a @ [desc_entry ?fd ?i md 0]\<rparr>"
    have foc: "focus ?s ?a p bs x cs" using p(2) dt(2) unfolding focus_def fs_rel_def by force
    have now: "a_now ?a = a_now a" by (simp add: a_now_def)
    obtain s' where "upd_inode (set_atim (a_now a)) p (?s\<lparr>ticks := Suc (ticks ?s)\<rparr>) = Ret s'"
      "focus s' (a_upd_inode (index x) (set_atim (a_now a)) (a_tick ?a)) p bs (set_atim (a_now a) x) cs"
      by (rule touch [OF foc, of "set_atim (a_now a)"]) simp
    with p(1,3) Some rel dt(1) now_rel [OF rel] show ?thesis
      by (auto simp: open_inode_def lookup_target a_open_def look_for_opened_write_spec [OF tab] Let_def
          clock_gettime_def dest: focus_rel)
  qed
qed

subsection \<open>Reading and writing through a descriptor\<close>

text \<open>Reading and writing do not look at the links of the inode cell and do not change them.\<close>

lemma write_inode_strip:
  "write_inode (strip n) buf off sz d =
     obind (write_inode n buf off sz d) (\<lambda>(st, n', off', d'). Ret (st, strip n', off', d'))"
proof -
  let ?l = "write_loop occupy_block_table_slot update_block_table_slot (index n) buf off (off div 4096)
    [unat (off div 4096)..<unat (total_blocks (off + sz))] 0 sz (data_blocks n) d"
  show ?thesis by (cases ?l) (auto simp: write_inode_def Let_def strip_def)
qed

lemma write_inode_links:
  assumes "write_inode n buf off sz d = Ret (st, n', off', d')"
  shows "nxt n' = nxt n" "prv n' = prv n" "index n' = index n"
  using assms by (auto simp: write_inode_def Let_def obind_Ret_iff split: if_splits)

lemma read_inode_strip [simp]: "read_inode (strip n) buf off sz d = read_inode n buf off sz d"
  by (simp add: read_inode_def)

lemma read_loop_status:
  "read_loop rd bl n co off cb buf d = Ret (st, buf', off') \<Longrightarrow> st = SUCCESS \<or> st = FAILURE"
proof (induction rd bl n co off cb buf d rule: read_loop.induct)
  case (1 rd bl n co off cb buf d)
  show ?case
    using 1(2) by (subst (asm) read_loop.simps)
      (auto simp: Let_def obind_Ret_iff split: if_splits dest: 1(1) [OF _ refl refl refl])
qed

lemma read_inode_status: "read_inode n buf off sz d = Ret (st, buf', off') \<Longrightarrow> st = SUCCESS \<or> st = FAILURE"
  by (auto simp: read_inode_def split: if_splits dest: read_loop_status)

lemma upd_first_twice:
  "(\<And>x. P x \<Longrightarrow> P (f x)) \<Longrightarrow> upd_first P g (upd_first P f xs) = upd_first P (\<lambda>x. g (f x)) xs"
  by (induction xs) auto

lemma focus_disk: "focus s a p bs x cs \<Longrightarrow> focus (s\<lparr>data_disk := dk\<rparr>) (a\<lparr>a_disk := dk\<rparr>) p bs x cs"
  unfolding focus_def fs_rel_def by force

lemma focus_replace:
  assumes foc: "focus s a p bs x cs" and n: "load_inode p s = Ret n"
    and m: "nxt m = nxt n" "prv m = prv n" "index m = index n"
  obtains s' where "upd_inode (\<lambda>_. m) p s = Ret s'" "focus s' (a_upd_inode (index x) (\<lambda>_. strip m) a) p bs (strip m) cs"
    "descriptor_table s' = descriptor_table s" "head (inode_table s') = head (inode_table s)"
proof -
  obtain n' where n': "load_inode p s = Ret n'" "strip n' = x" "cells (inode_table s) p = Some n'"
    by (rule focus_load [OF foc])
  with n have c: "cells (inode_table s) p = Some n" by simp
  obtain s' where s': "upd_inode (\<lambda>_. m) p s = Ret s'"
    "focus s' (a_upd_inode (index x) (\<lambda>_. strip m) a) p bs (strip m) cs"
    "inode_table s' = (inode_table s)\<lparr>cells := (cells (inode_table s))(p \<mapsto> m)\<rparr>"
    "descriptor_table s' = descriptor_table s"
    by (rule focus_upd [where f = "\<lambda>_. m" and f' = "\<lambda>_. strip m", OF foc c m refl])
  then show thesis by (intro that [of s']) simp_all
qed

text \<open>Both calls stamp the inode of the descriptor first; the descriptor stays where it is.\<close>

lemma stamped_inode:
  assumes rel: "fs_rel s a" and foc: "desc_focus s a q d" and x: "inode_no a (d_node_index d) = Some x"
    and f: "keeps_links f"
  obtains p bs cs s2 n where "find_inode (head (inode_table s)) (d_node_index d) s = Ret (Some p)"
    "upd_inode f p (s\<lparr>ticks := Suc (ticks s)\<rparr>) = Ret s2"
    "focus s2 (a_upd_inode (d_node_index d) f (a_tick a)) p bs (f x) cs"
    "desc_focus s2 (a_upd_inode (d_node_index d) f (a_tick a)) q d"
    "load_inode p s2 = Ret n" "strip n = f x" "data_disk s2 = a_disk a" "index (f x) = d_node_index d"
proof -
  obtain p bs cs where p: "find_inode (head (inode_table s)) (d_node_index d) s = Ret (Some p)"
    "focus s a p bs x cs" "index x = d_node_index d" by (rule find_inode_found [OF rel x])
  obtain s2 where s2: "upd_inode f p (s\<lparr>ticks := Suc (ticks s)\<rparr>) = Ret s2"
    "focus s2 (a_upd_inode (index x) f (a_tick a)) p bs (f x) cs"
    "descriptor_table s2 = descriptor_table (s\<lparr>ticks := Suc (ticks s)\<rparr>)"
    "data_disk s2 = data_disk (s\<lparr>ticks := Suc (ticks s)\<rparr>)"
    by (rule touch [OF p(2), of f]) (rule f)
  obtain n where n: "load_inode p s2 = Ret n" "strip n = f x" by (rule focus_load [OF s2(2)])
  have "desc_focus s2 (a_upd_inode (d_node_index d) f (a_tick a)) q d"
    using s2(3) focus_rel [OF s2(2)] p(3) by (intro desc_focus_mono [OF foc]) (simp_all add: a_upd_inode_def)
  with p s2 n f rel show thesis by (intro that [of p s2 bs cs n]) (simp_all add: fs_rel_def keeps_links_def)
qed

lemma write_inode_status:
  "write_inode n buf off sz d = Ret (st, n', off', d') \<Longrightarrow> st = SUCCESS \<or> st = FAILURE"
  by (auto simp: write_inode_def Let_def obind_Ret_iff split: if_splits)

text \<open>After the data is written, the inode cell and the offset of the descriptor are stored.\<close>

lemma written_back:
  assumes foc: "focus s (a_upd_inode i f a) p bs x cs" "desc_focus s (a_upd_inode i f a) q d"
    and n: "load_inode p s = Ret n" and i: "index x = i" and f: "\<And>n. index n = i \<Longrightarrow> index (f n) = i"
    and w: "write_inode n buf off sz dk0 = Ret (st, n', off', dk)"
  obtains s3 s4 where "upd_inode (\<lambda>_. n') p (s\<lparr>data_disk := dk\<rparr>) = Ret s3"
    "upd_desc (\<lambda>d. d\<lparr>d_offset := off'\<rparr>) q s3 = Ret s4"
    "fs_rel s4 (a_upd_desc (desc d) (\<lambda>d. d\<lparr>d_offset := off'\<rparr>)
       (a_upd_inode i (\<lambda>_. strip n') (a\<lparr>a_disk := dk\<rparr>)))"
proof -
  have load: "load_inode p (s\<lparr>data_disk := dk\<rparr>) = Ret n" using n by (simp add: load_inode_def)
  obtain s3 where s3: "upd_inode (\<lambda>_. n') p (s\<lparr>data_disk := dk\<rparr>) = Ret s3"
    "focus s3 (a_upd_inode (index x) (\<lambda>_. strip n') ((a_upd_inode i f a)\<lparr>a_disk := dk\<rparr>)) p bs (strip n') cs"
    "descriptor_table s3 = descriptor_table (s\<lparr>data_disk := dk\<rparr>)"
    by (rule focus_replace [OF focus_disk [OF foc(1)] load write_inode_links [OF w]])
  let ?a = "a_upd_inode i (\<lambda>_. strip n') (a\<lparr>a_disk := dk\<rparr>)"
  have "fs_rel s3 ?a" using focus_rel [OF s3(2)] i f by (simp add: a_upd_inode_def upd_first_twice)
  then have "desc_focus s3 ?a q d"
    using s3(3) by (intro desc_focus_mono [OF foc(2)]) (simp_all add: a_upd_inode_def)
  then show thesis by (rule desc_focus_offset [where off = off']) (rule that [OF s3(1)])
qed

lemma write_refines:
  assumes rel: "fs_rel s a"
  shows "refines (write_inode_fd (head (inode_table s)) fd buf sz s) (a_write fd buf sz a)"
proof (cases "desc_no a fd")
  case None
  with rel show ?thesis by (simp add: write_inode_fd_def a_write_def find_desc_missing)
next
  case d: (Some d)
  obtain q e where q: "find_desc fd s = Ret (Some q)" "desc_focus s a q d" "desc d = fd"
    "load_desc q s = Ret e" "strip e = d" by (rule find_desc_found [OF rel d])
  from q(5) have e: "d_node_index e = d_node_index d" "d_mode e = d_mode d" "d_offset e = d_offset d" by auto
  show ?thesis
  proof (cases "d_mode d = READ_ONLY \<or> inode_no a (d_node_index d) = None")
    case True
    with q(1,4) e rel d show ?thesis by (auto simp: write_inode_fd_def a_write_def find_inode_missing)
  next
    case False
    then obtain x where x: "inode_no a (d_node_index d) = Some x" and rw: "d_mode d \<noteq> READ_ONLY" by auto
    let ?f = "\<lambda>n. set_mtim (a_now a) (set_atim (a_now a) n)"
    obtain p bs cs s2 n where p: "find_inode (head (inode_table s)) (d_node_index d) s = Ret (Some p)"
      "upd_inode ?f p (s\<lparr>ticks := Suc (ticks s)\<rparr>) = Ret s2"
      and foc: "focus s2 (a_upd_inode (d_node_index d) ?f (a_tick a)) p bs (?f x) cs"
        "desc_focus s2 (a_upd_inode (d_node_index d) ?f (a_tick a)) q d"
      and n: "load_inode p s2 = Ret n" "strip n = ?f x" and dk: "data_disk s2 = a_disk a"
      and ix: "index (?f x) = d_node_index d"
      by (rule stamped_inode [OF rel q(2) x, of ?f]) simp
    have run: "write_inode_fd (head (inode_table s)) fd buf sz s =
        obind (write_inode n buf (d_offset d) sz (a_disk a)) (\<lambda>(st, n', off', dk).
        obind (upd_inode (\<lambda>_. n') p (s2\<lparr>data_disk := dk\<rparr>)) (\<lambda>s3.
        obind (upd_desc (\<lambda>x. x\<lparr>d_offset := off'\<rparr>) q s3) (\<lambda>s4.
          Ret (if st \<noteq> SUCCESS then FAILURE else SUCCESS, s4))))"
      using q(1,4) e rw p n(1) now_rel [OF rel] dk by (simp add: write_inode_fd_def clock_gettime_def)
    have spec: "a_write fd buf sz a =
        obind (write_inode n buf (d_offset d) sz (a_disk a)) (\<lambda>(st, n', off', dk).
          Ret (st, a_upd_desc fd (\<lambda>d. d\<lparr>d_offset := off'\<rparr>)
            (a_upd_inode (d_node_index d) (\<lambda>_. strip n') ((a_tick a)\<lparr>a_disk := dk\<rparr>))))"
      using d rw x n(2) by (auto simp: a_write_def write_inode_strip simp flip: n(2)
          intro: obind_cong split: prod.splits)
    show ?thesis
    proof (cases "write_inode n buf (d_offset d) sz (a_disk a)")
      case (Ret r)
      obtain st n' off' dk' where r: "r = (st, n', off', dk')" by (cases r) blast
      note w = Ret [unfolded r]
      obtain s3 s4 where "upd_inode (\<lambda>_. n') p (s2\<lparr>data_disk := dk'\<rparr>) = Ret s3"
        "upd_desc (\<lambda>d. d\<lparr>d_offset := off'\<rparr>) q s3 = Ret s4"
        "fs_rel s4 (a_upd_desc (desc d) (\<lambda>d. d\<lparr>d_offset := off'\<rparr>)
           (a_upd_inode (d_node_index d) (\<lambda>_. strip n') ((a_tick a)\<lparr>a_disk := dk'\<rparr>)))"
        by (rule written_back [OF foc n(1) ix _ w]) simp
      then show ?thesis unfolding run spec using write_inode_status [OF w] w q(3) by auto
    qed (simp_all add: run spec)
  qed
qed

lemma read_refines:
  assumes rel: "fs_rel s a"
  shows "refines' (read_inode_fd (head (inode_table s)) fd buf sz s) (a_read fd buf sz a)"
proof (cases "desc_no a fd")
  case None
  with rel show ?thesis by (simp add: read_inode_fd_def a_read_def find_desc_missing)
next
  case d: (Some d)
  obtain q e where q: "find_desc fd s = Ret (Some q)" "desc_focus s a q d" "desc d = fd"
    "load_desc q s = Ret e" "strip e = d" by (rule find_desc_found [OF rel d])
  from q(5) have e: "d_node_index e = d_node_index d" "d_offset e = d_offset d" by auto
  show ?thesis
  proof (cases "inode_no a (d_node_index d)")
    case None
    with q(1,4) e rel d show ?thesis by (simp add: read_inode_fd_def a_read_def find_inode_missing)
  next
    case (Some x)
    let ?f = "set_atim (a_now a)"
    obtain p bs cs s2 n where p: "find_inode (head (inode_table s)) (d_node_index d) s = Ret (Some p)"
      "upd_inode ?f p (s\<lparr>ticks := Suc (ticks s)\<rparr>) = Ret s2"
      and foc: "desc_focus s2 (a_upd_inode (d_node_index d) ?f (a_tick a)) q d"
      and n: "load_inode p s2 = Ret n" "strip n = ?f x" and dk: "data_disk s2 = a_disk a"
      by (rule stamped_inode [OF rel q(2) Some, of ?f]) simp
    have "read_inode n buf (d_offset d) sz (a_disk a) = read_inode (strip n) buf (d_offset d) sz (a_disk a)" by simp
    also have "\<dots> = read_inode x buf (d_offset d) sz (a_disk a)"
      unfolding n(2) by (simp add: read_inode_def set_atim_def)
    finally have run: "read_inode_fd (head (inode_table s)) fd buf sz s =
        obind (read_inode x buf (d_offset d) sz (a_disk a)) (\<lambda>(st, buf', off').
        obind (upd_desc (\<lambda>x. x\<lparr>d_offset := off'\<rparr>) q s2) (\<lambda>s3.
          Ret (if st \<noteq> SUCCESS then FAILURE else SUCCESS, buf', s3)))"
      using q(1,4) e p n(1) now_rel [OF rel] dk by (simp add: read_inode_fd_def clock_gettime_def)
    show ?thesis
    proof (cases "read_inode x buf (d_offset d) sz (a_disk a)")
      case (Ret r)
      obtain st buf' off' where r: "r = (st, buf', off')" by (cases r) blast
      obtain s3 where "upd_desc (\<lambda>d. d\<lparr>d_offset := off'\<rparr>) q s2 = Ret s3"
        "fs_rel s3 (a_upd_desc (desc d) (\<lambda>d. d\<lparr>d_offset := off'\<rparr>) (a_upd_inode (d_node_index d) ?f (a_tick a)))"
        by (rule desc_focus_offset [OF foc])
      then show ?thesis unfolding run using read_inode_status [OF Ret [unfolded r]] Ret r q(3) d Some
        by (auto simp: a_read_def)
    qed (use d Some in \<open>simp_all add: run a_read_def\<close>)
  qed
qed

subsection \<open>New names and new files\<close>

lemma link_refines:
  assumes rel: "fs_rel s a"
  shows "refines (create_hard_link (head (inode_table s)) name new_name s) (a_link name new_name a)"
proof -
  let ?i = "target a name"
  from rel have tab: "table_is (filename_table s) (a_names a)" by (simp add: fs_rel_def)
  show ?thesis
  proof (cases "name_in (a_names a) new_name \<or> inode_no a ?i = None")
    case True
    with rel show ?thesis
      by (auto simp: create_hard_link_def lookup_target a_link_def find_inode_missing Let_def
          check_if_filename_taken_spec [OF tab])
  next
    case False
    then obtain x where x: "inode_no a ?i = Some x" and new: "\<not> name_in (a_names a) new_name" by auto
    obtain p bs cs where p: "find_inode (head (inode_table s)) ?i s = Ret (Some p)"
      "focus s a p bs x cs" "index x = ?i" by (rule find_inode_found [OF rel x])
    obtain n where n: "load_inode p s = Ret n" "strip n = x" by (rule focus_load [OF p(2)])
    then have ix: "index n = ?i" using p(3) by auto
    show ?thesis
    proof (cases "length new_name < MAX_FILENAME_LEN")
      case False
      have "find_node (\<lambda>n. filename n = new_name) (cells (filename_table s)) (head (filename_table s)) = Ret None"
        using names.find_key_None [OF tab] new find_name_None by metis
      with False p(1) n(1) new x rel show ?thesis
        by (simp add: create_hard_link_def lookup_target a_link_def check_if_filename_taken_spec [OF tab]
            add_filename_to_table_def Let_def)
    next
      case True
      obtain ft where ft: "add_filename_to_table (filename_table s) new_name ?i = Ret (SUCCESS, ft)"
        "table_is ft (a_names a @ [name_entry new_name ?i])" by (rule add_filename_spec [OF tab new True])
      let ?s = "s\<lparr>filename_table := ft\<rparr>" and ?a = "a\<lparr>a_names := a_names a @ [name_entry new_name ?i]\<rparr>"
      let ?f = "\<lambda>n. set_ctim (a_now a) (set_atim (a_now a) (n\<lparr>ref_count := ref_count n + 1\<rparr>))"
      have foc: "focus ?s ?a p bs x cs" using p(2) ft(2) unfolding focus_def fs_rel_def by force
      obtain s' where "upd_inode ?f p (?s\<lparr>ticks := Suc (ticks ?s)\<rparr>) = Ret s'"
        "focus s' (a_upd_inode (index x) ?f (a_tick ?a)) p bs (?f x) cs"
        by (rule touch [OF foc, of ?f]) simp
      with p(1,3) n(1) ix new True x rel ft(1) now_rel [OF rel] show ?thesis
        by (auto simp: create_hard_link_def lookup_target a_link_def check_if_filename_taken_spec [OF tab] Let_def
            clock_gettime_def dest: focus_rel)
    qed
  qed
qed

lemma create_refines:
  assumes rel: "fs_rel s a"
  shows "refines' (create_file name own grp md s) (a_create name own grp md a)"
proof -
  from rel have tab: "table_is (filename_table s) (a_names a)" "table_is (inode_table s) (a_inodes a)"
    by (simp_all add: fs_rel_def)
  let ?t = "a_now a" and ?i = "next_index (a_inodes a)"
  show ?thesis
  proof (cases "name_in (a_names a) name")
    case True
    with rel now_rel [OF rel] show ?thesis
      by (simp add: create_file_def clock_gettime_def check_if_filename_taken_spec [OF tab(1)] a_create_def
          fs_rel_def a_tick_def Let_def)
  next
    case new: False
    obtain it where it: "add_inode (inode_table s) F_REGULAR own grp 1 md 0 ?t ?t ?t = Ret (SUCCESS, ?i, it)"
      "table_is it (a_inodes a @ [new_inode ?i F_REGULAR own grp 1 md 0 ?t ?t ?t])"
      by (rule add_inode_spec [OF tab(2)])
    show ?thesis
    proof (cases "length name < MAX_FILENAME_LEN")
      case True
      obtain ft where "add_filename_to_table (filename_table s) name ?i = Ret (SUCCESS, ft)"
        "table_is ft (a_names a @ [name_entry name ?i])" by (rule add_filename_spec [OF tab(1) new True])
      with it rel now_rel [OF rel] new True show ?thesis
        by (simp add: create_file_def clock_gettime_def check_if_filename_taken_spec [OF tab(1)] a_create_def
            fs_rel_def a_tick_def Let_def)
    next
      case False
      have "find_node (\<lambda>n. filename n = name) (cells (filename_table s)) (head (filename_table s)) = Ret None"
        using names.find_key_None [OF tab(1)] new find_name_None by metis
      with it(1) now_rel [OF rel] new False show ?thesis
        by (simp add: create_file_def clock_gettime_def check_if_filename_taken_spec [OF tab(1)] a_create_def
            add_filename_to_table_def Let_def)
    qed
  qed
qed

end
