(* ===== verification/Fs_Links.thy ===== *)
theory Fs_Links
  imports Fs_Refine
begin

text \<open>
  Soft links and unlinking. \<open>create_soft_link\<close> implements its specification whenever the number of
  the new inode is fresh; \<open>unlink_inode\<close> only when neither the name cell nor the inode cell it frees
  stands at the head of its list, because the code does not move the global heads.
\<close>

subsection \<open>Soft links\<close>

definition a_symlink :: "byte list \<Rightarrow> byte list \<Rightarrow> u32 \<Rightarrow> u32 \<Rightarrow> u64 \<Rightarrow> afs \<Rightarrow> (status \<times> afs) outcome" where
  "a_symlink name new_name own grp md a = (case lookup_name (a_names a) name of
     None \<Rightarrow> Ret (FILE_NOT_FOUND, a)
   | Some i \<Rightarrow>
       if name_in (a_names a) new_name then Ret (FILENAME_TAKEN, a)
       else if \<not> length new_name < MAX_FILENAME_LEN then Undef
       else case inode_no a i of
         None \<Rightarrow> Undef
       | Some pn \<Rightarrow>
           (let t = a_now a; j = next_index (a_inodes a); size = st_size (stat pn);
                child = new_inode j F_SYMLINK own grp 1 md 0 t t t;
                a3 = (a_tick a)\<lparr>a_inodes := a_inodes a @ [child], a_names := a_names a @ [name_entry new_name j]\<rparr>;
                a4 = a_upd_inode i (set_atim (a_now a3)) (a_tick a3)
            in if sint size < 0 then Undef
               else obind (read_inode pn (replicate (unat size) 0) 0 (ucast size) (a_disk a)) (\<lambda>(st, buf, _).
                 if st \<noteq> SUCCESS then Ret (FAILURE, a4)
                 else obind (write_inode child buf 0 (ucast size) (a_disk a)) (\<lambda>(st', child', _, dk).
                   Ret (st', a_upd_inode j (\<lambda>_. child') (a4\<lparr>a_disk := dk\<rparr>))))))"

lemma add_inode_head:
  "add_inode t ty own grp refs md sz at mt ct = Ret (st, i, t') \<Longrightarrow> head t \<noteq> None \<Longrightarrow> head t' = head t"
  by (auto simp: add_inode_def append_cell_def obind_Ret_iff Let_def split: option.splits)

lemma table_is_head: "table_is t xs \<Longrightarrow> xs \<noteq> [] \<Longrightarrow> head t \<noteq> None"
  by (auto simp: table_is_def table_wf_def neq_Nil_conv view_def)

lemma find_last: "find P (xs @ [x]) = (case find P xs of None \<Rightarrow> if P x then Some x else None | Some y \<Rightarrow> Some y)"
  by (induction xs) auto

lemma upd_first_last: "\<forall>x\<in>set xs. \<not> P x \<Longrightarrow> P x \<Longrightarrow> upd_first P f (xs @ [x]) = xs @ [f x]"
  by (induction xs) auto

lemma not_index_upd_first:
  "\<forall>x\<in>set xs. index x \<noteq> j \<Longrightarrow> \<forall>x\<in>set (upd_first P (set_atim t) xs). index x \<noteq> j"
  by (induction xs) auto

lemma size_atim: "st_size (stat (set_atim t n)) = st_size (stat n)" "data_blocks (set_atim t n) = data_blocks n"
  by (simp_all add: set_atim_def)

lemma set_upd_first_index: "(\<And>n. index (f n) = index n) \<Longrightarrow> map index (upd_first P f xs) = map index xs"
  by (induction xs) auto

text \<open>The state after a new inode and its name were added, before the parent is touched.\<close>

definition symlink_added :: "u32 \<Rightarrow> byte list \<Rightarrow> inode_t \<Rightarrow> afs \<Rightarrow> afs" where
  "symlink_added j new_name c0 a =
     (a_tick a)\<lparr>a_inodes := a_inodes a @ [c0], a_names := a_names a @ [name_entry new_name j]\<rparr>"

text \<open>Copying the content, the last part of \<open>create_soft_link\<close>, with the cells of parent and child.\<close>

definition copy_content :: "nat \<Rightarrow> nat \<Rightarrow> fs \<Rightarrow> (status \<times> fs) outcome" where
  "copy_content p c s =
     obind (load_inode p s) (\<lambda>pn.
     if sint (st_size (stat pn)) < 0 then Undef
     else obind (read_inode pn (replicate (unat (st_size (stat pn))) 0) 0 (ucast (st_size (stat pn))) (data_disk s))
       (\<lambda>(st3, buf, _).
     if st3 \<noteq> SUCCESS then Ret (FAILURE, s)
     else obind (load_inode c s) (\<lambda>cn.
     obind (write_inode cn buf 0 (ucast (st_size (stat pn))) (data_disk s)) (\<lambda>(st4, cn', _, dk).
     obind (upd_inode (\<lambda>_. cn') c (s\<lparr>data_disk := dk\<rparr>)) (\<lambda>s6.
       Ret (if st4 \<noteq> SUCCESS then FAILURE else SUCCESS, s6))))))"

definition a_copy_content :: "inode_t \<Rightarrow> inode_t \<Rightarrow> afs \<Rightarrow> (status \<times> afs) outcome" where
  "a_copy_content pn child b =
     (if sint (st_size (stat pn)) < 0 then Undef
      else obind (read_inode pn (replicate (unat (st_size (stat pn))) 0) 0 (ucast (st_size (stat pn))) (a_disk b))
        (\<lambda>(st, buf, _).
        if st \<noteq> SUCCESS then Ret (FAILURE, b)
        else obind (write_inode child buf 0 (ucast (st_size (stat pn))) (a_disk b)) (\<lambda>(st', child', _, dk).
          Ret (st', a_upd_inode (index child) (\<lambda>_. child') (b\<lparr>a_disk := dk\<rparr>)))))"

lemma write_child_refines:
  assumes c: "focus s b c bs child cs" "load_inode c s = Ret m" "strip m = child"
  shows "refines (obind (write_inode m buf 0 z (data_disk s)) (\<lambda>(st4, cn', _, dk).
      obind (upd_inode (\<lambda>_. cn') c (s\<lparr>data_disk := dk\<rparr>)) (\<lambda>s6. Ret (if st4 \<noteq> SUCCESS then FAILURE else SUCCESS, s6))))
    (obind (write_inode child buf 0 z (a_disk b)) (\<lambda>(st', child', _, dk).
      Ret (st', a_upd_inode (index child) (\<lambda>_. child') (b\<lparr>a_disk := dk\<rparr>))))"
proof -
  have dk: "data_disk s = a_disk b" using focus_rel [OF c(1)] by (simp add: fs_rel_def)
  have W: "write_inode child buf 0 z d =
      obind (write_inode m buf 0 z d) (\<lambda>(st, n', off', d'). Ret (st, strip n', off', d'))" for d
    using write_inode_strip [of m] c(3) by simp
  show ?thesis
  proof (cases "write_inode m buf 0 z (a_disk b)")
    case (Ret w)
    obtain st cn o' dk' where w: "w = (st, cn, o', dk')" by (cases w) blast
    note wr = Ret [unfolded w]
    have load: "load_inode c (s\<lparr>data_disk := dk'\<rparr>) = Ret m" using c(2) by (simp add: load_inode_def)
    obtain s6 where "upd_inode (\<lambda>_. cn) c (s\<lparr>data_disk := dk'\<rparr>) = Ret s6"
      "focus s6 (a_upd_inode (index child) (\<lambda>_. strip cn) (b\<lparr>a_disk := dk'\<rparr>)) c bs (strip cn) cs"
      using focus_replace [OF focus_disk [OF c(1)] load write_inode_links [OF wr]] by blast
    with write_inode_status [OF wr] show ?thesis by (auto simp: dk W wr dest: focus_rel)
  qed (simp_all add: dk W)
qed

lemma copy_refines:
  assumes c: "focus s b c bs child cs" "load_inode c s = Ret m" "strip m = child"
    and p: "load_inode p s = Ret n" "st_size (stat n) = st_size (stat pn)" "data_blocks n = data_blocks pn"
  shows "refines (copy_content p c s) (a_copy_content pn child b)"
proof -
  have dk: "data_disk s = a_disk b" using focus_rel [OF c(1)] by (simp add: fs_rel_def)
  note sz = p(2)
  have rd: "read_inode n buf 0 z d = read_inode pn buf 0 z d" for buf z d
    using p(3) by (simp add: read_inode_def)
  show ?thesis
  proof (cases "sint (st_size (stat pn)) < 0")
    case False
    show ?thesis
    proof (cases "read_inode pn (replicate (unat (st_size (stat pn))) 0) 0 (ucast (st_size (stat pn))) (a_disk b)")
      case (Ret r)
      obtain st buf off' where r: "r = (st, buf, off')" by (cases r) blast
      show ?thesis
        using write_child_refines [OF c, of buf "ucast (st_size (stat pn))"] False Ret r focus_rel [OF c(1)] p(1) c(2)
        by (cases "st = SUCCESS") (simp_all add: copy_content_def a_copy_content_def sz rd dk)
    qed (use False p(1) in \<open>simp_all add: copy_content_def a_copy_content_def sz rd dk\<close>)
  qed (use p(1) in \<open>simp add: copy_content_def a_copy_content_def sz\<close>)
qed

text \<open>Touching the parent and counting the link of the child, which is the last inode.\<close>

lemma link_child:
  assumes rel: "fs_rel s b" and ino: "a_inodes b = ns @ [c0]" and j: "\<forall>x\<in>set ns. index x \<noteq> index c0"
    and i: "inode_no b i = Some pn" "i \<noteq> index c0"
  obtains p c s4 s5 n m bs cs where
    "find_inode (head (inode_table s)) i s = Ret (Some p)"
    "upd_inode (set_atim (a_now b)) p (s\<lparr>ticks := Suc (ticks s)\<rparr>) = Ret s4"
    "find_inode (head (inode_table s)) (index c0) s4 = Ret (Some c)"
    "upd_inode (\<lambda>n. n\<lparr>ref_count := ref_count n + 1\<rparr>) c s4 = Ret s5"
    "load_inode p s5 = Ret n" "st_size (stat n) = st_size (stat pn)" "data_blocks n = data_blocks pn"
    "load_inode c s5 = Ret m" "strip m = c0\<lparr>ref_count := ref_count c0 + 1\<rparr>"
    "focus s5 (a_upd_inode (index c0) (\<lambda>n. n\<lparr>ref_count := ref_count n + 1\<rparr>) (a_upd_inode i (set_atim (a_now b)) (a_tick b)))
      c bs (c0\<lparr>ref_count := ref_count c0 + 1\<rparr>) cs"
proof -
  let ?hp = "head (inode_table s)" and ?inc = "\<lambda>n :: inode_t. n\<lparr>ref_count := ref_count n + 1\<rparr>"
  obtain p bs cs where p: "find_inode ?hp i s = Ret (Some p)" "focus s b p bs pn cs" "index pn = i"
    using find_inode_found [OF rel i(1)] by blast
  define b4 where "b4 = a_upd_inode i (set_atim (a_now b)) (a_tick b)"
  obtain s4 where s4: "upd_inode (set_atim (a_now b)) p (s\<lparr>ticks := Suc (ticks s)\<rparr>) = Ret s4"
    "focus s4 b4 p bs (set_atim (a_now b) pn) cs" "head (inode_table s4) = ?hp"
    using touch [OF p(2), of "set_atim (a_now b)"] unfolding p(3) b4_def by auto
  have "\<exists>x\<in>set ns. index x = i" using i ino by (auto simp: find_last find_Some_iff split: option.splits if_splits)
  then have b4: "a_inodes b4 = upd_first (\<lambda>n. index n = i) (set_atim (a_now b)) ns @ [c0]"
    by (simp add: b4_def ino a_upd_inode_def a_tick_def upd_first_append)
  have "find (\<lambda>n. index n = index c0) (upd_first (\<lambda>n. index n = i) (set_atim (a_now b)) ns) = None"
    using not_index_upd_first [OF j] by (auto simp: find_None_iff)
  then have c4: "inode_no b4 (index c0) = Some c0" by (simp add: b4 find_last)
  obtain c bs2 cs2 where c: "find_inode ?hp (index c0) s4 = Ret (Some c)" "focus s4 b4 c bs2 c0 cs2"
    using find_inode_found [OF focus_rel [OF s4(2)] c4] unfolding s4(3) by blast
  obtain m where m: "load_inode c s4 = Ret m" "strip m = c0" "cells (inode_table s4) c = Some m"
    by (rule focus_load [OF c(2)])
  obtain n where n: "load_inode p s4 = Ret n" "strip n = set_atim (a_now b) pn" "cells (inode_table s4) p = Some n"
    by (rule focus_load [OF s4(2)])
  have "index n = i" using p(3) by (metis inode_strip(1) n(2) index_stamp(1))
  then have pc: "p \<noteq> c" using m n(3) i(2) by auto
  have incm: "strip (?inc m) = ?inc c0" using m(2) by (auto simp: strip_def)
  obtain s5 where s5: "upd_inode ?inc c s4 = Ret s5" "focus s5 (a_upd_inode (index c0) ?inc b4) c bs2 (?inc c0) cs2"
    "inode_table s5 = (inode_table s4)\<lparr>cells := (cells (inode_table s4))(c \<mapsto> ?inc m)\<rparr>"
    using focus_upd [where f = ?inc and f' = ?inc, OF c(2) m(3) _ _ _ incm] by auto
  have "load_inode p s5 = Ret n" "load_inode c s5 = Ret (?inc m)"
    using n(3) pc by (simp_all add: s5(3) load_inode_def load_def)
  moreover have "st_size (stat n) = st_size (stat pn)" "data_blocks n = data_blocks pn"
    by (metis inode_strip(3) n(2) size_atim(1)) (metis inode_strip(8) n(2) size_atim(2))
  ultimately show thesis
    by (intro that [of p s4 c s5 n "?inc m" bs2 cs2]) (use p(1) s4(1) c(1) s5(1,2) incm in \<open>simp_all add: b4_def\<close>)
qed

lemma index_new_inode [simp]: "index (new_inode i ty own grp refs md sz at mt ct) = i"
  by (simp add: new_inode_def)

lemma a_symlink_copy:
  assumes "lookup_name (a_names a) name = Some i" "\<not> name_in (a_names a) new_name" "length new_name < MAX_FILENAME_LEN"
    and "inode_no a i = Some pn" "inode_no a j = None" "j = next_index (a_inodes a)"
    and "c0 = new_inode j F_SYMLINK own grp 0 md 0 (a_now a) (a_now a) (a_now a)" "b = symlink_added j new_name c0 a"
  shows "a_symlink name new_name own grp md a = a_copy_content pn (c0\<lparr>ref_count := ref_count c0 + 1\<rparr>)
    (a_upd_inode j (\<lambda>n. n\<lparr>ref_count := ref_count n + 1\<rparr>) (a_upd_inode i (set_atim (a_now b)) (a_tick b)))"
proof -
  let ?child = "c0\<lparr>ref_count := ref_count c0 + 1\<rparr>"
  have c0: "index c0 = j" "?child = new_inode j F_SYMLINK own grp 1 md 0 (a_now a) (a_now a) (a_now a)"
    by (simp_all add: assms(7) new_inode_def)
  have x: "\<exists>x\<in>set (a_inodes a). index x = i" using assms(4) by (auto simp: find_Some_iff)
  have jn: "\<forall>x\<in>set (upd_first (\<lambda>n. index n = i) (set_atim t) (a_inodes a)). index x \<noteq> j" for t
    using assms(5) by (intro not_index_upd_first) (auto simp: find_None_iff)
  have now: "a_now (symlink_added j new_name n a) = a_now b" for n
    by (simp add: assms(8) symlink_added_def a_now_def)
  have "a_upd_inode i (set_atim (a_now b)) (a_tick (symlink_added j new_name ?child a)) =
      a_upd_inode j (\<lambda>n. n\<lparr>ref_count := ref_count n + 1\<rparr>) (a_upd_inode i (set_atim (a_now b)) (a_tick b))"
    using x jn c0(1) by (simp add: assms(8) symlink_added_def a_upd_inode_def a_tick_def upd_first_append upd_first_last)
  moreover have "a_disk (a_upd_inode j f (a_upd_inode i g (a_tick b))) = a_disk a" for f g
    by (simp add: assms(8) symlink_added_def a_upd_inode_def a_tick_def)
  ultimately show ?thesis
    using assms(1-4,6) c0 now
    by (simp add: a_symlink_def a_copy_content_def Let_def flip: symlink_added_def c0(2) cong: if_cong)
qed

text \<open>The new inode and its name, up to the point where the parent is touched.\<close>

lemma symlink_add:
  assumes rel: "fs_rel s a" and names: "lookup_name (a_names a) name = Some i" "\<not> name_in (a_names a) new_name"
    and "length new_name < MAX_FILENAME_LEN" "a_inodes a \<noteq> []"
    and "c0 = new_inode (next_index (a_inodes a)) F_SYMLINK own grp 0 md 0 (a_now a) (a_now a) (a_now a)"
  obtains it ft s3 where
    "add_inode (inode_table s) F_SYMLINK own grp 0 md 0 (a_now a) (a_now a) (a_now a) = Ret (SUCCESS, next_index (a_inodes a), it)"
    "add_filename_to_table (filename_table s) new_name (next_index (a_inodes a)) = Ret (SUCCESS, ft)"
    "s3 = s\<lparr>ticks := Suc (ticks s), inode_table := it, filename_table := ft\<rparr>"
    "fs_rel s3 (symlink_added (next_index (a_inodes a)) new_name c0 a)" "head (inode_table s3) = head (inode_table s)"
proof -
  from rel have tab: "table_is (filename_table s) (a_names a)" "table_is (inode_table s) (a_inodes a)"
    by (simp_all add: fs_rel_def)
  let ?j = "next_index (a_inodes a)" and ?t = "a_now a"
  obtain it where it: "add_inode (inode_table s) F_SYMLINK own grp 0 md 0 ?t ?t ?t = Ret (SUCCESS, ?j, it)"
    "table_is it (a_inodes a @ [c0])" unfolding assms(6) by (rule add_inode_spec [OF tab(2)])
  have hd: "head it = head (inode_table s)"
    using add_inode_head [OF it(1)] table_is_head [OF tab(2) assms(5)] by simp
  obtain ft where ft: "add_filename_to_table (filename_table s) new_name ?j = Ret (SUCCESS, ft)"
    "table_is ft (a_names a @ [name_entry new_name ?j])" by (rule add_filename_spec [OF tab(1) names(2) assms(4)])
  let ?s3 = "s\<lparr>ticks := Suc (ticks s), inode_table := it, filename_table := ft\<rparr>"
  have "fs_rel ?s3 (symlink_added ?j new_name c0 a)"
    using rel it(2) ft(2) by (simp add: fs_rel_def symlink_added_def a_tick_def)
  with it(1) ft(1) hd show thesis by (intro that [of it ft ?s3]) simp_all
qed

text \<open>Names that cannot be linked, or are too long.\<close>

lemma symlink_stops:
  assumes rel: "fs_rel s a"
    and stop: "lookup_name (a_names a) name = None \<or> name_in (a_names a) new_name \<or> \<not> length new_name < MAX_FILENAME_LEN"
  shows "refines (create_soft_link (head (inode_table s)) name new_name own grp md s)
    (a_symlink name new_name own grp md a)"
proof -
  from rel have tab: "table_is (filename_table s) (a_names a)" "table_is (inode_table s) (a_inodes a)"
    by (simp_all add: fs_rel_def)
  let ?t = "a_now a"
  obtain it where it: "add_inode (inode_table s) F_SYMLINK own grp 0 md 0 ?t ?t ?t = Ret (SUCCESS, next_index (a_inodes a), it)"
    by (rule add_inode_spec [OF tab(2)])
  have "find_node (\<lambda>n. filename n = new_name) (cells (filename_table s)) (head (filename_table s)) = Ret None"
    if "\<not> name_in (a_names a) new_name"
    using names.find_key_None [OF tab(1)] that find_name_None by metis
  with it stop rel now_rel [OF rel] show ?thesis
    by (auto simp: create_soft_link_def lookup_rel a_symlink_def check_if_filename_taken_spec [OF tab(1)]
        add_filename_to_table_def clock_gettime_def Let_def split: option.split)
qed

lemma symlink_refines:
  assumes rel: "fs_rel s a"
    and fresh: "inode_no a (next_index (a_inodes a)) = None"
    and names: "\<And>i. lookup_name (a_names a) name = Some i \<Longrightarrow> inode_no a i \<noteq> None"
  shows "refines (create_soft_link (head (inode_table s)) name new_name own grp md s)
    (a_symlink name new_name own grp md a)"
proof (cases "lookup_name (a_names a) name = None \<or> name_in (a_names a) new_name \<or> \<not> length new_name < MAX_FILENAME_LEN")
  case True
  then show ?thesis by (rule symlink_stops [OF rel])
next
  case False
  then obtain i where i: "lookup_name (a_names a) name = Some i" "\<not> name_in (a_names a) new_name"
    "length new_name < MAX_FILENAME_LEN" by auto
  then obtain pn where pn: "inode_no a i = Some pn" using names by blast
  let ?hp = "head (inode_table s)" and ?j = "next_index (a_inodes a)"
  define c0 where "c0 = new_inode ?j F_SYMLINK own grp 0 md 0 (a_now a) (a_now a) (a_now a)"
  define b where "b = symlink_added ?j new_name c0 a"
  have c0: "index c0 = ?j" by (simp add: c0_def)
  have "a_inodes a \<noteq> []" using pn by auto
  from symlink_add [OF rel i this c0_def] obtain it ft s3 where
    s3: "add_inode (inode_table s) F_SYMLINK own grp 0 md 0 (a_now a) (a_now a) (a_now a) = Ret (SUCCESS, ?j, it)"
      "add_filename_to_table (filename_table s) new_name ?j = Ret (SUCCESS, ft)"
      "s3 = s\<lparr>ticks := Suc (ticks s), inode_table := it, filename_table := ft\<rparr>" "fs_rel s3 b" "head (inode_table s3) = ?hp"
    unfolding b_def by metis
  have ib: "a_inodes b = a_inodes a @ [c0]" by (simp add: b_def symlink_added_def a_tick_def)
  have "i \<noteq> ?j" using pn fresh by auto
  then have pb: "inode_no b i = Some pn" "i \<noteq> index c0" "\<forall>x\<in>set (a_inodes a). index x \<noteq> index c0"
    using pn fresh c0 by (auto simp: ib find_last find_None_iff)
  obtain p c s4 s5 n m bs cs where L: "find_inode ?hp i s3 = Ret (Some p)"
    "upd_inode (set_atim (a_now b)) p (s3\<lparr>ticks := Suc (ticks s3)\<rparr>) = Ret s4"
    "find_inode ?hp ?j s4 = Ret (Some c)" "upd_inode (\<lambda>n. n\<lparr>ref_count := ref_count n + 1\<rparr>) c s4 = Ret s5"
    "load_inode p s5 = Ret n" "st_size (stat n) = st_size (stat pn)" "data_blocks n = data_blocks pn"
    "load_inode c s5 = Ret m" "strip m = c0\<lparr>ref_count := ref_count c0 + 1\<rparr>"
    "focus s5 (a_upd_inode ?j (\<lambda>n. n\<lparr>ref_count := ref_count n + 1\<rparr>) (a_upd_inode i (set_atim (a_now b)) (a_tick b)))
      c bs (c0\<lparr>ref_count := ref_count c0 + 1\<rparr>) cs"
    by (rule link_child [OF s3(4) ib pb(3,1,2), unfolded s3(5) c0])
  from rel have tab: "table_is (filename_table s) (a_names a)" by (simp add: fs_rel_def)
  have "create_soft_link ?hp name new_name own grp md s = copy_content p c s5"
    using i rel s3 L(1-4) now_rel [OF rel] now_rel [OF s3(4)]
    by (simp add: create_soft_link_def copy_content_def lookup_rel check_if_filename_taken_spec [OF tab]
        clock_gettime_def Let_def flip: s3(3) cong: if_cong)
  with copy_refines [OF L(10,8,9,5-7)] a_symlink_copy [OF i pn fresh refl c0_def b_def] show ?thesis by simp
qed

subsection \<open>Unlinking\<close>

definition a_unlink :: "byte list \<Rightarrow> afs \<Rightarrow> (status \<times> afs) outcome" where
  "a_unlink name a = (case lookup_name (a_names a) name of
     None \<Rightarrow> Ret (FILE_NOT_FOUND, a)
   | Some i \<Rightarrow> (case inode_no a i of
       None \<Rightarrow> Ret (FAILURE, a)
     | Some n \<Rightarrow>
         (let rest = del_first (\<lambda>x. filename x = name) (a_names a)
          in if ref_count n = 1
             then obind (free_blocks (data_blocks n) (data_block_table (a_disk a))) (\<lambda>t.
               Ret (SUCCESS, (a_tick a)\<lparr>a_names := rest, a_inodes := del_first (\<lambda>n. index n = i) (a_inodes a),
                 a_disk := (a_disk a)\<lparr>data_block_table := t\<rparr>\<rparr>))
             else Ret (SUCCESS, (a_upd_inode i
                 (\<lambda>n. (set_ctim (a_now a) (set_atim (a_now a) n))\<lparr>ref_count := ref_count n - 1\<rparr>) (a_tick a))
                 \<lparr>a_names := rest\<rparr>))))"

text \<open>
  \<open>unlink_safe name a\<close>: the name is not the first one of the list, and when it is the last link its
  inode is not the first one either.
\<close>

definition unlink_safe :: "byte list \<Rightarrow> afs \<Rightarrow> bool" where
  "unlink_safe name a \<longleftrightarrow> (a_names a \<noteq> [] \<longrightarrow> filename (hd (a_names a)) \<noteq> name) \<and>
     (case lookup_name (a_names a) name of None \<Rightarrow> True
      | Some i \<Rightarrow> (case inode_no a i of None \<Rightarrow> True
         | Some n \<Rightarrow> ref_count n = 1 \<longrightarrow> index (hd (a_inodes a)) \<noteq> i))"

lemma remove_name_safe:
  assumes "table_is t xs" and "name_in xs name" and "filename (hd xs) \<noteq> name"
  obtains t' where "remove_filename_from_table t name = Ret (SUCCESS, t')"
    "table_is t' (del_first (\<lambda>x. filename x = name) xs)"
proof -
  from assms(2) obtain y ys where xs: "xs = y # ys" by (cases xs) auto
  with assms have "table_is t (y # ys)" "filename y \<noteq> name" "name_in ys name" by auto
  from remove_filename_later [OF this] obtain t' where
    "remove_filename_from_table t name = Ret (SUCCESS, t')"
    "table_is t' (y # del_first (\<lambda>x. filename x = name) ys)" by blast
  with xs \<open>filename y \<noteq> name\<close> show thesis by (intro that [of t']) simp_all
qed

text \<open>
  The call up to the loss of the link, and what is left of it then: the last link of an inode frees
  its blocks and its cell, and the name goes.
\<close>

abbreviation release :: "timespec \<Rightarrow> inode_t \<Rightarrow> inode_t" where
  "release t n \<equiv> (set_ctim t (set_atim t n))\<lparr>ref_count := ref_count n - 1\<rparr>"

abbreviation finish_unlink :: "byte list \<Rightarrow> inode_t \<Rightarrow> nat \<Rightarrow> fs \<Rightarrow> (status \<times> fs) outcome" where
  "finish_unlink name x p s \<equiv>
     obind (if ref_count x = 1
            then obind (free_blocks (data_blocks x) (data_block_table (data_disk s))) (\<lambda>t.
                 obind (unlink_cell p (cells (inode_table s))) (\<lambda>h.
                 Ret (s\<lparr>data_disk := (data_disk s)\<lparr>data_block_table := t\<rparr>,
                        inode_table := (inode_table s)\<lparr>cells := h\<rparr>\<rparr>)))
            else Ret s) (\<lambda>s3.
     obind (remove_filename_from_table (filename_table s3) name) (\<lambda>(st', ft).
       Ret (if status_code st' = -1 then FAILURE else SUCCESS, s3\<lparr>filename_table := ft\<rparr>)))"

lemma unlink_run:
  assumes rel: "fs_rel s a" and i: "lookup_name (a_names a) name = Some i" and ino: "inode_no a i = Some x"
  obtains s2 p bs cs where "focus s2 (a_upd_inode i (release (a_now a)) (a_tick a)) p bs (release (a_now a) x) cs"
    "index x = i" "a_inodes a = bs @ x # cs" "\<forall>y\<in>set bs. index y \<noteq> i"
    "unlink_inode (head (inode_table s)) name s = finish_unlink name x p s2"
proof -
  obtain p bs cs where p: "find_inode (head (inode_table s)) i s = Ret (Some p)" "focus s a p bs x cs" "index x = i"
    by (rule find_inode_found [OF rel ino])
  let ?f = "release (a_now a)"
  obtain s2 where s2: "upd_inode ?f p (s\<lparr>ticks := Suc (ticks s)\<rparr>) = Ret s2"
    "focus s2 (a_upd_inode (index x) ?f (a_tick a)) p bs (?f x) cs"
    "data_disk s2 = data_disk (s\<lparr>ticks := Suc (ticks s)\<rparr>)" by (rule touch [OF p(2), of ?f]) simp
  obtain n where n: "load_inode p s2 = Ret n" "strip n = ?f x" by (rule focus_load [OF s2(2)])
  have nr: "ref_count n = ref_count x - 1" "data_blocks n = data_blocks x"
    using n(2) inode_strip(7,8) [of n] by (simp_all add: set_atim_def set_ctim_def)
  have dk: "data_disk s2 = a_disk a" using s2(3) rel by (simp add: fs_rel_def)
  show thesis
  proof (rule that)
    show "focus s2 (a_upd_inode i ?f (a_tick a)) p bs (?f x) cs" using s2(2) p(3) by simp
  qed (use i p s2(1) n(1) nr rel now_rel [OF rel] dk in
      \<open>simp_all add: unlink_inode_def lookup_rel clock_gettime_def focus_def cong: if_cong\<close>)
qed

lemma unlink_refines:
  assumes rel: "fs_rel s a" and safe: "unlink_safe name a"
  shows "refines (unlink_inode (head (inode_table s)) name s) (a_unlink name a)"
proof (cases "lookup_name (a_names a) name")
  case None
  with rel show ?thesis by (simp add: unlink_inode_def lookup_rel a_unlink_def)
next
  case i: (Some i)
  then have nin: "name_in (a_names a) name" using lookup_name_None [of "a_names a" name] by auto
  with safe have nhd: "filename (hd (a_names a)) \<noteq> name" by (auto simp: unlink_safe_def)
  show ?thesis
  proof (cases "inode_no a i")
    case None
    with i rel show ?thesis by (simp add: unlink_inode_def lookup_rel a_unlink_def find_inode_missing)
  next
    case (Some x)
    obtain s2 p bs cs where foc: "focus s2 (a_upd_inode i (release (a_now a)) (a_tick a)) p bs (release (a_now a) x) cs"
      and ix: "index x = i" "a_inodes a = bs @ x # cs" "\<forall>y\<in>set bs. index y \<noteq> i"
      and run: "unlink_inode (head (inode_table s)) name s = finish_unlink name x p s2" by (rule unlink_run [OF rel i Some])
    have tab: "table_is (filename_table s2) (a_names a)" using focus_rel [OF foc] by (simp add: fs_rel_def a_upd_inode_def)
    obtain ft where ft: "remove_filename_from_table (filename_table s2) name = Ret (SUCCESS, ft)"
      "table_is ft (del_first (\<lambda>x. filename x = name) (a_names a))"
      by (rule remove_name_safe [OF tab nin nhd])
    have dk: "data_disk s2 = a_disk a" using focus_rel [OF foc] by (simp add: fs_rel_def a_upd_inode_def)
    show ?thesis
    proof (cases "ref_count x = 1")
      case False
      then show ?thesis using i Some ft focus_rel [OF foc]
        by (simp add: run a_unlink_def Let_def fs_rel_def)
    next
      case True
      with safe i Some ix have "bs \<noteq> []" by (auto simp: unlink_safe_def)
      moreover have "cell_at (inode_table s2) p bs (release (a_now a) x) cs" using foc by (simp add: focus_def)
      ultimately obtain h where h: "unlink_cell p (cells (inode_table s2)) = Ret h"
        "table_is ((inode_table s2)\<lparr>cells := h\<rparr>) (bs @ cs)" using cell_at_unlink by blast
      have del: "del_first (\<lambda>n. index n = i) (a_inodes a) = bs @ cs"
        using ix by (auto simp: del_first_append)
      show ?thesis
        by (cases "free_blocks (data_blocks x) (data_block_table (a_disk a))")
          (use i Some ft h del True dk focus_rel [OF foc] in
            \<open>simp_all add: run a_unlink_def Let_def fs_rel_def a_upd_inode_def a_tick_def\<close>)
    qed
  qed
qed

text \<open>Unlinking the first name: the cell is freed while the head still points at it.\<close>

lemma unlink_oldest:
  assumes rel: "fs_rel s a" and ns: "a_names a = e # es" and ino: "inode_no a (node_index e) = Some x"
    and free: "ref_count x = 1 \<Longrightarrow> free_blocks (data_blocks x) (data_block_table (a_disk a)) = Ret t"
  obtains s' p where "unlink_inode (head (inode_table s)) (filename e) s = Ret (SUCCESS, s')"
    "head (filename_table s') = Some p" "cells (filename_table s') p = None"
proof -
  have i: "lookup_name (a_names a) (filename e) = Some (node_index e)" by (simp add: ns)
  obtain s2 p bs cs where foc: "focus s2 (a_upd_inode (node_index e) (release (a_now a)) (a_tick a)) p bs
      (release (a_now a) x) cs"
    and run: "unlink_inode (head (inode_table s)) (filename e) s = finish_unlink (filename e) x p s2" by (rule unlink_run [OF rel i ino])
  have "table_is (filename_table s2) (e # es)" using focus_rel [OF foc] ns by (simp add: fs_rel_def a_upd_inode_def)
  then obtain ft q where ft: "remove_filename_from_table (filename_table s2) (filename e) = Ret (SUCCESS, ft)"
    "head ft = Some q" "cells ft q = None" by (rule remove_filename_first)
  have c: "cell_at (inode_table s2) p bs (release (a_now a) x) cs" using foc by (simp add: focus_def)
  obtain h where h: "unlink_cell p (cells (inode_table s2)) = Ret h"
    using cell_at_unlink [OF c] cell_at_unlink_first [of "inode_table s2" p "release (a_now a) x" cs] c by (cases "bs = []") auto
  have dk: "data_disk s2 = a_disk a" using focus_rel [OF foc] by (simp add: fs_rel_def a_upd_inode_def)
  let ?s3 = "if ref_count x = 1
    then s2\<lparr>data_disk := (a_disk a)\<lparr>data_block_table := t\<rparr>, inode_table := (inode_table s2)\<lparr>cells := h\<rparr>\<rparr> else s2"
  have "unlink_inode (head (inode_table s)) (filename e) s = Ret (SUCCESS, ?s3\<lparr>filename_table := ft\<rparr>)"
    using free h ft(1) dk by (simp add: run)
  with ft(2,3) show thesis by (intro that [of "?s3\<lparr>filename_table := ft\<rparr>" q]) simp_all
qed

end
