(* ===== verification/Machine.thy ===== *)
theory Machine
  imports Prelude
begin

text \<open>
  Machines that run a list of operations, with the two facts a component needs about them: an
  invariant that every operation keeps under its guard holds after every run, and a simulation of
  single operations is a simulation of runs. A run stops at the first operation that is undefined,
  exits or diverges.
\<close>

fun run_ops :: "('o \<Rightarrow> 's \<Rightarrow> ('r \<times> 's) outcome) \<Rightarrow> 'o list \<Rightarrow> 's \<Rightarrow> ('r list \<times> 's) outcome" where
  "run_ops step [] s = Ret ([], s)"
| "run_ops step (op # ops) s =
     obind (step op s) (\<lambda>(r, s'). obind (run_ops step ops s') (\<lambda>(rs, s''). Ret (r # rs, s'')))"

lemma run_ops_append:
  "run_ops step (xs @ ys) s = obind (run_ops step xs s) (\<lambda>(r1, s'). obind (run_ops step ys s') (\<lambda>(r2, s''). Ret (r1 @ r2, s'')))"
proof (induction xs arbitrary: s)
  case Nil
  show ?case by (cases "run_ops step ys s") auto
next
  case (Cons x xs)
  show ?case
  proof (cases "step x s")
    case (Ret p)
    obtain r t where p: "p = (r, t)" by (cases p)
    show ?thesis using Ret p Cons.IH [of t]
      by (cases "run_ops step xs t"; cases "run_ops step ys (snd p)") (auto simp: case_prod_beta intro: obind_cong)
  qed auto
qed

text \<open>The guard holds before every operation of the run.\<close>

fun guarded :: "('o \<Rightarrow> 's \<Rightarrow> ('r \<times> 's) outcome) \<Rightarrow> ('o \<Rightarrow> 's \<Rightarrow> bool) \<Rightarrow> 'o list \<Rightarrow> 's \<Rightarrow> bool" where
  "guarded step guard [] s \<longleftrightarrow> True"
| "guarded step guard (op # ops) s \<longleftrightarrow> guard op s \<and>
     (case step op s of Ret (r, s') \<Rightarrow> guarded step guard ops s' | _ \<Rightarrow> True)"

locale machine_invariant =
  fixes step :: "'o \<Rightarrow> 's \<Rightarrow> ('r \<times> 's) outcome" and guard :: "'o \<Rightarrow> 's \<Rightarrow> bool" and inv :: "'s \<Rightarrow> bool"
  assumes step_inv: "inv s \<Longrightarrow> guard op s \<Longrightarrow> step op s = Ret (r, s') \<Longrightarrow> inv s'"
begin

lemma run_inv: "inv s \<Longrightarrow> guarded step guard ops s \<Longrightarrow> run_ops step ops s = Ret (rs, s') \<Longrightarrow> inv s'"
proof (induction ops arbitrary: s rs)
  case Nil
  then show ?case by simp
next
  case (Cons op ops)
  then obtain r t rs' where "step op s = Ret (r, t)" "run_ops step ops t = Ret (rs', s')"
    by (auto simp: obind_Ret_iff)
  moreover from this(1) Cons.prems have "inv t" by (intro step_inv [of s op r t]) simp_all
  moreover from calculation(1) Cons.prems have "guarded step guard ops t" by simp
  ultimately show ?case using Cons.IH by blast
qed

end

locale machine_refinement = machine_invariant step guard inv
  for step :: "'o \<Rightarrow> 's \<Rightarrow> ('r \<times> 's) outcome" and guard :: "'o \<Rightarrow> 's \<Rightarrow> bool" and inv :: "'s \<Rightarrow> bool" +
  fixes cstep :: "'o \<Rightarrow> 'c \<Rightarrow> ('r \<times> 'c) outcome" and rel :: "'c \<Rightarrow> 's \<Rightarrow> bool"
  assumes simulation: "rel c s \<Longrightarrow> inv s \<Longrightarrow> guard op s \<Longrightarrow>
    rel_outcome (rel_prod (=) rel) (cstep op c) (step op s)"
begin

lemma run_refines:
  "rel c s \<Longrightarrow> inv s \<Longrightarrow> guarded step guard ops s \<Longrightarrow>
   rel_outcome (rel_prod (=) rel) (run_ops cstep ops c) (run_ops step ops s)"
proof (induction ops arbitrary: c s)
  case Nil
  then show ?case by simp
next
  case (Cons op ops)
  from Cons.prems have sim: "rel_outcome (rel_prod (=) rel) (cstep op c) (step op s)"
    by (intro simulation) simp_all
  show ?case
  proof (cases "step op s")
    case (Ret x)
    obtain r s' where x: "x = (r, s')" by (cases x)
    with sim Ret obtain c' where c': "cstep op c = Ret (r, c')" "rel c' s'"
      by (cases "cstep op c") auto
    have "inv s'" using Cons.prems Ret x step_inv by auto
    with Cons.IH [OF c'(2) this] Cons.prems Ret x
    have "rel_outcome (rel_prod (=) rel) (run_ops cstep ops c') (run_ops step ops s')" by simp
    then show ?thesis using c' Ret x
      by (cases "run_ops cstep ops c'"; cases "run_ops step ops s'") auto
  qed (use sim in \<open>cases "cstep op c"; simp\<close>)+
qed

text \<open>A run that comes to an end does so in a state that satisfies the invariant.\<close>

lemma run_reaches:
  assumes "rel c s" "inv s" "guarded step guard ops s" "run_ops cstep ops c = Ret (rs, c')"
  obtains s' where "run_ops step ops s = Ret (rs, s')" "rel c' s'" "inv s'"
proof -
  from run_refines [OF assms(1-3)] assms(4) obtain s' where
    s': "run_ops step ops s = Ret (rs, s')" "rel c' s'"
    by (cases "run_ops step ops s") auto
  with run_inv [OF assms(2,3)] show thesis by (intro that) auto
qed

end

end
