(* ===== verification/Fs_System.thy ===== *)
theory Fs_System
  imports Fs_Links Machine
begin

text \<open>
  The file system as a machine: one constructor of \<open>fs_op\<close> per table operation the service performs
  for a request, \<open>exec_op\<close> runs it on the tables, \<open>spec_op\<close> is its specification. The invariant
  \<open>fs_ok\<close> of specification states says that names are unique and name existing inodes, inode and
  descriptor numbers increase along their lists, every link count is the number of names, and nobody
  opened a file after a writer that still has it open.
\<close>

datatype fs_op =
    OpCreate "byte list" u32 u32 u64
  | OpChmod "byte list" u32
  | OpRename "byte list" "byte list"
  | OpUnlink "byte list"
  | OpOpen "byte list" u32
  | OpRead u32 "byte list" u32
  | OpWrite u32 "byte list" u32
  | OpSeek u32 u32
  | OpClose u32
  | OpStat "byte list"
  | OpLink "byte list" "byte list"
  | OpSymlink "byte list" "byte list" u32 u32 u64

text \<open>Dropping the extra result of an operation.\<close>

definition no_result :: "(status \<times> 'r \<times> 's) outcome \<Rightarrow> (status \<times> 's) outcome" where
  "no_result m = obind m (\<lambda>(st, r, s). Ret (st, s))"

definition exec_op :: "fs_op \<Rightarrow> fs \<Rightarrow> (status \<times> fs) outcome" where
  "exec_op op s = (let hp = head (inode_table s) in case op of
     OpCreate name own grp md \<Rightarrow> no_result (create_file name own grp md s)
   | OpChmod name md \<Rightarrow> chmod_inode hp name md s
   | OpRename old new \<Rightarrow> obind (rename_file (filename_table s) old new) (\<lambda>(st, ft). Ret (st, s\<lparr>filename_table := ft\<rparr>))
   | OpUnlink name \<Rightarrow> unlink_inode hp name s
   | OpOpen name md \<Rightarrow> no_result (open_inode hp 0 name md s)
   | OpRead fd buf sz \<Rightarrow> no_result (read_inode_fd hp fd buf sz s)
   | OpWrite fd buf sz \<Rightarrow> write_inode_fd hp fd buf sz s
   | OpSeek fd off \<Rightarrow> seek_inode_fd hp fd off s
   | OpClose fd \<Rightarrow> close_inode fd s
   | OpStat name \<Rightarrow> no_result (get_file_stat_from_inode hp name s)
   | OpLink name new \<Rightarrow> create_hard_link hp name new s
   | OpSymlink name new own grp md \<Rightarrow> create_soft_link hp name new own grp md s)"

definition spec_op :: "fs_op \<Rightarrow> afs \<Rightarrow> (status \<times> afs) outcome" where
  "spec_op op a = (case op of
     OpCreate name own grp md \<Rightarrow> no_result (a_create name own grp md a)
   | OpChmod name md \<Rightarrow> a_chmod name md a
   | OpRename old new \<Rightarrow> a_rename old new a
   | OpUnlink name \<Rightarrow> a_unlink name a
   | OpOpen name md \<Rightarrow> no_result (a_open 0 name md a)
   | OpRead fd buf sz \<Rightarrow> no_result (a_read fd buf sz a)
   | OpWrite fd buf sz \<Rightarrow> a_write fd buf sz a
   | OpSeek fd off \<Rightarrow> a_seek fd off a
   | OpClose fd \<Rightarrow> a_close fd a
   | OpStat name \<Rightarrow> no_result (a_stat name a)
   | OpLink name new \<Rightarrow> a_link name new a
   | OpSymlink name new own grp md \<Rightarrow> a_symlink name new own grp md a)"

subsection \<open>The invariant\<close>

definition nlinks :: "filename_inode_t list \<Rightarrow> u32 \<Rightarrow> nat" where
  "nlinks ns i = length (filter (\<lambda>e. node_index e = i) ns)"

text \<open>The numbers and the link counts of the inodes.\<close>

definition links :: "inode_t list \<Rightarrow> (u32 \<times> u32) list" where
  "links is = map (\<lambda>n. (index n, ref_count n)) is"

definition names_ok :: "filename_inode_t list \<Rightarrow> (u32 \<times> u32) list \<Rightarrow> bool" where
  "names_ok ns ls \<longleftrightarrow> distinct (map filename ns) \<and> (\<forall>e\<in>set ns. node_index e \<in> fst ` set ls) \<and>
     sorted_wrt (<) (map fst ls) \<and> (\<forall>(i, r)\<in>set ls. r = of_nat (nlinks ns i))"

definition descs_ok :: "descriptor_t list \<Rightarrow> bool" where
  "descs_ok ds \<longleftrightarrow> sorted_wrt (<) (map desc ds) \<and>
     sorted_wrt (\<lambda>d e. d_mode d = WRITE_ONLY \<longrightarrow> d_node_index e \<noteq> d_node_index d) ds"

definition fs_ok :: "afs \<Rightarrow> bool" where
  "fs_ok a \<longleftrightarrow> names_ok (a_names a) (links (a_inodes a)) \<and> descs_ok (a_descs a)"

text \<open>Numbers are left for one more inode, one more descriptor and one more name.\<close>

definition numbers_left :: "afs \<Rightarrow> bool" where
  "numbers_left a \<longleftrightarrow> (a_inodes a = [] \<or> index (last (a_inodes a)) \<noteq> -1) \<and>
     (a_descs a = [] \<or> desc (last (a_descs a)) \<noteq> -1) \<and> length (a_names a) < 4294967295"

lemma index_links: "index ` set is = fst ` set (links is)"
  by (force simp: links_def)

lemma map_fst_links: "map fst (links is) = map index is"
  by (simp add: links_def)

lemma inode_no_iff: "inode_no a i = None \<longleftrightarrow> i \<notin> index ` set (a_inodes a)"
  by (auto simp: find_None_iff)

lemma sorted_lt_last:
  fixes xs :: "u32 list"
  assumes "sorted_wrt (<) xs" "xs \<noteq> []" "last xs \<noteq> -1"
  shows "\<forall>x\<in>set xs. x < last xs + 1"
proof -
  obtain ys y where xs: "xs = ys @ [y]" using assms(2) by (cases xs rule: rev_cases) auto
  have "1 + y \<noteq> 0" using assms(3) xs by (auto simp: add_eq_0_iff)
  then have "y < y + 1" by (simp add: word_less_nat_alt unatSuc add.commute [of y])
  with assms(1) xs show ?thesis by (auto simp: sorted_wrt_append)
qed

lemma next_index_fresh:
  assumes "names_ok ns (links is)" and "is = [] \<or> index (last is) \<noteq> -1"
  shows "\<forall>n\<in>set is. index n < next_index is"
proof (cases "is = []")
  case False
  with assms sorted_lt_last [of "map index is"] show ?thesis
    by (auto simp: names_ok_def map_fst_links next_index_def last_map)
qed simp

lemma next_desc_fresh:
  assumes "descs_ok ds" and "ds = [] \<or> desc (last ds) \<noteq> -1"
  shows "\<forall>d\<in>set ds. desc d < next_desc ds"
proof (cases "ds = []")
  case False
  with assms sorted_lt_last [of "map desc ds"] show ?thesis
    by (auto simp: descs_ok_def next_desc_def last_map)
qed simp

subsection \<open>Preservation: the lists\<close>

lemma links_upd:
  "(\<And>n. index (f n) = index n) \<Longrightarrow> (\<And>n. ref_count (f n) = ref_count n) \<Longrightarrow> links (upd_first P f xs) = links xs"
  by (induction xs) (auto simp: links_def)

lemma links_replace:
  "find (\<lambda>n. index n = i) xs = Some n \<Longrightarrow> index m = i \<Longrightarrow> ref_count m = ref_count n \<Longrightarrow>
   links (upd_first (\<lambda>n. index n = i) (\<lambda>_. m) xs) = links xs"
  by (induction xs) (auto simp: links_def split: if_splits)

lemma links_append [simp]: "links (xs @ [x]) = links xs @ [(index x, ref_count x)]"
  by (simp add: links_def)

lemma nlinks_simps [simp]: "nlinks [] i = 0"
  "nlinks (e # ns) i = (if node_index e = i then Suc (nlinks ns i) else nlinks ns i)"
  "nlinks (ns @ ms) i = nlinks ns i + nlinks ms i"
  by (simp_all add: nlinks_def)

lemma nlinks_0: "\<forall>e\<in>set ns. node_index e \<noteq> i \<Longrightarrow> nlinks ns i = 0"
  by (induction ns) auto

lemma nlinks_le: "nlinks ns i \<le> length ns"
  by (simp add: nlinks_def)

lemma names_okI:
  "distinct (map filename ns) \<Longrightarrow> (\<And>e. e \<in> set ns \<Longrightarrow> node_index e \<in> fst ` set ls) \<Longrightarrow> sorted_wrt (<) (map fst ls) \<Longrightarrow>
   (\<And>i r. (i, r) \<in> set ls \<Longrightarrow> r = of_nat (nlinks ns i)) \<Longrightarrow> names_ok ns ls"
  by (auto simp: names_ok_def)

lemma names_okD:
  assumes "names_ok ns ls"
  shows "distinct (map filename ns)" "\<And>e. e \<in> set ns \<Longrightarrow> node_index e \<in> fst ` set ls" "sorted_wrt (<) (map fst ls)"
    "\<And>i r. (i, r) \<in> set ls \<Longrightarrow> r = of_nat (nlinks ns i)"
  using assms by (auto simp: names_ok_def)

lemma names_ok_create:
  assumes ok: "names_ok ns ls" and new: "\<not> name_in ns name" and j: "\<forall>i\<in>fst ` set ls. i < j"
  shows "names_ok (ns @ [name_entry name j]) (ls @ [(j, 1)])"
proof -
  have "node_index e < j" if "e \<in> set ns" for e using ok j that unfolding names_ok_def by blast
  then have z: "nlinks ns j = 0" by (intro nlinks_0) auto
  show ?thesis
  proof (rule names_okI)
    fix i r assume "(i, r) \<in> set (ls @ [(j, 1)])"
    then consider "(i, r) \<in> set ls" | "i = j" "r = 1" by auto
    then show "r = of_nat (nlinks (ns @ [name_entry name j]) i)"
    proof cases
      case 1
      then have "i < j" using j by force
      with names_okD(4) [OF ok 1] show ?thesis by simp
    qed (simp add: z)
  qed (use names_okD(1-3) [OF ok] new j in \<open>auto simp: sorted_wrt_append\<close>)
qed

lemma names_ok_rename:
  assumes ok: "names_ok ns ls" and new: "\<not> name_in ns new"
  shows "names_ok (upd_first (\<lambda>x. filename x = old) (\<lambda>x. x\<lparr>filename := new\<rparr>) ns) ls"
proof -
  let ?u = "upd_first (\<lambda>x. filename x = old) (\<lambda>x. x\<lparr>filename := new\<rparr>)"
  have ni: "map node_index (?u ns) = map node_index ns" for ns by (induction ns) auto
  have sub: "filename ` set (?u ns) \<subseteq> insert new (filename ` set ns)" for ns by (induction ns) auto
  have "distinct (map filename ns) \<Longrightarrow> \<not> name_in ns new \<Longrightarrow> distinct (map filename (?u ns))"
  proof (induction ns)
    case (Cons e ns)
    then show ?case using sub [of ns] by auto
  qed simp
  moreover have idx: "node_index ` set (?u ns) = node_index ` set ns" using ni [of ns] by (metis set_map)
  have "node_index e \<in> fst ` set ls" if "e \<in> set (?u ns)" for e
  proof -
    from that have "node_index e \<in> node_index ` set ns" unfolding idx [symmetric] by (rule imageI)
    then obtain e' where "e' \<in> set ns" "node_index e = node_index e'" by blast
    with names_okD(2) [OF ok] show ?thesis by simp
  qed
  moreover have "nlinks (?u ns) i = nlinks ns i" for i by (induction ns) auto
  ultimately show ?thesis using names_okD [OF ok] new by (intro names_okI) simp_all
qed

text \<open>One more, or one less, link to the inode \<open>i\<close>.\<close>

definition add_links :: "u32 \<Rightarrow> u32 \<Rightarrow> (u32 \<times> u32) list \<Rightarrow> (u32 \<times> u32) list" where
  "add_links i k ls = map (\<lambda>(j, r). if j = i then (j, r + k) else (j, r)) ls"

lemma map_fst_add_links [simp]: "map fst (add_links i k ls) = map fst ls"
  by (auto simp: add_links_def)

lemma fst_add_links [simp]: "fst ` set (add_links i k ls) = fst ` set ls"
  by (metis map_fst_add_links set_map)

lemma add_links_other: "i \<notin> fst ` set ls \<Longrightarrow> add_links i k ls = ls"
  unfolding add_links_def by (rule map_idI) (auto simp: image_iff)

lemma links_upd_count:
  assumes "\<And>n. index (f n) = index n" and "\<And>n. ref_count (f n) = ref_count n + k" and "distinct (map index xs)"
  shows "links (upd_first (\<lambda>n. index n = i) f xs) = add_links i k (links xs)"
  using assms(3)
proof (induction xs)
  case Nil
  then show ?case by (simp add: links_def add_links_def)
next
  case (Cons x xs)
  have "add_links i k (links xs) = links xs" if "index x = i"
    using that Cons.prems by (intro add_links_other) (auto simp: links_def)
  with Cons assms(1,2) show ?case by (auto simp: links_def add_links_def)
qed

lemma names_ok_distinct: "names_ok ns (links is) \<Longrightarrow> distinct (map index is)"
  by (auto simp: names_ok_def map_fst_links strict_sorted_iff)

lemma names_ok_link:
  assumes ok: "names_ok ns ls" and new: "\<not> name_in ns name" and i: "i \<in> fst ` set ls"
  shows "names_ok (ns @ [name_entry name i]) (add_links i 1 ls)"
proof -
  have "r = of_nat (nlinks (ns @ [name_entry name i]) j)" if jr: "(j, r) \<in> set (add_links i 1 ls)" for j r
  proof -
    from jr obtain q where "(j, q) \<in> set ls" "r = (if j = i then q + 1 else q)"
      by (auto simp: add_links_def split: if_splits)
    moreover from this(1) ok have "q = of_nat (nlinks ns j)" by (auto simp: names_ok_def)
    ultimately show ?thesis by auto
  qed
  with names_okD(1-3) [OF ok] new i show ?thesis by (intro names_okI) (auto intro: rev_image_eqI)
qed

lemma nlinks_del:
  assumes "lookup_name ns name = Some i"
  shows "nlinks ns j = nlinks (del_first (\<lambda>x. filename x = name) ns) j + (if j = i then 1 else 0)"
  using assms by (induction ns) (auto split: if_splits)

lemma distinct_del_first: "distinct (map f xs) \<Longrightarrow> distinct (map f (del_first P xs))"
  using set_del_first_subset by (induction xs) fastforce+

lemma names_ok_unlink:
  assumes ok: "names_ok ns ls" and i: "lookup_name ns name = Some i"
  shows "names_ok (del_first (\<lambda>x. filename x = name) ns) (add_links i (-1) ls)"
proof -
  have "r = of_nat (nlinks (del_first (\<lambda>x. filename x = name) ns) j)" if jr: "(j, r) \<in> set (add_links i (-1) ls)" for j r
  proof -
    from jr obtain q where "(j, q) \<in> set ls" "r = (if j = i then q - 1 else q)"
      by (auto simp: add_links_def split: if_splits)
    moreover from this(1) ok have "q = of_nat (nlinks ns j)" by (auto simp: names_ok_def)
    ultimately show ?thesis using nlinks_del [OF i, of j] by auto
  qed
  moreover have "node_index e \<in> fst ` set ls" if "e \<in> set (del_first (\<lambda>x. filename x = name) ns)" for e
    using that ok set_del_first_subset [of "\<lambda>x. filename x = name" ns] by (auto simp: names_ok_def)
  ultimately show ?thesis using names_okD(1,3) [OF ok] by (intro names_okI) (auto simp: distinct_del_first)
qed

subsection \<open>Preservation: the operations\<close>

lemma descs_ok_open:
  assumes "descs_ok ds" and "\<forall>d\<in>set ds. desc d < fd" and "\<not> writer_open ds i"
  shows "descs_ok (ds @ [desc_entry fd i md 0])"
  using assms by (auto simp: descs_ok_def sorted_wrt_append writer_open_def)

lemma sorted_wrt_del_first: "sorted_wrt R xs \<Longrightarrow> sorted_wrt R (del_first P xs)"
  using set_del_first_subset by (induction xs) fastforce+

lemma map_del_first: "map f (del_first (\<lambda>x. Q (f x)) xs) = del_first Q (map f xs)"
  by (induction xs) auto

lemma descs_ok_close: "descs_ok ds \<Longrightarrow> descs_ok (del_first (\<lambda>d. desc d = fd) ds)"
  using map_del_first [of desc "\<lambda>x. x = fd" ds]
  by (auto simp: descs_ok_def intro: sorted_wrt_del_first)

lemma descs_ok_offset: "descs_ok (upd_first P (\<lambda>d. d\<lparr>d_offset := off\<rparr>) ds) = descs_ok ds"
proof -
  let ?f = "\<lambda>d. (desc d, d_mode d, d_node_index d)" and ?u = "upd_first P (\<lambda>d. d\<lparr>d_offset := off\<rparr>) ds"
  have M: "map ?f ?u = map ?f ds" by (induction ds) auto
  have "descs_ok xs = (sorted_wrt (<) (map fst (map ?f xs)) \<and>
      sorted_wrt (\<lambda>(_, m, i) (_, _, j). m = WRITE_ONLY \<longrightarrow> j \<noteq> i) (map ?f xs))" for xs
    by (simp add: descs_ok_def sorted_wrt_map comp_def)
  from this [of ?u] this [of ds] show ?thesis unfolding M by simp
qed

lemma write_inode_refs:
  assumes "write_inode n buf off sz d = Ret (st, n', off', d')"
  shows "index n' = index n" "ref_count n' = ref_count n"
  using assms by (auto simp: write_inode_def Let_def obind_Ret_iff split: if_splits)

lemma stamp_refs [simp]: "ref_count (set_atim t n) = ref_count n" "ref_count (set_mtim t n) = ref_count n"
  "ref_count (set_ctim t n) = ref_count n"
  by (simp_all add: set_atim_def set_mtim_def set_ctim_def)

lemmas fs_ok_simps = fs_ok_def a_upd_inode_def a_upd_desc_def a_tick_def links_upd descs_ok_offset

lemma no_result_Ret: "no_result m = Ret (st, s) \<longleftrightarrow> (\<exists>r. m = Ret (st, r, s))"
  by (auto simp: no_result_def obind_Ret_iff)

lemma target_inode: "inode_no a i = Some n \<Longrightarrow> i \<in> fst ` set (links (a_inodes a))"
  by (auto simp: find_Some_iff simp flip: index_links intro: rev_image_eqI nth_mem)

lemma create_ok:
  assumes "fs_ok a" "numbers_left a" "a_create name own grp md a = Ret (st, r, a')"
  shows "fs_ok a'"
proof -
  have "\<forall>i\<in>fst ` set (links (a_inodes a)). i < next_index (a_inodes a)"
    using assms(1,2) next_index_fresh by (auto simp: fs_ok_def numbers_left_def simp flip: index_links)
  then have "\<not> name_in (a_names a) name \<Longrightarrow> names_ok (a_names a @ [name_entry name (next_index (a_inodes a))])
      (links (a_inodes a) @ [(next_index (a_inodes a), 1)])"
    using assms(1) by (intro names_ok_create) (simp_all add: fs_ok_def)
  with assms(1,3) show ?thesis
    by (auto simp: fs_ok_simps a_create_def Let_def new_inode_def split: if_splits)
qed

lemma open_ok:
  assumes "fs_ok a" "numbers_left a" "a_open idx name md a = Ret (st, r, a')"
  shows "fs_ok a'"
proof -
  have "\<forall>d\<in>set (a_descs a). desc d < next_desc (a_descs a)"
    using assms(1,2) next_desc_fresh by (auto simp: fs_ok_def numbers_left_def)
  with assms(1,3) show ?thesis
    by (auto simp: fs_ok_simps a_open_def Let_def split: if_splits option.splits intro!: descs_ok_open)
qed

lemma write_ok:
  assumes "fs_ok a" "a_write fd buf sz a = Ret (st, a')"
  shows "fs_ok a'"
proof (cases "desc_no a fd")
  case d: (Some d)
  show ?thesis
  proof (cases "d_mode d = READ_ONLY \<or> inode_no a (d_node_index d) = None")
    case False
    then obtain n where n: "inode_no a (d_node_index d) = Some n" by auto
    let ?n = "set_mtim (a_now a) (set_atim (a_now a) n)"
    from False d n assms(2) obtain n' off' dk where
      w: "write_inode ?n buf (d_offset d) sz (a_disk a) = Ret (st, n', off', dk)"
      and a': "a' = a_upd_desc fd (\<lambda>d. d\<lparr>d_offset := off'\<rparr>)
        (a_upd_inode (d_node_index d) (\<lambda>_. n') ((a_tick a)\<lparr>a_disk := dk\<rparr>))"
      by (auto simp: a_write_def obind_Ret_iff)
    have "index n = d_node_index d" using n by (auto simp: find_Some_iff)
    with write_inode_refs [OF w] have "index n' = d_node_index d" "ref_count n' = ref_count n" by simp_all
    with links_replace [OF n this] assms(1) show ?thesis by (simp add: a' fs_ok_simps)
  qed (use assms d in \<open>auto simp: a_write_def split: if_splits\<close>)
qed (use assms in \<open>simp add: a_write_def\<close>)

lemma read_ok':
  assumes "fs_ok a" "a_read fd buf sz a = Ret (st, r, a')"
  shows "fs_ok a'"
  using assms by (auto simp: fs_ok_simps a_read_def obind_Ret_iff split: option.splits)

lemma link_ok:
  assumes "fs_ok a" "a_link name new a = Ret (st, a')"
  shows "fs_ok a'"
proof (cases "name_in (a_names a) new \<or> inode_no a (target a name) = None")
  case False
  let ?f = "\<lambda>n :: inode_t. set_ctim (a_now a) (set_atim (a_now a) (n\<lparr>ref_count := ref_count n + 1\<rparr>))"
  from False obtain n where n: "inode_no a (target a name) = Some n" by auto
  have ok: "names_ok (a_names a) (links (a_inodes a))" using assms(1) by (simp add: fs_ok_def)
  have "links (upd_first (\<lambda>n. index n = target a name) ?f (a_inodes a)) = add_links (target a name) 1 (links (a_inodes a))"
    by (intro links_upd_count names_ok_distinct [OF ok]) simp_all
  moreover have "names_ok (a_names a @ [name_entry new (target a name)]) (add_links (target a name) 1 (links (a_inodes a)))"
    using False by (intro names_ok_link [OF ok] target_inode [OF n]) simp
  ultimately show ?thesis using assms False n
    by (auto simp: a_link_def Let_def fs_ok_simps split: if_splits)
qed (use assms in \<open>auto simp: a_link_def Let_def split: if_splits option.splits\<close>)

lemma symlink_ok:
  assumes ok: "fs_ok a" and nl: "numbers_left a" and run: "a_symlink name new own grp md a = Ret (st, a')"
  shows "fs_ok a'"
proof (cases "lookup_name (a_names a) name = None \<or> name_in (a_names a) new")
  case True
  with ok run show ?thesis by (auto simp: a_symlink_def split: option.splits if_splits)
next
  case False
  then obtain i where i: "lookup_name (a_names a) name = Some i" and new: "\<not> name_in (a_names a) new" by auto
  let ?t = "a_now a" and ?j = "next_index (a_inodes a)"
  let ?child = "new_inode ?j F_SYMLINK own grp 1 md 0 ?t ?t ?t"
  let ?a3 = "(a_tick a)\<lparr>a_inodes := a_inodes a @ [?child], a_names := a_names a @ [name_entry new ?j]\<rparr>"
  let ?a4 = "a_upd_inode i (set_atim (a_now ?a3)) (a_tick ?a3)"
  have j: "\<forall>n\<in>set (a_inodes a). index n < ?j"
    using ok nl next_index_fresh by (auto simp: fs_ok_def numbers_left_def)
  then have "names_ok (a_names a @ [name_entry new ?j]) (links (a_inodes a) @ [(?j, 1)])"
    using ok new by (intro names_ok_create) (auto simp: fs_ok_def simp flip: index_links)
  then have ok4: "fs_ok ?a4"
    using ok by (simp add: fs_ok_simps new_inode_def)
  from run i new obtain pn where pn: "inode_no a i = Some pn"
    by (auto simp: a_symlink_def split: option.splits if_splits)
  have child: "inode_no ?a4 ?j = Some (if ?j = i then set_atim (a_now ?a3) ?child else ?child)"
  proof -
    have ij: "index pn = i" "pn \<in> set (a_inodes a)" using pn by (auto simp: find_Some_iff)
    with j have "i < ?j" by auto
    have "a_inodes ?a4 = upd_first (\<lambda>n. index n = i) (set_atim (a_now ?a3)) (a_inodes a) @ [?child]"
      using ij by (auto simp: a_upd_inode_def upd_first_append)
    moreover have "\<forall>x\<in>set (upd_first (\<lambda>n. index n = i) (set_atim (a_now ?a3)) (a_inodes a)). index x \<noteq> ?j"
      using j by (intro not_index_upd_first) auto
    then have "find (\<lambda>n. index n = ?j) (upd_first (\<lambda>n. index n = i) (set_atim (a_now ?a3)) (a_inodes a)) = None"
      by (auto simp: find_None_iff)
    ultimately show ?thesis using \<open>i < ?j\<close> by (simp add: find_last new_inode_def)
  qed
  from run i new pn consider "a' = ?a4"
    | buf z st' c' o' dk where "write_inode ?child buf 0 z (a_disk a) = Ret (st', c', o', dk)"
        "a' = a_upd_inode ?j (\<lambda>_. c') (?a4\<lparr>a_disk := dk\<rparr>)"
    by (auto simp: a_symlink_def Let_def obind_Ret_iff split: if_splits)
  then show ?thesis
  proof cases
    case 1
    with ok4 show ?thesis by simp
  next
    case 2
    from write_inode_refs [OF 2(1)] have c: "index c' = ?j" "ref_count c' = 1" by (simp_all add: new_inode_def)
    have "links (upd_first (\<lambda>n. index n = ?j) (\<lambda>_. c') (a_inodes ?a4)) = links (a_inodes ?a4)"
      by (rule links_replace [OF child c(1)]) (simp add: c(2) new_inode_def)
    with ok4 show ?thesis by (simp add: 2(2) fs_ok_def a_upd_inode_def)
  qed
qed

lemma links_del_first:
  "links (del_first (\<lambda>n. index n = i) is) = del_first (\<lambda>(j, _). j = i) (links is)"
  by (induction "is") (auto simp: links_def)

lemma names_ok_drop:
  assumes ok: "names_ok ns ls" and none: "\<forall>e\<in>set ns. node_index e \<noteq> i"
  shows "names_ok ns (del_first (\<lambda>(j, _). j = i) ls)"
proof (rule names_okI)
  have "map fst (del_first (\<lambda>(j, _). j = i) ls) = del_first (\<lambda>j. j = i) (map fst ls)" for ls :: "(u32 \<times> u32) list"
    by (induction ls) auto
  then show "sorted_wrt (<) (map fst (del_first (\<lambda>(j, _). j = i) ls))"
    using names_okD(3) [OF ok] by (simp add: sorted_wrt_del_first)
next
  fix e assume e: "e \<in> set ns"
  have keep: "k \<in> fst ` set ls \<Longrightarrow> k \<noteq> i \<Longrightarrow> k \<in> fst ` set (del_first (\<lambda>(j, _). j = i) ls)" for k
    by (induction ls) auto
  from names_okD(2) [OF ok e] none e show "node_index e \<in> fst ` set (del_first (\<lambda>(j, _). j = i) ls)"
    by (intro keep) auto
next
  fix j r assume "(j, r) \<in> set (del_first (\<lambda>(j, _). j = i) ls)"
  then have "(j, r) \<in> set ls" using set_del_first_subset by fast
  then show "r = of_nat (nlinks ns j)" by (rule names_okD(4) [OF ok])
qed (rule names_okD(1) [OF ok])

lemma del_add_links: "del_first (\<lambda>(j, _). j = i) (add_links i k ls) = del_first (\<lambda>(j, _). j = i) ls"
  if "distinct (map fst ls)"
  using that
proof (induction ls)
  case (Cons x ls)
  obtain j r where x: "x = (j, r)" by (cases x)
  show ?case
  proof (cases "j = i")
    case True
    with Cons.prems x have "i \<notin> fst ` set ls" by simp
    with True x show ?thesis using add_links_other [of i ls k] by (simp add: add_links_def)
  next
    case False
    with Cons x show ?thesis by (simp add: add_links_def)
  qed
qed (simp add: add_links_def)

lemma unlink_ok:
  assumes ok: "fs_ok a" and nl: "numbers_left a" and run: "a_unlink name a = Ret (st, a')"
  shows "fs_ok a'"
proof (cases "lookup_name (a_names a) name")
  case None
  with ok run show ?thesis by (simp add: a_unlink_def)
next
  case i: (Some i)
  have nok: "names_ok (a_names a) (links (a_inodes a))" and dok: "descs_ok (a_descs a)"
    using ok by (simp_all add: fs_ok_def)
  show ?thesis
  proof (cases "inode_no a i")
    case None
    with ok run i show ?thesis by (simp add: a_unlink_def)
  next
    case (Some n)
    let ?rest = "del_first (\<lambda>x. filename x = name) (a_names a)"
    let ?f = "\<lambda>n. (set_ctim (a_now a) (set_atim (a_now a) n))\<lparr>ref_count := ref_count n - 1\<rparr>"
    have less: "names_ok ?rest (add_links i (-1) (links (a_inodes a)))" by (rule names_ok_unlink [OF nok i])
    show ?thesis
    proof (cases "ref_count n = 1")
      case False
      have "links (upd_first (\<lambda>n. index n = i) ?f (a_inodes a)) = add_links i (-1) (links (a_inodes a))"
        by (intro links_upd_count names_ok_distinct [OF nok]) simp_all
      with less dok run i Some False show ?thesis
        by (auto simp: a_unlink_def Let_def fs_ok_simps)
    next
      case True
      have n: "index n = i" "n \<in> set (a_inodes a)" using Some by (auto simp: find_Some_iff)
      then have "(i, 1) \<in> set (links (a_inodes a))" using True by (force simp: links_def)
      then have "(of_nat (nlinks (a_names a) i) :: u32) = 1" using names_okD(4) [OF nok] by metis
      moreover have "nlinks (a_names a) i < 4294967296"
        using nlinks_le [of "a_names a" i] nl by (simp add: numbers_left_def)
      ultimately have "nlinks (a_names a) i = 1" using unat_of_nat_u32 by (metis unsigned_1)
      then have "nlinks ?rest i = 0" using nlinks_del [OF i, of i] by simp
      then have none: "\<forall>e\<in>set ?rest. node_index e \<noteq> i" by (simp add: nlinks_def filter_empty_conv)
      have "distinct (map fst (links (a_inodes a)))" using names_ok_distinct [OF nok] by (simp add: map_fst_links)
      with names_ok_drop [OF less none] have
        "names_ok ?rest (links (del_first (\<lambda>n. index n = i) (a_inodes a)))"
        by (simp add: links_del_first del_add_links)
      with dok run i Some True show ?thesis
        by (auto simp: a_unlink_def Let_def fs_ok_def a_tick_def obind_Ret_iff)
    qed
  qed
qed

lemma stat_ok: "fs_ok a \<Longrightarrow> a_stat name a = Ret (st, r, a') \<Longrightarrow> fs_ok a'"
  by (auto simp: a_stat_def fs_ok_simps Let_def split: option.splits)

lemma chmod_ok: "fs_ok a \<Longrightarrow> a_chmod name md a = Ret (st, a') \<Longrightarrow> fs_ok a'"
  by (auto simp: a_chmod_def fs_ok_simps split: option.splits)

lemma seek_ok: "fs_ok a \<Longrightarrow> a_seek fd off a = Ret (st, a') \<Longrightarrow> fs_ok a'"
  by (auto simp: a_seek_def fs_ok_simps split: option.splits if_splits)

lemma close_ok: "fs_ok a \<Longrightarrow> a_close fd a = Ret (st, a') \<Longrightarrow> fs_ok a'"
  by (auto simp: a_close_def fs_ok_def descs_ok_close split: if_splits)

lemma rename_ok: "fs_ok a \<Longrightarrow> a_rename old new a = Ret (st, a') \<Longrightarrow> fs_ok a'"
  by (auto simp: a_rename_def fs_ok_def names_ok_rename split: if_splits)

lemma spec_op_ok:
  assumes "fs_ok a" "numbers_left a" "spec_op op a = Ret (st, a')"
  shows "fs_ok a'"
proof -
  note rules = create_ok [OF assms(1,2)] open_ok [OF assms(1,2)] symlink_ok [OF assms(1,2)] unlink_ok [OF assms(1,2)]
    read_ok' [OF assms(1)] write_ok [OF assms(1)] link_ok [OF assms(1)] stat_ok [OF assms(1)] chmod_ok [OF assms(1)]
    seek_ok [OF assms(1)] close_ok [OF assms(1)] rename_ok [OF assms(1)]
  show ?thesis using assms(3) by (cases op) (auto simp: spec_op_def no_result_Ret dest: rules)
qed

text \<open>
  An operation is \<open>op_safe\<close> when it does not free the cell at the head of a list. Every safe operation
  of a state that satisfies the invariant implements its specification.
\<close>

definition op_safe :: "fs_op \<Rightarrow> afs \<Rightarrow> bool" where
  "op_safe op a \<longleftrightarrow> (case op of OpUnlink name \<Rightarrow> unlink_safe name a | _ \<Rightarrow> True)"

lemma no_result_refines: "refines' m m' \<Longrightarrow> refines (no_result m) (no_result m')"
  by (cases m; cases m') (auto simp: no_result_def)

lemma exec_refines:
  assumes rel: "fs_rel s a" and ok: "fs_ok a" and nl: "numbers_left a" and safe: "op_safe op a"
  shows "refines (exec_op op s) (spec_op op a)"
proof -
  have idx: "inode_no a (next_index (a_inodes a)) = None"
    using ok nl next_index_fresh unfolding inode_no_iff by (fastforce simp: fs_ok_def numbers_left_def)
  have named: "inode_no a i \<noteq> None" if "lookup_name (a_names a) name = Some i" for name i
  proof -
    from that have "i \<in> node_index ` set (a_names a)"
      by (auto simp: lookup_name_def find_Some_iff image_iff)
    then have "i \<in> fst ` set (links (a_inodes a))" using ok names_okD(2) by (auto simp: fs_ok_def)
    then show ?thesis by (simp add: inode_no_iff index_links)
  qed
  note simps = exec_op_def spec_op_def Let_def
  show ?thesis
  proof (cases op)
    case (OpSymlink name new own grp md)
    then show ?thesis by (simp add: simps symlink_refines [OF rel idx named])
  next
    case (OpUnlink name)
    with safe show ?thesis by (simp add: simps op_safe_def unlink_refines [OF rel])
  qed (simp_all add: simps no_result_refines create_refines [OF rel] chmod_refines [OF rel] rename_refines [OF rel]
      open_refines [OF rel] read_refines [OF rel] write_refines [OF rel] seek_refines [OF rel] close_refines [OF rel]
      stat_refines [OF rel] link_refines [OF rel])
qed

subsection \<open>Runs\<close>

definition fs_guard :: "fs_op \<Rightarrow> afs \<Rightarrow> bool" where
  "fs_guard op a \<longleftrightarrow> numbers_left a \<and> op_safe op a"

interpretation fs: machine_refinement spec_op fs_guard fs_ok exec_op fs_rel
  by unfold_locales (auto simp: fs_guard_def intro: spec_op_ok exec_refines)

text \<open>The tables at the first start of the service.\<close>

definition fs_start :: "string \<Rightarrow> (nat \<Rightarrow> timespec) \<Rightarrow> fs" where
  "fs_start dir clk = \<lparr>inode_table = empty_table, descriptor_table = empty_table, filename_table = empty_table,
     data_disk = blank_disk dir, clock = clk, ticks = 0\<rparr>"

definition a_start :: "string \<Rightarrow> (nat \<Rightarrow> timespec) \<Rightarrow> afs" where
  "a_start dir clk = \<lparr>a_names = [], a_descs = [], a_inodes = [], a_disk = blank_disk dir, a_clock = clk, a_ticks = 0\<rparr>"

lemma start_rel: "fs_rel (fs_start dir clk) (a_start dir clk)"
  by (simp add: fs_rel_def fs_start_def a_start_def table_is_empty)

lemma start_ok: "fs_ok (a_start dir clk)"
  by (simp add: fs_ok_def a_start_def names_ok_def descs_ok_def links_def)

lemma reached:
  assumes "guarded spec_op fs_guard ops (a_start dir clk)" "run_ops exec_op ops (fs_start dir clk) = Ret (sts, s)"
  obtains a where "run_ops spec_op ops (a_start dir clk) = Ret (sts, a)" "fs_rel s a" "fs_ok a"
  using fs.run_reaches [OF start_rel start_ok assms] by blast

text \<open>A small run for the witnesses.\<close>

abbreviation (input) noon :: "nat \<Rightarrow> timespec" where
  "noon \<equiv> \<lambda>n. \<lparr>tv_sec = 43200, tv_nsec = of_nat n\<rparr>"

definition demo_ops :: "fs_op list" where
  "demo_ops = [OpCreate [65] 1000 1000 420, OpLink [65] [66], OpOpen [66] 1, OpOpen [65] 0, OpCreate [67] 0 0 0, OpUnlink [66]]"

end
