(* ===== verification/Fs_Props.thy ===== *)
theory Fs_Props
  imports Fs_System
begin

text \<open>
  The properties of the file system tables of \<^verbatim>\<open>service/inode.c\<close>: what every run of operations from
  the first start keeps, and where single operations go wrong.
\<close>

lemmas op_eval = spec_op_def no_result_def fs_guard_def op_safe_def unlink_safe_def numbers_left_def
  a_create_def a_link_def a_open_def a_unlink_def a_upd_inode_def a_tick_def a_now_def Let_def
  new_inode_def next_index_def next_desc_def writer_open_def target_def set_atim_def set_ctim_def a_start_def

lemma demo_guarded: "guarded spec_op fs_guard demo_ops (a_start ''/r'' noon)"
  by (simp add: demo_ops_def op_eval)

lemma demo_spec_run: "\<exists>a. run_ops spec_op demo_ops (a_start ''/r'' noon) =
  Ret ([SUCCESS, SUCCESS, SUCCESS, DOUBLE_WRITE, SUCCESS, SUCCESS], a)"
  by (simp add: demo_ops_def op_eval)

lemma demo_run:
  obtains s where "run_ops exec_op demo_ops (fs_start ''/r'' noon) =
    Ret ([SUCCESS, SUCCESS, SUCCESS, DOUBLE_WRITE, SUCCESS, SUCCESS], s)"
  using fs.run_refines [OF start_rel start_ok demo_guarded] demo_spec_run
  by (cases "run_ops exec_op demo_ops (fs_start ''/r'' noon)") auto

text \<open> C2. The tables implement their specification: a run of any operations from the first start of
  the service, none of which frees the first cell of a list, gives the same statuses as the run of the
  specification on plain lists, ends in related tables, and is undefined or exits only where the
  specification does. \<close>

theorem tables_implement_spec:
  assumes "guarded spec_op fs_guard ops (a_start dir clk)"
  shows "rel_outcome (rel_prod (=) fs_rel) (run_ops exec_op ops (fs_start dir clk)) (run_ops spec_op ops (a_start dir clk))"
  by (rule fs.run_refines [OF start_rel start_ok assms])

theorem tables_implement_spec_witness:
  "\<exists>s. run_ops exec_op demo_ops (fs_start ''/r'' noon) =
    Ret ([SUCCESS, SUCCESS, SUCCESS, DOUBLE_WRITE, SUCCESS, SUCCESS], s)"
  using tables_implement_spec [OF demo_guarded] demo_spec_run
  by (cases "run_ops exec_op demo_ops (fs_start ''/r'' noon)") auto

text \<open> C9. Names and link counts: in every state such a run reaches the file names are distinct, every
  name belongs to an inode of the table, inode numbers are distinct, and the link count of every inode
  is the number of its names. \<close>

theorem link_counts_are_names:
  assumes "guarded spec_op fs_guard ops (a_start dir clk)"
    and "run_ops exec_op ops (fs_start dir clk) = Ret (sts, s)"
  shows "\<exists>ns is. table_is (filename_table s) ns \<and> table_is (inode_table s) is \<and>
    distinct (map filename ns) \<and> (\<forall>e\<in>set ns. node_index e \<in> index ` set is) \<and> distinct (map index is) \<and>
    (\<forall>n\<in>set is. ref_count n = of_nat (length (filter (\<lambda>e. node_index e = index n) ns)))"
proof (rule reached [OF assms])
  fix a assume rel: "fs_rel s a" and ok: "fs_ok a"
  have n: "names_ok (a_names a) (links (a_inodes a))" using ok by (simp add: fs_ok_def)
  have "ref_count x = of_nat (nlinks (a_names a) (index x))" if "x \<in> set (a_inodes a)" for x
    using that by (intro names_okD(4) [OF n]) (auto simp: links_def)
  with names_okD(1,2) [OF n] names_ok_distinct [OF n] rel show ?thesis
    unfolding fs_rel_def index_links nlinks_def by blast
qed

theorem link_counts_are_names_witness:
  "\<exists>s ns is. run_ops exec_op demo_ops (fs_start ''/r'' noon) =
      Ret ([SUCCESS, SUCCESS, SUCCESS, DOUBLE_WRITE, SUCCESS, SUCCESS], s) \<and>
    table_is (filename_table s) ns \<and> table_is (inode_table s) is \<and> distinct (map filename ns)"
proof (rule demo_run)
  fix s assume "run_ops exec_op demo_ops (fs_start ''/r'' noon) =
      Ret ([SUCCESS, SUCCESS, SUCCESS, DOUBLE_WRITE, SUCCESS, SUCCESS], s)"
  with link_counts_are_names [OF demo_guarded this] show ?thesis by blast
qed

text \<open> C14. One writer: in every state such a run reaches, no descriptor on an inode comes after a
  descriptor that is open for writing on it (so at most one writer is open per inode), and descriptor
  numbers are distinct. \<close>

theorem at_most_one_writer:
  assumes "guarded spec_op fs_guard ops (a_start dir clk)"
    and "run_ops exec_op ops (fs_start dir clk) = Ret (sts, s)"
  shows "\<exists>ds. table_is (descriptor_table s) ds \<and> distinct (map desc ds) \<and>
    (\<forall>i j. i < j \<and> j < length ds \<and> d_mode (ds ! i) = WRITE_ONLY \<longrightarrow> d_node_index (ds ! j) \<noteq> d_node_index (ds ! i))"
proof (rule reached [OF assms])
  fix a assume rel: "fs_rel s a" and ok: "fs_ok a"
  then have d: "descs_ok (a_descs a)" by (simp add: fs_ok_def)
  then have "distinct (map desc (a_descs a))" by (simp add: descs_ok_def strict_sorted_iff)
  with rel d show ?thesis
    by (intro exI [of _ "a_descs a"]) (auto simp: fs_rel_def descs_ok_def sorted_wrt_iff_nth_less)
qed

theorem at_most_one_writer_witness:
  "\<exists>s ds. run_ops exec_op demo_ops (fs_start ''/r'' noon) =
      Ret ([SUCCESS, SUCCESS, SUCCESS, DOUBLE_WRITE, SUCCESS, SUCCESS], s) \<and>
    table_is (descriptor_table s) ds \<and> distinct (map desc ds)"
proof (rule demo_run)
  fix s assume "run_ops exec_op demo_ops (fs_start ''/r'' noon) =
      Ret ([SUCCESS, SUCCESS, SUCCESS, DOUBLE_WRITE, SUCCESS, SUCCESS], s)"
  with at_most_one_writer [OF demo_guarded this] show ?thesis by blast
qed

text \<open>A state with the one file "A", related to its specification state.\<close>

definition one_name :: filename_inode_t where
  "one_name = name_entry [65] 0"

definition one_fs :: fs where
  "one_fs = (fs_start ''/r'' noon)
     \<lparr>inode_table := \<lparr>cells = [0 \<mapsto> blank_inode], head = Some 0, brk = 1\<rparr>,
      filename_table := \<lparr>cells = [0 \<mapsto> one_name], head = Some 0, brk = 1\<rparr>\<rparr>"

definition one_afs :: afs where
  "one_afs = (a_start ''/r'' noon)\<lparr>a_inodes := [blank_inode], a_names := [one_name]\<rparr>"

lemma table_one: "strip x = x \<Longrightarrow> nxt x = None \<Longrightarrow> prv x = None \<Longrightarrow> table_is \<lparr>cells = [0 \<mapsto> x], head = Some 0, brk = 1\<rparr> [x]"
  unfolding table_is_def by (rule exI [of _ "[0]"]) (auto simp: table_wf_def view_def)

lemma one_rel: "fs_rel one_fs one_afs"
  using table_one [of blank_inode] table_one [of one_name]
  by (simp add: fs_rel_def one_fs_def one_afs_def fs_start_def a_start_def table_is_empty strip_def
      blank_inode_def new_inode_def one_name_def)

text \<open> C28. Unlinking the oldest name destroys the name table: the call reports success, but the head of
  the table still points at the freed cell, so that every later search for any name is undefined
  (a use after free). This is so for every name table whose first entry names the file, provided the
  slots of the file are valid. \<close>

theorem unlink_oldest_name_dangles:
  assumes "fs_rel s a" and "a_names a = e # es" and "inode_no a (node_index e) = Some n"
    and "ref_count n = 1 \<Longrightarrow> free_blocks (data_blocks n) (data_block_table (a_disk a)) = Ret t"
  shows "\<exists>s'. unlink_inode (head (inode_table s)) (filename e) s = Ret (SUCCESS, s') \<and>
    (\<forall>name. check_if_filename_taken (filename_table s') name = Undef)"
proof -
  obtain s' p where s': "unlink_inode (head (inode_table s)) (filename e) s = Ret (SUCCESS, s')"
    "head (filename_table s') = Some p" "cells (filename_table s') p = None"
    by (rule unlink_oldest [OF assms])
  then show ?thesis by (auto simp: check_if_filename_taken_def find_node_freed)
qed

theorem unlink_oldest_name_dangles_witness:
  "\<exists>s'. unlink_inode (Some 0) [65] one_fs = Ret (SUCCESS, s') \<and>
    (\<forall>name. check_if_filename_taken (filename_table s') name = Undef)"
proof -
  have "a_names one_afs = one_name # []" "inode_no one_afs (node_index one_name) = Some blank_inode"
    by (simp_all add: one_afs_def one_name_def blank_inode_def new_inode_def)
  moreover have "free_blocks (data_blocks blank_inode) t = Ret t" for t
    by (simp add: no_blocks_def numeral_eq_Suc)
  ultimately show ?thesis
    using unlink_oldest_name_dangles [OF one_rel, of one_name "[]" blank_inode] by (simp add: one_fs_def one_name_def)
qed

text \<open> C29. A missing name is taken for inode 0: opening a file name that does not exist succeeds whenever
  inode 0 exists and nobody writes to it, and returns a descriptor of that other file. \<close>

theorem open_missing_opens_inode_0:
  assumes "fs_rel s a" and "\<not> name_in (a_names a) name" and "inode_no a 0 = Some n"
    and "\<not> writer_open (a_descs a) 0"
  shows "\<exists>s'. open_inode (head (inode_table s)) idx name md s = Ret (SUCCESS, next_desc (a_descs a), s') \<and>
    table_is (descriptor_table s') (a_descs a @ [desc_entry (next_desc (a_descs a)) 0 md 0])"
proof -
  have "lookup_name (a_names a) name = None" using assms(2) by (simp add: lookup_name_None)
  then have "target a name = 0" by (simp add: target_def)
  with assms(3,4) open_refines [OF assms(1), of idx name md] show ?thesis
    by (cases "open_inode (head (inode_table s)) idx name md s")
      (auto simp: a_open_def fs_rel_def Let_def a_upd_inode_def a_tick_def)
qed

theorem open_missing_opens_inode_0_witness:
  "\<exists>s'. open_inode (Some 0) 7 [90] 1 one_fs = Ret (SUCCESS, 0, s')"
  using open_missing_opens_inode_0 [OF one_rel, of "[90]" blank_inode 7 1]
  by (auto simp: one_afs_def one_fs_def one_name_def blank_inode_def new_inode_def a_start_def
      writer_open_def next_desc_def)

end
