(* ===== verification/Marshal.thy ===== *)
theory Marshal
  imports Common
begin

text \<open>
  The byte level of the messages: little-endian integers, NUL-terminated strings, and the cutting of
  a byte sequence into message parts, which client and service do with the same loop. A parser takes
  the bytes from the current copy offset on and returns what it read with the bytes behind it; reading
  past the end of the request data, or a string that does not fit its buffer, is undefined.
\<close>

subsection \<open>The codec contract\<close>

text \<open>\<open>dec\<close> reads back, at the front of any bytes, every valid value that \<open>enc\<close> wrote.\<close>

locale codec =
  fixes valid :: "'a \<Rightarrow> bool" and enc :: "'a \<Rightarrow> byte list" and dec :: "byte list \<Rightarrow> ('a \<times> byte list) outcome"
  assumes dec_enc: "valid x \<Longrightarrow> dec (enc x @ rest) = Ret (x, rest)"
begin

lemma dec_exact: "valid x \<Longrightarrow> dec (enc x) = Ret (x, [])"
  using dec_enc [of x "[]"] by simp

text \<open>No valid encoding is a proper prefix of another one.\<close>

lemma enc_prefix_free: "valid x \<Longrightarrow> valid y \<Longrightarrow> enc x @ r = enc y @ s \<Longrightarrow> x = y \<and> r = s"
proof -
  assume v: "valid x" "valid y" and eq: "enc x @ r = enc y @ s"
  have "Ret (x, r) = Ret (y, s)"
    unfolding dec_enc [OF v(1), of r, symmetric] dec_enc [OF v(2), of s, symmetric] eq ..
  then show ?thesis by simp
qed

end

text \<open>Two codecs one after the other.\<close>

definition enc_pair :: "('a \<Rightarrow> byte list) \<Rightarrow> ('b \<Rightarrow> byte list) \<Rightarrow> 'a \<times> 'b \<Rightarrow> byte list" where
  "enc_pair enc1 enc2 p = enc1 (fst p) @ enc2 (snd p)"

definition dec_pair ::
  "(byte list \<Rightarrow> ('a \<times> byte list) outcome) \<Rightarrow> (byte list \<Rightarrow> ('b \<times> byte list) outcome) \<Rightarrow>
   byte list \<Rightarrow> (('a \<times> 'b) \<times> byte list) outcome" where
  "dec_pair dec1 dec2 bs = obind (dec1 bs) (\<lambda>(x, r). obind (dec2 r) (\<lambda>(y, s). Ret ((x, y), s)))"

locale codec_pair = a: codec valid1 enc1 dec1 + b: codec valid2 enc2 dec2
  for valid1 :: "'a \<Rightarrow> bool" and enc1 dec1 and valid2 :: "'b \<Rightarrow> bool" and enc2 dec2

sublocale codec_pair \<subseteq> pair: codec "\<lambda>(x, y). valid1 x \<and> valid2 y" "enc_pair enc1 enc2" "dec_pair dec1 dec2"
  by unfold_locales (auto simp: enc_pair_def dec_pair_def a.dec_enc b.dec_enc)

subsection \<open>Little-endian integers\<close>

fun le_bytes :: "nat \<Rightarrow> nat \<Rightarrow> byte list" where
  "le_bytes 0 v = []"
| "le_bytes (Suc k) v = of_nat v # le_bytes k (v div 256)"

fun le_val :: "byte list \<Rightarrow> nat" where
  "le_val [] = 0"
| "le_val (b # bs) = unat b + 256 * le_val bs"

lemma length_le_bytes [simp]: "length (le_bytes k v) = k"
  by (induction k arbitrary: v) auto

lemma le_val_le_bytes: "le_val (le_bytes k v) = v mod 256 ^ k"
proof (induction k arbitrary: v)
  case (Suc k)
  have "unat (of_nat v :: byte) = v mod 256" by (simp add: unat_of_nat)
  with Suc show ?case by (simp add: mod_mult2_eq)
qed simp

lemma le_val_bound: "le_val bs < 256 ^ length bs"
proof (induction bs)
  case (Cons b bs)
  have "unat b < 256" using unsigned_less [of b, where ?'a = nat] by simp
  with Cons show ?case by simp
qed simp

lemma le_bytes_le_val: "le_bytes (length bs) (le_val bs) = bs"
proof (induction bs)
  case (Cons b bs)
  have b: "unat b < 256" using unsigned_less [of b, where ?'a = nat] by simp
  have "of_nat (unat b + 256 * le_val bs) = b"
  proof -
    have "unat (of_nat (unat b + 256 * le_val bs) :: byte) = (unat b + 256 * le_val bs) mod 2 ^ LENGTH(8)"
      by (rule unat_of_nat)
    also have "\<dots> = unat b" using b by simp
    finally show ?thesis by (simp only: word_unat_eq_iff)
  qed
  with Cons b show ?case by simp
qed simp

definition put_u32 :: "u32 \<Rightarrow> byte list" where
  "put_u32 w = le_bytes 4 (unat w)"

definition put_u64 :: "u64 \<Rightarrow> byte list" where
  "put_u64 w = le_bytes 8 (unat w)"

text \<open>\<^verbatim>\<open>x = *(uid_t *)(req->data + copy_off); copy_off += sizeof(uid_t)\<close>\<close>

definition get_u32 :: "byte list \<Rightarrow> (u32 \<times> byte list) outcome" where
  "get_u32 bs = (if length bs < 4 then Undef else Ret (of_nat (le_val (take 4 bs)), drop 4 bs))"

definition get_u64 :: "byte list \<Rightarrow> (u64 \<times> byte list) outcome" where
  "get_u64 bs = (if length bs < 8 then Undef else Ret (of_nat (le_val (take 8 bs)), drop 8 bs))"

lemma length_put [simp]: "length (put_u32 w) = 4" "length (put_u64 v) = 8"
  by (simp_all add: put_u32_def put_u64_def)

interpretation u32: codec "\<lambda>_. True" put_u32 get_u32
proof
  fix w :: u32 and rest
  have "(unat w mod 256 ^ 4) = unat w" using unat_lt_u32 [of w] by simp
  then show "get_u32 (put_u32 w @ rest) = Ret (w, rest)"
    by (simp add: get_u32_def put_u32_def le_val_le_bytes)
qed

interpretation u64: codec "\<lambda>_. True" put_u64 get_u64
proof
  fix w :: u64 and rest
  have "unat w < 2 ^ 64" using unsigned_less [of w, where ?'a = nat] by simp
  then have "(unat w mod 256 ^ 8) = unat w" by simp
  then show "get_u64 (put_u64 w @ rest) = Ret (w, rest)"
    by (simp add: get_u64_def put_u64_def le_val_le_bytes)
qed

subsection \<open>C strings\<close>

definition put_str :: "byte list \<Rightarrow> byte list" where
  "put_str s = s @ [0]"

text \<open>The bytes up to the first NUL, with what follows it.\<close>

fun c_string :: "byte list \<Rightarrow> (byte list \<times> byte list) outcome" where
  "c_string [] = Undef"
| "c_string (b # bs) = (if b = 0 then Ret ([], bs) else obind (c_string bs) (\<lambda>(s, r). Ret (b # s, r)))"

text \<open>\<^verbatim>\<open>strcpy(args.filename, req->data + copy_off); copy_off += strlen(args.filename) + 1\<close>\<close>

definition get_str :: "byte list \<Rightarrow> (byte list \<times> byte list) outcome" where
  "get_str bs = obind (c_string bs) (\<lambda>(s, r). if length s < MAX_FILENAME_LEN then Ret (s, r) else Undef)"

definition str_ok :: "byte list \<Rightarrow> bool" where
  "str_ok s \<longleftrightarrow> 0 \<notin> set s \<and> length s < MAX_FILENAME_LEN"

lemma c_string_put: "0 \<notin> set s \<Longrightarrow> c_string (s @ 0 # rest) = Ret (s, rest)"
  by (induction s) auto

interpretation str: codec str_ok put_str get_str
  by unfold_locales (simp add: get_str_def put_str_def str_ok_def c_string_put)

subsection \<open>Message parts\<close>

definition num_of_parts :: "u32 \<Rightarrow> u32" where
  "num_of_parts data_size =
     (let n = data_size div of_nat MAX_MSG_DATA_SIZE + (if data_size mod of_nat MAX_MSG_DATA_SIZE \<noteq> 0 then 1 else 0)
      in if n = 0 then 1 else n)"

text \<open>The offset and the size of every part.\<close>

fun part_loop :: "nat \<Rightarrow> u32 \<Rightarrow> u32 \<Rightarrow> (u32 \<times> u32) list" where
  "part_loop 0 i data_to_copy = []"
| "part_loop (Suc k) i data_to_copy =
     (let part_size = (if data_to_copy > of_nat MAX_MSG_DATA_SIZE then of_nat MAX_MSG_DATA_SIZE else data_to_copy)
      in (i * of_nat MAX_MSG_DATA_SIZE, part_size) # part_loop k (i + 1) (data_to_copy - part_size))"

definition message_parts :: "u32 \<Rightarrow> (u32 \<times> u32) list" where
  "message_parts data_size = part_loop (unat (num_of_parts data_size)) 0 data_size"

text \<open>The value of the field \<^verbatim>\<open>multipart\<close>.\<close>

definition multipart_flag :: "u32 \<Rightarrow> u32" where
  "multipart_flag data_size = (if num_of_parts data_size = 1 then 0 else num_of_parts data_size)"

text \<open>The bytes of one part: \<^verbatim>\<open>memcpy(msg->data, copy_buf + msg->data_offset, msg->part_size)\<close>.\<close>

definition part_bytes :: "byte list \<Rightarrow> u32 \<times> u32 \<Rightarrow> byte list" where
  "part_bytes data op = take (unat (snd op)) (drop (unat (fst op)) data)"

definition request_parts :: "req_type \<Rightarrow> u64 \<Rightarrow> byte list \<Rightarrow> request_t list" where
  "request_parts ty seq data =
     (let n = of_nat (length data)
      in map (\<lambda>op. \<lparr>rq_seq = seq, rq_type = ty, rq_multipart = multipart_flag n, rq_data_size = n,
               rq_data_offset = fst op, rq_part_size = snd op, rq_data = part_bytes data op\<rparr>) (message_parts n))"

definition response_parts :: "u64 \<Rightarrow> status \<Rightarrow> byte list \<Rightarrow> response_t list" where
  "response_parts seq st data =
     (let n = of_nat (length data)
      in map (\<lambda>op. \<lparr>rs_seq = seq, rs_status = st, rs_multipart = multipart_flag n, rs_data_size = n,
               rs_data_offset = fst op, rs_part_size = snd op, rs_data = part_bytes data op\<rparr>) (message_parts n))"

subsection \<open>The parts make up the message\<close>

lemma max_part: "of_nat MAX_MSG_DATA_SIZE = (4064 :: u32)" "MAX_MSG_DATA_SIZE = 4064"
  by (simp_all add: MAX_MSG_DATA_SIZE_def)

lemma of_nat_unat_u32: "of_nat (unat w) = (w :: u32)"
  by simp

lemma part_loop_parts:
  assumes "unat left = tot - unat i * 4064" and "unat i + k < 4294967296"
  shows "part_loop k i left =
    map (\<lambda>j. (of_nat (j * 4064), of_nat (min (tot - j * 4064) 4064))) [unat i..<unat i + k]"
  using assms
proof (induction k arbitrary: i left)
  case 0
  then show ?case by simp
next
  case (Suc k)
  let ?p = "if left > 4064 then 4064 else left"
  have p: "unat ?p = min (unat left) 4064" by (auto simp: word_less_nat_alt min_def)
  have pw: "?p = of_nat (min (tot - unat i * 4064) 4064)"
    unfolding Suc.prems(1) [symmetric] p [symmetric] by (simp only: of_nat_unat_u32)
  have off: "i * 4064 = of_nat (unat i * 4064)" by simp
  have i1: "unat (i + 1) = Suc (unat i)" using Suc.prems(2) by (subst unat_add_u32) simp_all
  have l1: "unat (left - ?p) = unat left - min (unat left) 4064"
    using p by (subst unat_minus_u32) simp_all
  have "part_loop k (i + 1) (left - ?p) =
      map (\<lambda>j. (of_nat (j * 4064), of_nat (min (tot - j * 4064) 4064))) [Suc (unat i)..<Suc (unat i) + k]"
    using Suc.IH [of "left - ?p" "i + 1"] Suc.prems i1 l1 by (simp add: min_def split: if_splits)
  moreover have "part_loop (Suc k) i left = (i * 4064, ?p) # part_loop k (i + 1) (left - ?p)"
    by (simp only: part_loop.simps max_part(1) Let_def)
  moreover have "[unat i..<unat i + Suc k] = unat i # [Suc (unat i)..<Suc (unat i) + k]"
    by (simp add: upt_conv_Cons del: upt_Suc)
  ultimately show ?case by (simp only: list.map off pw)
qed

text \<open>The number of parts of \<open>n\<close> bytes, at least one.\<close>

definition nparts :: "nat \<Rightarrow> nat" where
  "nparts n = (if n = 0 then 1 else (n + 4063) div 4064)"

lemma nparts_bounds: "n \<le> 4064 * nparts n" "0 < nparts n" "4064 * (nparts n - 1) \<le> n"
  unfolding nparts_def by (cases n; auto; linarith)+

lemma nparts_less: "j < nparts n \<Longrightarrow> 0 < n \<Longrightarrow> j * 4064 < n"
  unfolding nparts_def by (simp; linarith)

lemma several_parts: "4064 < n \<Longrightarrow> 1 < nparts n"
  by (simp add: nparts_def)

lemma one_part_iff: "nparts n = 1 \<longleftrightarrow> n \<le> 4064"
  using nparts_bounds [of n] several_parts [of n] nparts_less [of 1 n] by (cases "n = 0") (auto simp: nparts_def)

lemmas one_part = one_part_iff [THEN iffD2]

lemma unat_num_of_parts: "unat (num_of_parts w) = nparts (unat w)"
proof -
  have q: "unat w div 4064 < 1056833" using unat_lt_u32 [of w] by linarith
  have z: "(w mod 4064 = 0) = (unat w mod 4064 = 0)" by (simp add: unat_mod flip: u32_eq_0)
  have s: "unat (w div 4064 + (if w mod 4064 \<noteq> 0 then 1 else 0)) =
      unat w div 4064 + (if unat w mod 4064 = 0 then 0 else 1)"
    using q unfolding z by (simp add: unat_add_u32 unat_div)
  have c: "unat w div 4064 + (if unat w mod 4064 = 0 then 0 else 1) = (unat w + 4063) div 4064"
  proof -
    define x y where "x = unat w div 4064" and "y = unat w mod 4064"
    then have w: "unat w = 4064 * x + y" "y < 4064" by simp_all
    have "(4064 * x + y + 4063) div 4064 = x + (if y = 0 then 0 else 1)"
      using w(2) by (intro div_nat_eqI) auto
    then show ?thesis unfolding x_def [symmetric] y_def [symmetric] by (simp add: w(1))
  qed
  let ?n = "w div 4064 + (if w mod 4064 \<noteq> 0 then 1 else 0)"
  have "num_of_parts w = (if ?n = 0 then 1 else ?n)"
    by (simp only: num_of_parts_def max_part(1) Let_def)
  moreover have "(?n = 0) = (unat w = 0)" using s unfolding c by (auto simp flip: u32_eq_0)
  ultimately show ?thesis using s unfolding c by (simp add: nparts_def)
qed

lemma message_parts_list:
  "message_parts n = map (\<lambda>j. (of_nat (j * 4064), of_nat (min (unat n - j * 4064) 4064))) [0..<nparts (unat n)]"
proof -
  have "nparts (unat n) < 4294967296" using nparts_bounds(3) [of "unat n"] unat_lt_u32 [of n] by linarith
  then show ?thesis
    using part_loop_parts [of n "unat n" 0 "nparts (unat n)"] by (simp add: message_parts_def unat_num_of_parts)
qed

lemma slice_part:
  assumes "j < nparts (length data)" "length data \<le> 4294967295"
  shows "part_bytes data (of_nat (j * 4064), of_nat (min (length data - j * 4064) 4064)) = take 4064 (drop (j * 4064) data)"
proof -
  have "j * 4064 < 4294967296" using assms nparts_bounds(3) [of "length data"] by linarith
  then have "unat (of_nat (j * 4064) :: u32) = j * 4064"
    "unat (of_nat (min (length data - j * 4064) 4064) :: u32) = min (length data - j * 4064) 4064"
    by (intro unat_of_nat_u32; simp)+
  then show ?thesis by (simp only: part_bytes_def fst_conv snd_conv) (simp add: min_def)
qed

text \<open>Put together, the parts are the message.\<close>

lemma concat_chunks: "length data \<le> 4064 * k \<Longrightarrow> concat (map (\<lambda>j. take 4064 (drop (j * 4064) data)) [0..<k]) = data"
proof -
  have "concat (map (\<lambda>j. take 4064 (drop (j * 4064) data)) [0..<k]) = take (4064 * k) data"
    by (induction k) (simp_all add: take_add [symmetric] mult.commute add.commute)
  then show "length data \<le> 4064 * k \<Longrightarrow> ?thesis" by simp
qed

lemma message_parts_cover:
  assumes "length data \<le> 4294967295"
  shows "concat (map (part_bytes data) (message_parts (of_nat (length data)))) = data"
proof -
  have u: "unat (of_nat (length data) :: u32) = length data" using assms by (intro unat_of_nat_u32) simp
  then have "map (part_bytes data) (message_parts (of_nat (length data))) =
      map (\<lambda>j. take 4064 (drop (j * 4064) data)) [0..<nparts (length data)]"
    using message_parts_list [of "of_nat (length data)"] slice_part [OF _ assms] by simp
  with concat_chunks [OF nparts_bounds(1)] show ?thesis by simp
qed

end
