(* ===== verification/Queue_Interface.thy ===== *)
theory Queue_Interface
  imports Prelude
begin

text \<open>
  The contract of a bounded first-in first-out queue between one producer and one consumer.
  \<open>None\<close> stands for an operation that blocks. \<open>inv\<close> is the queue's invariant, \<open>abs\<close> its content,
  \<open>cap\<close> its capacity, \<open>item\<close> what is stored for a message.
\<close>

locale bounded_queue =
  fixes inv :: "'q \<Rightarrow> bool" and abs :: "'q \<Rightarrow> 'a list" and cap :: "'q \<Rightarrow> nat"
    and ok :: "'m \<Rightarrow> bool" and item :: "'m \<Rightarrow> 'a"
    and enq :: "'m \<Rightarrow> 'q \<Rightarrow> 'q option" and deq :: "'q \<Rightarrow> ('a \<times> 'q) option"
  assumes length_abs: "inv q \<Longrightarrow> length (abs q) \<le> cap q"
    and enq_room: "inv q \<Longrightarrow> ok m \<Longrightarrow> length (abs q) < cap q \<Longrightarrow>
      \<exists>q'. enq m q = Some q' \<and> inv q' \<and> abs q' = abs q @ [item m] \<and> cap q' = cap q"
    and enq_full: "inv q \<Longrightarrow> ok m \<Longrightarrow> length (abs q) = cap q \<Longrightarrow> enq m q = None"
    and deq_first: "inv q \<Longrightarrow> abs q = x # xs \<Longrightarrow> \<exists>q'. deq q = Some (x, q') \<and> inv q' \<and> abs q' = xs \<and> cap q' = cap q"
    and deq_empty: "inv q \<Longrightarrow> abs q = [] \<Longrightarrow> deq q = None"

text \<open>A client: put a batch of messages, take a number of items.\<close>

fun put_all :: "('m \<Rightarrow> 'q \<Rightarrow> 'q option) \<Rightarrow> 'm list \<Rightarrow> 'q \<Rightarrow> 'q option" where
  "put_all enq [] q = Some q"
| "put_all enq (m # ms) q = Option.bind (enq m q) (put_all enq ms)"

fun take_all :: "('q \<Rightarrow> ('a \<times> 'q) option) \<Rightarrow> nat \<Rightarrow> 'q \<Rightarrow> ('a list \<times> 'q) option" where
  "take_all deq 0 q = Some ([], q)"
| "take_all deq (Suc n) q =
     Option.bind (deq q) (\<lambda>(x, q'). map_option (\<lambda>(xs, q''). (x # xs, q'')) (take_all deq n q'))"

context bounded_queue
begin

lemma put_all_room:
  "inv q \<Longrightarrow> \<forall>m\<in>set ms. ok m \<Longrightarrow> length (abs q) + length ms \<le> cap q \<Longrightarrow>
   \<exists>q'. put_all enq ms q = Some q' \<and> inv q' \<and> abs q' = abs q @ map item ms \<and> cap q' = cap q"
proof (induction ms arbitrary: q)
  case Nil
  then show ?case by simp
next
  case (Cons m ms)
  then obtain q1 where q1: "enq m q = Some q1" "inv q1" "abs q1 = abs q @ [item m]" "cap q1 = cap q"
    using enq_room [of q m] by auto
  with Cons.IH [of q1] Cons.prems show ?case by auto
qed

lemma take_all_first:
  "inv q \<Longrightarrow> n \<le> length (abs q) \<Longrightarrow>
   \<exists>q'. take_all deq n q = Some (take n (abs q), q') \<and> inv q' \<and> abs q' = drop n (abs q) \<and> cap q' = cap q"
proof (induction n arbitrary: q)
  case 0
  then show ?case by simp
next
  case (Suc n)
  then obtain x xs where x: "abs q = x # xs" by (cases "abs q") auto
  then obtain q1 where q1: "deq q = Some (x, q1)" "inv q1" "abs q1 = xs" "cap q1 = cap q"
    using deq_first [OF Suc.prems(1)] by blast
  with Suc.IH [of q1] Suc.prems x show ?case by auto
qed

text \<open>First in, first out: a batch put into an empty queue comes out in order and leaves it empty.\<close>

lemma fifo:
  assumes "inv q" "abs q = []" "\<forall>m\<in>set ms. ok m" "length ms \<le> cap q"
  shows "\<exists>q1 q2. put_all enq ms q = Some q1 \<and> take_all deq (length ms) q1 = Some (map item ms, q2) \<and>
    inv q2 \<and> abs q2 = []"
proof -
  from put_all_room [of q ms] assms obtain q1 where
    q1: "put_all enq ms q = Some q1" "inv q1" "abs q1 = map item ms" by auto
  from take_all_first [OF q1(2), of "length ms"] q1 show ?thesis by auto
qed

end

end
