(* ===== verification/Req_Buffer.thy ===== *)
theory Req_Buffer
  imports Queue_Interface Common
begin

text \<open>
  \<^verbatim>\<open>service/req_buffer.c\<close>: the ring buffer between the receiver and the worker thread. The two
  semaphores are counters, the mutex is a flag; an operation that waits for one of them blocks,
  which is the result \<open>None\<close>. A request of several parts takes its slot with the first part and is
  announced (\<^verbatim>\<open>sem_post(&rbuf->full)\<close>) with the last one.
\<close>

datatype req_status = COMPLETED | IN_PROGRESS | READY

text \<open>\<open>sr_data\<close> is \<open>None\<close> for the NULL pointer and otherwise the allocated memory.\<close>

record service_req_t =
  sr_seq :: u64
  sr_type :: req_type
  sr_status :: req_status
  sr_data_size :: u32
  sr_data_offset :: u32
  sr_data :: "byte list option"

record req_buffer_t =
  lock :: bool
  empty :: nat
  full :: nat
  wr_idx :: u32
  rd_idx :: u32
  rb_size :: u32
  struct_len :: u32
  reqs :: "service_req_t list"

definition zero_req :: service_req_t where
  "zero_req = \<lparr>sr_seq = 0, sr_type = CREATE, sr_status = COMPLETED, sr_data_size = 0, sr_data_offset = 0,
     sr_data = None\<rparr>"

text \<open>
  \<^verbatim>\<open>sizeof(struct req_buffer_t)\<close> is 8312 and \<^verbatim>\<open>sizeof(struct service_req_t)\<close> is 32 on the LP64
  targets; the structure itself already holds 256 slots, \<open>size\<close> more are allocated behind it.
\<close>

definition req_buffer_create :: "req_buffer_t option \<Rightarrow> u32 \<Rightarrow> int \<times> req_buffer_t option" where
  "req_buffer_create rbuf n =
     (if n > 0
      then (0, Some \<lparr>lock = False, empty = unat n, full = 0, wr_idx = 0, rd_idx = 0, rb_size = n,
              struct_len = 8312 + 32 * n, reqs = replicate (256 + unat n) zero_req\<rparr>)
      else (-1, rbuf))"

definition req_bufer_destroy :: "req_buffer_t option \<Rightarrow> int \<times> req_buffer_t option" where
  "req_bufer_destroy rbuf = (case rbuf of Some rb \<Rightarrow> (0, None) | None \<Rightarrow> (-1, None))"

subsection \<open>Semaphores and the mutex\<close>

definition sem_wait_empty :: "req_buffer_t \<Rightarrow> req_buffer_t option" where
  "sem_wait_empty rb = (if empty rb = 0 then None else Some (rb\<lparr>empty := empty rb - 1\<rparr>))"

definition sem_wait_full :: "req_buffer_t \<Rightarrow> req_buffer_t option" where
  "sem_wait_full rb = (if full rb = 0 then None else Some (rb\<lparr>full := full rb - 1\<rparr>))"

definition mutex_lock :: "req_buffer_t \<Rightarrow> req_buffer_t option" where
  "mutex_lock rb = (if lock rb then None else Some (rb\<lparr>lock := True\<rparr>))"

definition mutex_unlock :: "req_buffer_t \<Rightarrow> req_buffer_t" where
  "mutex_unlock rb = rb\<lparr>lock := False\<rparr>"

definition sem_post_empty :: "req_buffer_t \<Rightarrow> req_buffer_t" where
  "sem_post_empty rb = rb\<lparr>empty := Suc (empty rb)\<rparr>"

definition sem_post_full :: "req_buffer_t \<Rightarrow> req_buffer_t" where
  "sem_post_full rb = rb\<lparr>full := Suc (full rb)\<rparr>"

lemmas sync_defs = sem_wait_empty_def sem_wait_full_def mutex_lock_def mutex_unlock_def
  sem_post_empty_def sem_post_full_def

subsection \<open>The producer\<close>

text \<open>\<^verbatim>\<open>rbuf->reqs[rbuf->wr_idx] = new_req; rbuf->wr_idx = (rbuf->wr_idx + 1) % rbuf->size\<close>\<close>

definition store_req :: "service_req_t \<Rightarrow> req_buffer_t \<Rightarrow> req_buffer_t outcome" where
  "store_req r rb =
     (if unat (wr_idx rb) < length (reqs rb)
      then Ret (rb\<lparr>reqs := (reqs rb)[unat (wr_idx rb) := r], wr_idx := (wr_idx rb + 1) mod rb_size rb\<rparr>)
      else Undef)"

text \<open>The search for the request a later part belongs to: the slots from \<^verbatim>\<open>rd_idx\<close> up to \<^verbatim>\<open>wr_idx\<close>.\<close>

definition find_req :: "u64 \<Rightarrow> req_buffer_t \<Rightarrow> nat option" where
  "find_req s rb = find (\<lambda>i. sr_seq (reqs rb ! i) = s) [unat (rd_idx rb)..<unat (wr_idx rb)]"

text \<open>
  \<open>junk\<close> is what fresh memory contains. A later part is copied before the sizes are compared; the
  path that finds the sizes corrupted returns with the mutex locked.
\<close>

definition handle_msg ::
  "(nat \<Rightarrow> byte) \<Rightarrow> req_buffer_t option \<Rightarrow> request_t \<Rightarrow> (int \<times> req_buffer_t option) outcome option" where
  "handle_msg junk rbuf msg = (case rbuf of None \<Rightarrow> Some (Ret (-1, None)) | Some rb \<Rightarrow>
     if rq_multipart msg = 0 then
       Option.bind (sem_wait_empty rb) (\<lambda>rb1.
       Option.bind (mutex_lock rb1) (\<lambda>rb2. Some (
         if length (rq_data msg) < unat (rq_data_size msg) then Undef
         else let new_req = zero_req\<lparr>sr_type := rq_type msg, sr_seq := rq_seq msg, sr_status := READY,
                  sr_data_size := rq_data_size msg,
                  sr_data := Some (take (unat (rq_data_size msg)) (rq_data msg))\<rparr>
              in obind (store_req new_req rb2) (\<lambda>rb3.
                 Ret (0, Some (sem_post_full (mutex_unlock rb3)))))))
     else if rq_data_offset msg = 0 then
       Option.bind (sem_wait_empty rb) (\<lambda>rb1.
       Option.bind (mutex_lock rb1) (\<lambda>rb2. Some (
         if length (rq_data msg) < unat (rq_part_size msg) \<or> unat (rq_data_size msg) < unat (rq_part_size msg) then Undef
         else let new_req = zero_req\<lparr>sr_type := rq_type msg, sr_seq := rq_seq msg, sr_status := IN_PROGRESS,
                  sr_data_size := rq_data_size msg, sr_data_offset := rq_part_size msg,
                  sr_data := Some (overwrite 0 (take (unat (rq_part_size msg)) (rq_data msg))
                                     (map junk [0..<unat (rq_data_size msg)]))\<rparr>
              in obind (store_req new_req rb2) (\<lambda>rb3. Ret (0, Some (mutex_unlock rb3))))))
     else
       (case find_req (rq_seq msg) rb of
          None \<Rightarrow> Some (Ret (-1, Some rb))
        | Some i \<Rightarrow>
            Option.bind (mutex_lock rb) (\<lambda>rb1. Some (
            let r = reqs rb1 ! i; part = unat (rq_part_size msg); pos = unat (rq_data_offset msg) in
            case sr_data r of None \<Rightarrow> Undef
            | Some buf \<Rightarrow>
                if length buf < pos + part \<or> length (rq_data msg) < part then Undef
                else
                  (let r1 = r\<lparr>sr_data := Some (overwrite pos (take part (rq_data msg)) buf),
                              sr_data_offset := sr_data_offset r + rq_part_size msg\<rparr>;
                       rb2 = rb1\<lparr>reqs := (reqs rb1)[i := r1]\<rparr>
                   in if sr_data_offset r1 = sr_data_size r1
                      then Ret (0, Some (sem_post_full (mutex_unlock
                             (rb1\<lparr>reqs := (reqs rb1)[i := r1\<lparr>sr_status := READY\<rparr>]\<rparr>))))
                      else if sr_data_offset r1 > sr_data_size r1 then Ret (-3, Some rb2)
                      else Ret (0, Some (mutex_unlock rb2)))))))"

subsection \<open>The consumer\<close>

text \<open>
  The request is handed out as a pointer into the buffer, that is the number of its slot;
  \<open>has_data\<close> tells that the out parameter is not NULL.
\<close>

definition get_service_req :: "req_buffer_t option \<Rightarrow> bool \<Rightarrow> (int \<times> nat option \<times> req_buffer_t option) option" where
  "get_service_req rbuf has_data = (case rbuf of None \<Rightarrow> Some (-1, None, None) | Some rb \<Rightarrow>
     if \<not> has_data then Some (-2, None, Some rb)
     else Option.bind (sem_wait_full rb) (\<lambda>rb1.
          Option.bind (mutex_lock rb1) (\<lambda>rb2.
            let slot = unat (rd_idx rb2); rb3 = rb2\<lparr>rd_idx := (rd_idx rb2 + 1) mod rb_size rb2\<rparr>
            in Some (0, Some slot, Some (sem_post_empty (mutex_unlock rb3))))))"

subsection \<open>The ring as a queue\<close>

text \<open>
  The invariant of a ring that holds complete requests only: \<open>full\<close> counts them, \<open>empty\<close> the free
  slots, and \<^verbatim>\<open>wr_idx\<close> is \<open>full\<close> slots ahead of \<^verbatim>\<open>rd_idx\<close>, modulo the size.
\<close>

definition rb_ok :: "req_buffer_t \<Rightarrow> bool" where
  "rb_ok rb \<longleftrightarrow> \<not> lock rb \<and> 0 < unat (rb_size rb) \<and> unat (rb_size rb) < 2147483648 \<and>
     unat (rb_size rb) \<le> length (reqs rb) \<and> unat (rd_idx rb) < unat (rb_size rb) \<and>
     empty rb + full rb = unat (rb_size rb) \<and> unat (wr_idx rb) = (unat (rd_idx rb) + full rb) mod unat (rb_size rb)"

definition rb_queue :: "req_buffer_t \<Rightarrow> service_req_t list" where
  "rb_queue rb = map (\<lambda>i. reqs rb ! ((unat (rd_idx rb) + i) mod unat (rb_size rb))) [0..<full rb]"

lemma ring_distinct:
  assumes "i < j" "j < n"
  shows "(r + i) mod n \<noteq> (r + j) mod (n :: nat)"
proof
  assume "(r + i) mod n = (r + j) mod n"
  then have "n dvd (r + j) - (r + i)" using assms by (metis add_le_cancel_left less_imp_le_nat mod_eq_dvd_iff_nat)
  with assms show False by (auto dest: dvd_imp_le)
qed

lemma next_idx:
  assumes "unat i < unat n" "unat n < 2147483648"
  shows "unat ((i + 1) mod n :: u32) = Suc (unat i) mod unat n"
proof -
  have "unat (i + 1) = Suc (unat i)" using assms by (subst unat_add_u32) simp_all
  then show ?thesis by (simp add: unat_mod)
qed

text \<open>The entry a single-part message becomes.\<close>

definition entry_of :: "request_t \<Rightarrow> service_req_t" where
  "entry_of m = \<lparr>sr_seq = rq_seq m, sr_type = rq_type m, sr_status = READY, sr_data_size = rq_data_size m,
     sr_data_offset = 0, sr_data = Some (take (unat (rq_data_size m)) (rq_data m))\<rparr>"

definition single_ok :: "request_t \<Rightarrow> bool" where
  "single_ok m \<longleftrightarrow> rq_multipart m = 0 \<and> unat (rq_data_size m) \<le> length (rq_data m)"

definition rb_put :: "request_t \<Rightarrow> req_buffer_t \<Rightarrow> req_buffer_t option" where
  "rb_put m rb = (case handle_msg (\<lambda>_. 0) (Some rb) m of Some (Ret (c, Some rb')) \<Rightarrow>
     (if c = 0 then Some rb' else None) | _ \<Rightarrow> None)"

definition rb_take :: "req_buffer_t \<Rightarrow> (service_req_t \<times> req_buffer_t) option" where
  "rb_take rb = (case get_service_req (Some rb) True of
     Some (_, Some i, Some rb') \<Rightarrow> Some (reqs rb' ! i, rb') | _ \<Rightarrow> None)"

lemma single_room:
  assumes ok: "rb_ok rb" and m: "single_ok m" and room: "full rb < unat (rb_size rb)"
  shows "\<exists>rb'. handle_msg junk (Some rb) m = Some (Ret (0, Some rb')) \<and> rb_ok rb' \<and>
    rb_queue rb' = rb_queue rb @ [entry_of m] \<and> rb_size rb' = rb_size rb \<and> full rb' = Suc (full rb) \<and>
    reqs rb' = (reqs rb)[unat (wr_idx rb) := entry_of m] \<and> rd_idx rb' = rd_idx rb"
proof -
  let ?n = "unat (rb_size rb)" and ?w = "unat (wr_idx rb)" and ?r = "unat (rd_idx rb)"
  have w: "?w < ?n" "?w = (?r + full rb) mod ?n" using ok by (auto simp: rb_ok_def)
  have "?n \<le> length (reqs rb)" using ok by (simp add: rb_ok_def)
  with w(1) have wl: "\<not> length (reqs rb) \<le> ?w" by linarith
  define rb' where "rb' = rb\<lparr>lock := False, empty := empty rb - 1, full := Suc (full rb),
    wr_idx := (wr_idx rb + 1) mod rb_size rb, reqs := (reqs rb)[?w := entry_of m]\<rparr>"
  have "0 < empty rb" using ok room by (simp add: rb_ok_def)
  then have "handle_msg junk (Some rb) m = Some (Ret (0, Some rb'))"
    using ok m wl by (simp add: handle_msg_def sync_defs store_req_def rb_ok_def single_ok_def rb'_def
        entry_of_def zero_req_def not_less Let_def)
  moreover have "unat ((wr_idx rb + 1) mod rb_size rb) = (?r + Suc (full rb)) mod ?n"
    using next_idx [of "wr_idx rb" "rb_size rb"] w ok by (simp add: rb_ok_def mod_Suc_eq)
  then have "rb_ok rb'" using ok \<open>0 < empty rb\<close> by (auto simp: rb_ok_def rb'_def)
  moreover have "rb_queue rb' = rb_queue rb @ [entry_of m]"
  proof -
    have "(reqs rb)[?w := entry_of m] ! ((?r + i) mod ?n) = reqs rb ! ((?r + i) mod ?n)" if "i < full rb" for i
      using ring_distinct [OF that room, of ?r] w(2) by simp
    moreover have "?w < length (reqs rb)" using wl by simp
    ultimately show ?thesis by (simp add: rb_queue_def rb'_def flip: w(2))
  qed
  ultimately show ?thesis by (auto simp: rb'_def)
qed

lemma single_full:
  "rb_ok rb \<Longrightarrow> single_ok m \<Longrightarrow> full rb = unat (rb_size rb) \<Longrightarrow> handle_msg junk (Some rb) m = None"
  by (simp add: rb_ok_def single_ok_def handle_msg_def sem_wait_empty_def)

lemma take_first:
  assumes ok: "rb_ok rb" and q: "rb_queue rb = x # xs"
  shows "\<exists>rb'. get_service_req (Some rb) True = Some (0, Some (unat (rd_idx rb)), Some rb') \<and>
    reqs rb' = reqs rb \<and> reqs rb ! unat (rd_idx rb) = x \<and> rb_ok rb' \<and> rb_queue rb' = xs \<and> rb_size rb' = rb_size rb \<and>
    full rb = Suc (full rb') \<and> unat (rd_idx rb') = Suc (unat (rd_idx rb)) mod unat (rb_size rb)"
proof -
  let ?n = "unat (rb_size rb)" and ?r = "unat (rd_idx rb)"
  define rb' where "rb' = rb\<lparr>lock := False, full := full rb - 1, rd_idx := (rd_idx rb + 1) mod rb_size rb,
    empty := Suc (empty rb)\<rparr>"
  obtain k where k: "full rb = Suc k" using q by (cases "full rb") (auto simp: rb_queue_def)
  have r: "?r < ?n" using ok by (simp add: rb_ok_def)
  have "get_service_req (Some rb) True = Some (0, Some ?r, Some rb')"
    using ok k by (simp add: get_service_req_def sync_defs rb_ok_def rb'_def Let_def)
  moreover have nx: "unat ((rd_idx rb + 1) mod rb_size rb) = Suc ?r mod ?n"
    using next_idx [OF r] ok by (simp add: rb_ok_def)
  have "(Suc ?r mod ?n + k) mod ?n = (?r + Suc k) mod ?n" by (simp add: mod_add_left_eq)
  then have "rb_ok rb'" using ok k nx by (auto simp: rb_ok_def rb'_def)
  moreover have "rb_queue rb = reqs rb ! ?r # map (\<lambda>i. reqs rb ! ((?r + Suc i) mod ?n)) [0..<k]"
    using k r by (simp add: rb_queue_def upt_conv_Cons map_Suc_upt [symmetric] comp_def del: upt_Suc)
  then have "reqs rb ! ?r = x" "map (\<lambda>i. reqs rb ! ((?r + Suc i) mod ?n)) [0..<k] = xs" using q by simp_all
  moreover have "rb_queue rb' = map (\<lambda>i. reqs rb ! ((?r + Suc i) mod ?n)) [0..<k]"
    using k by (simp add: rb_queue_def rb'_def nx mod_add_left_eq)
  ultimately show ?thesis using k nx by (auto simp: rb'_def)
qed

lemma take_empty: "rb_ok rb \<Longrightarrow> rb_queue rb = [] \<Longrightarrow> get_service_req (Some rb) True = None"
  by (simp add: rb_queue_def get_service_req_def sem_wait_full_def)

interpretation ring: bounded_queue rb_ok rb_queue "\<lambda>rb. unat (rb_size rb)" single_ok entry_of rb_put rb_take
proof
  fix rb assume "rb_ok rb"
  then show "length (rb_queue rb) \<le> unat (rb_size rb)" by (auto simp: rb_ok_def rb_queue_def)
next
  fix rb m assume a: "rb_ok rb" "single_ok m" "length (rb_queue rb) < unat (rb_size rb)"
  then have "full rb < unat (rb_size rb)" by (simp add: rb_queue_def)
  from single_room [OF a(1,2) this, of "\<lambda>_. 0"]
  show "\<exists>rb'. rb_put m rb = Some rb' \<and> rb_ok rb' \<and> rb_queue rb' = rb_queue rb @ [entry_of m] \<and>
      unat (rb_size rb') = unat (rb_size rb)"
    by (auto simp: rb_put_def)
next
  fix rb m assume "rb_ok rb" "single_ok m" "length (rb_queue rb) = unat (rb_size rb)"
  then show "rb_put m rb = None" by (simp add: rb_put_def single_full rb_queue_def)
next
  fix rb x xs assume "rb_ok rb" "rb_queue rb = x # xs"
  from take_first [OF this]
  show "\<exists>rb'. rb_take rb = Some (x, rb') \<and> rb_ok rb' \<and> rb_queue rb' = xs \<and> unat (rb_size rb') = unat (rb_size rb)"
    by (auto simp: rb_take_def)
next
  fix rb assume "rb_ok rb" "rb_queue rb = []"
  then show "rb_take rb = None" by (simp add: rb_take_def take_empty)
qed

end
