(* ===== verification/Service_Ops.thy ===== *)
theory Service_Ops
  imports Fs_Props Marshal Req_Buffer
begin

text \<open>
  The request handlers of \<^verbatim>\<open>service/operations.c\<close>: each one reads its arguments from the request data,
  checks the permission bits where the code does, runs the operation on the tables and sends the
  response. The state \<open>server\<close> holds the tables and the response queue. \<open>queue_ok\<close> tells whether
  \<^verbatim>\<open>msgget\<close> succeeds; \<^verbatim>\<open>msgsnd\<close> fails on a message type (the sequence number) below 1, otherwise the
  queue takes every message. \<open>stack_junk\<close> and \<open>heap_junk\<close> are what uninitialised memory contains.
\<close>

record server =
  sv_fs :: fs
  sent :: "response_t list"
  queue_ok :: bool
  stack_junk :: "nat \<Rightarrow> byte"
  heap_junk :: "nat \<Rightarrow> byte"

subsection \<open>Sending\<close>

definition msgsnd :: "response_t \<Rightarrow> server \<Rightarrow> server outcome" where
  "msgsnd r s = (if sint (rs_seq r) < 1 then Exit else Ret (s\<lparr>sent := sent s @ [r]\<rparr>))"

fun send_all :: "response_t list \<Rightarrow> server \<Rightarrow> server outcome" where
  "send_all [] s = Ret s"
| "send_all (r # rs) s = obind (msgsnd r s) (send_all rs)"

text \<open>A response without data.\<close>

definition plain_response :: "u64 \<Rightarrow> status \<Rightarrow> response_t" where
  "plain_response seq st = \<lparr>rs_seq = seq, rs_status = st, rs_multipart = 0, rs_data_size = 0,
     rs_data_offset = 0, rs_part_size = 0, rs_data = []\<rparr>"

definition reply :: "u64 \<Rightarrow> status \<Rightarrow> server \<Rightarrow> (status \<times> server) outcome" where
  "reply seq st s = obind (msgsnd (plain_response seq st) s) (\<lambda>s'. Ret (st, s'))"

text \<open>The data of a request; the handlers dereference the pointer.\<close>

definition req_data :: "service_req_t \<Rightarrow> byte list outcome" where
  "req_data req = (case sr_data req of None \<Rightarrow> Undef | Some d \<Rightarrow> Ret d)"

definition with_queue :: "server \<Rightarrow> 'a outcome \<Rightarrow> 'a outcome" where
  "with_queue s m = (if queue_ok s then m else Exit)"

text \<open>Running a table operation inside a handler.\<close>

definition on_fs :: "(status \<times> fs) outcome \<Rightarrow> server \<Rightarrow> (status \<times> server) outcome" where
  "on_fs m s = obind m (\<lambda>(st, f). Ret (st, s\<lparr>sv_fs := f\<rparr>))"

subsection \<open>Permission bits\<close>

text \<open>
  The comparisons of the code on the signed \<^verbatim>\<open>long file_perms\<close>; \<^verbatim>\<open>%\<close> rounds towards zero. \<open>True\<close>
  means that the access is refused.
\<close>

definition read_refused :: "u32 \<Rightarrow> u32 \<Rightarrow> u32 \<Rightarrow> u32 \<Rightarrow> u64 \<Rightarrow> bool" where
  "read_refused uid gid own grp perms =
     (if uid = own then sint perms < 256
      else if gid = grp then sint perms smod 64 < 32
      else sint perms smod 8 < 4)"

definition write_refused :: "u32 \<Rightarrow> u32 \<Rightarrow> u32 \<Rightarrow> u32 \<Rightarrow> u64 \<Rightarrow> bool" where
  "write_refused uid gid own grp perms =
     (if uid = own then sint perms < 128 \<or> (256 \<le> sint perms \<and> sint perms < 384)
      else if gid = grp then sint perms smod 64 < 16 \<or> (32 \<le> sint perms smod 64 \<and> sint perms smod 64 < 48)
      else sint perms smod 8 < 2 \<or> (4 \<le> sint perms smod 8 \<and> sint perms smod 8 < 6))"

text \<open>
  Reading the attributes of the file, with the local variables of the handlers (all 0) as out
  parameters. The status of a failed look-up is overwritten when the zeros refuse the access.
\<close>

definition file_perms :: "byte list \<Rightarrow> server \<Rightarrow> (status \<times> u32 \<times> u32 \<times> u64) outcome" where
  "file_perms name s =
     get_file_owner_group_permissions (head (inode_table (sv_fs s))) name 0 0 0 (sv_fs s)"

subsection \<open>The handlers\<close>

definition service_create :: "service_req_t \<Rightarrow> server \<Rightarrow> (status \<times> server) outcome" where
  "service_create req s = with_queue s (
     obind (req_data req) (\<lambda>d0.
     obind (get_u32 d0) (\<lambda>(uid, d1).
     obind (get_u32 d1) (\<lambda>(gid, d2).
     obind (get_u64 d2) (\<lambda>(access_mode, d3).
     obind (get_str d3) (\<lambda>(name, _).
     obind (create_file name uid gid access_mode (sv_fs s)) (\<lambda>(st, node_index, f).
     obind (send_all (response_parts (sr_seq req) st (put_u32 node_index)) (s\<lparr>sv_fs := f\<rparr>)) (\<lambda>s'.
       Ret (st, s')))))))))"

text \<open>The status of the response is found by comparing with 0 and with -2.\<close>

definition rename_status :: "status \<Rightarrow> status" where
  "rename_status st = (if status_code st = 0 then SUCCESS
     else if status_code st = -2 then FILENAME_TAKEN else FAILURE)"

definition service_rename :: "service_req_t \<Rightarrow> server \<Rightarrow> (status \<times> server) outcome" where
  "service_rename req s = with_queue s (
     obind (req_data req) (\<lambda>d0.
     obind (get_str d0) (\<lambda>(oldname, d1).
     obind (get_str d1) (\<lambda>(newname, _).
     if pw_dir (host (data_disk (sv_fs s))) = None then Exit
     else obind (rename_file (filename_table (sv_fs s)) oldname newname) (\<lambda>(st, ft).
     obind (msgsnd (plain_response (sr_seq req) (rename_status st)) (s\<lparr>sv_fs := (sv_fs s)\<lparr>filename_table := ft\<rparr>\<rparr>)) (\<lambda>s'.
       Ret (st, s')))))))"

definition service_chmode :: "service_req_t \<Rightarrow> server \<Rightarrow> (status \<times> server) outcome" where
  "service_chmode req s = with_queue s (
     obind (req_data req) (\<lambda>d0.
     obind (get_u32 d0) (\<lambda>(uid, d1).
     obind (get_u32 d1) (\<lambda>(gid, d2).
     obind (get_u64 d2) (\<lambda>(access_mode, d3).
     obind (get_str d3) (\<lambda>(name, _).
     obind (file_perms name s) (\<lambda>(st0, own, grp, perms).
     let st1 = (if write_refused uid gid own grp perms then INSUFFICIENT_PERMS else st0)
     in obind (if st1 = SUCCESS
               then on_fs (chmod_inode (head (inode_table (sv_fs s))) name (ucast access_mode) (sv_fs s)) s
               else Ret (st1, s)) (\<lambda>(st, s').
        reply (sr_seq req) st s'))))))))"

text \<open>\<^verbatim>\<open>sizeof(struct stat_t)\<close> is 56: the size and three times two words.\<close>

definition put_timespec :: "timespec \<Rightarrow> byte list" where
  "put_timespec t = put_u64 (tv_sec t) @ put_u64 (tv_nsec t)"

definition put_stat :: "stat_t \<Rightarrow> byte list" where
  "put_stat t = put_u64 (st_size t) @ put_timespec (st_atim t) @ put_timespec (st_mtim t) @ put_timespec (st_ctim t)"

text \<open>
  A refused access leaves \<^verbatim>\<open>data_size\<close> at 56, so that the response carries 56 bytes of the
  uninitialised array; only a failed \<^verbatim>\<open>get_file_stat_from_inode\<close> resets it.
\<close>

definition service_stat :: "service_req_t \<Rightarrow> server \<Rightarrow> (status \<times> server) outcome" where
  "service_stat req s = with_queue s (
     obind (req_data req) (\<lambda>d0.
     obind (get_u32 d0) (\<lambda>(uid, d1).
     obind (get_u32 d1) (\<lambda>(gid, d2).
     obind (get_str d2) (\<lambda>(name, _).
     obind (file_perms name s) (\<lambda>(st0, own, grp, perms).
     let st1 = (if read_refused uid gid own grp perms then INSUFFICIENT_PERMS
                else if st0 \<noteq> SUCCESS then FAILURE else SUCCESS)
     in obind (if st1 = SUCCESS
               then obind (get_file_stat_from_inode (head (inode_table (sv_fs s))) name (sv_fs s)) (\<lambda>(st, t, f).
                      Ret (st, case t of Some t \<Rightarrow> put_stat t | None \<Rightarrow> [], s\<lparr>sv_fs := f\<rparr>))
               else Ret (st1, map (stack_junk s) [0..<56], s)) (\<lambda>(st, copy_buf, s').
        obind (send_all (response_parts (sr_seq req) st copy_buf) s') (\<lambda>s''. Ret (st, s'')))))))))"

definition service_link :: "service_req_t \<Rightarrow> server \<Rightarrow> (status \<times> server) outcome" where
  "service_link req s = with_queue s (
     obind (req_data req) (\<lambda>d0.
     obind (get_u32 d0) (\<lambda>(uid, d1).
     obind (get_u32 d1) (\<lambda>(gid, d2).
     obind (get_str d2) (\<lambda>(name, d3).
     obind (get_str d3) (\<lambda>(linkname, _).
     obind (file_perms name s) (\<lambda>(st0, own, grp, perms).
     let st1 = (if read_refused uid gid own grp perms then INSUFFICIENT_PERMS
                else if st0 \<noteq> SUCCESS then FAILURE else SUCCESS)
     in obind (if st1 = SUCCESS
               then on_fs (create_hard_link (head (inode_table (sv_fs s))) name linkname (sv_fs s)) s
               else Ret (st1, s)) (\<lambda>(st, s').
        reply (sr_seq req) st s'))))))))"

definition service_symlink :: "service_req_t \<Rightarrow> server \<Rightarrow> (status \<times> server) outcome" where
  "service_symlink req s = with_queue s (
     obind (req_data req) (\<lambda>d0.
     obind (get_u32 d0) (\<lambda>(uid, d1).
     obind (get_u32 d1) (\<lambda>(gid, d2).
     obind (get_u64 d2) (\<lambda>(md, d3).
     obind (get_str d3) (\<lambda>(name, d4).
     obind (get_str d4) (\<lambda>(linkname, _).
     obind (file_perms name s) (\<lambda>(st0, own, grp, perms).
     let st1 = (if read_refused uid gid own grp perms then INSUFFICIENT_PERMS
                else if st0 \<noteq> SUCCESS then FAILURE else SUCCESS)
     in obind (if st1 = SUCCESS
               then on_fs (create_soft_link (head (inode_table (sv_fs s))) name linkname uid gid md (sv_fs s)) s
               else Ret (st1, s)) (\<lambda>(st, s').
        reply (sr_seq req) st s')))))))))"

text \<open>The checks of \<^verbatim>\<open>service_open\<close>: flags other than the two modes are a failure.\<close>

definition open_check :: "u32 \<Rightarrow> u32 \<Rightarrow> u32 \<Rightarrow> u32 \<Rightarrow> u32 \<Rightarrow> u64 \<Rightarrow> status \<Rightarrow> status" where
  "open_check flags uid gid own grp perms st =
     (if flags = READ_ONLY then (if read_refused uid gid own grp perms then INSUFFICIENT_PERMS else st)
      else if flags = WRITE_ONLY then (if write_refused uid gid own grp perms then INSUFFICIENT_PERMS else st)
      else FAILURE)"

definition service_open :: "service_req_t \<Rightarrow> server \<Rightarrow> (status \<times> server) outcome" where
  "service_open req s = with_queue s (
     obind (req_data req) (\<lambda>d0.
     obind (get_u32 d0) (\<lambda>(uid, d1).
     obind (get_u32 d1) (\<lambda>(gid, d2).
     obind (get_str d2) (\<lambda>(name, d3).
     obind (get_u32 d3) (\<lambda>(flags, _).
     obind (file_perms name s) (\<lambda>(st0, own, grp, perms).
     let st1 = open_check flags uid gid own grp perms (if st0 \<noteq> SUCCESS then FAILURE else SUCCESS)
     in obind (if st1 = SUCCESS
               then obind (open_inode (head (inode_table (sv_fs s))) 0 name flags (sv_fs s)) (\<lambda>(st, fd, f).
                      Ret (st, fd, s\<lparr>sv_fs := f\<rparr>))
               else Ret (st1, 0, s)) (\<lambda>(st, fd, s').
        obind (msgsnd ((plain_response (sr_seq req) st)\<lparr>rs_data_size := 4, rs_part_size := 4, rs_data := put_u32 fd\<rparr>) s')
          (\<lambda>s''. Ret (st, s''))))))))))"

definition service_close :: "service_req_t \<Rightarrow> server \<Rightarrow> (status \<times> server) outcome" where
  "service_close req s = with_queue s (
     obind (req_data req) (\<lambda>d0.
     obind (get_u32 d0) (\<lambda>(uid, d1).
     obind (get_u32 d1) (\<lambda>(gid, d2).
     obind (get_u32 d2) (\<lambda>(fd, _).
     obind (on_fs (close_inode fd (sv_fs s)) s) (\<lambda>(st, s').
       reply (sr_seq req) st s'))))))"

definition service_write :: "service_req_t \<Rightarrow> server \<Rightarrow> (status \<times> server) outcome" where
  "service_write req s = with_queue s (
     obind (req_data req) (\<lambda>d0.
     obind (get_u32 d0) (\<lambda>(uid, d1).
     obind (get_u32 d1) (\<lambda>(gid, d2).
     obind (get_u32 d2) (\<lambda>(fd, d3).
     obind (get_u32 d3) (\<lambda>(n, d4).
     if length d4 < unat n then Undef
     else obind (on_fs (write_inode_fd (head (inode_table (sv_fs s))) fd (take (unat n) d4) n (sv_fs s)) s) (\<lambda>(st, s').
       reply (sr_seq req) st s')))))))"

text \<open>On success the buffer is sent in parts, otherwise one part without data.\<close>

definition service_read :: "service_req_t \<Rightarrow> server \<Rightarrow> (status \<times> server) outcome" where
  "service_read req s = with_queue s (
     obind (req_data req) (\<lambda>d0.
     obind (get_u32 d0) (\<lambda>(uid, d1).
     obind (get_u32 d1) (\<lambda>(gid, d2).
     obind (get_u32 d2) (\<lambda>(fd, d3).
     obind (get_u32 d3) (\<lambda>(n, _).
     obind (read_inode_fd (head (inode_table (sv_fs s))) fd (map (heap_junk s) [0..<unat n]) n (sv_fs s)) (\<lambda>(st, buf, f).
     obind (send_all (response_parts (sr_seq req) st (if st = SUCCESS then buf else [])) (s\<lparr>sv_fs := f\<rparr>)) (\<lambda>s'.
       Ret (st, s')))))))))"

definition service_seek :: "service_req_t \<Rightarrow> server \<Rightarrow> (status \<times> server) outcome" where
  "service_seek req s = with_queue s (
     obind (req_data req) (\<lambda>d0.
     obind (get_u32 d0) (\<lambda>(uid, d1).
     obind (get_u32 d1) (\<lambda>(gid, d2).
     obind (get_u32 d2) (\<lambda>(fd, d3).
     obind (get_u32 d3) (\<lambda>(offset, _).
     obind (on_fs (seek_inode_fd (head (inode_table (sv_fs s))) fd offset (sv_fs s)) s) (\<lambda>(st, s').
       reply (sr_seq req) st s')))))))"

definition service_unlink :: "service_req_t \<Rightarrow> server \<Rightarrow> (status \<times> server) outcome" where
  "service_unlink req s = with_queue s (
     obind (req_data req) (\<lambda>d0.
     obind (get_u32 d0) (\<lambda>(uid, d1).
     obind (get_u32 d1) (\<lambda>(gid, d2).
     obind (get_str d2) (\<lambda>(name, _).
     obind (on_fs (unlink_inode (head (inode_table (sv_fs s))) name (sv_fs s)) s) (\<lambda>(st, s').
       reply (sr_seq req) st s'))))))"

end
