(* ===== verification/Server.thy ===== *)
theory Server
  imports Service_Ops
begin

text \<open>
  \<^verbatim>\<open>service/service.c\<close>: the process around the handlers. The receiver thread moves messages from
  the request queue into the ring buffer, the worker thread takes requests out of it and runs their
  handlers, and a signal ends the service. One step of a thread is one turn of its loop; the worker's
  turn has two, taking the pointer out of the ring and serving what it points to, since the receiver
  may run in between. A turn that blocks is \<open>None\<close>.
\<close>

datatype worker = Idle | Serving nat | Ended

record service =
  inbox :: "request_t list"
  server_buf :: "req_buffer_t option"
  tables :: server
  working :: bool
  worker :: worker

subsection \<open>The receiver\<close>

text \<open>
  The message buffer has \<^verbatim>\<open>MAX_MSG_SIZE\<close> bytes, is cleared first, and holds the data from byte 28 on.
  A message that is too long for it stays in the queue (\<^verbatim>\<open>E2BIG\<close>, which the code does not look at),
  and the cleared buffer is handled as if it were a message.
\<close>

definition cleared_msg :: request_t where
  "cleared_msg = \<lparr>rq_seq = 0, rq_type = CREATE, rq_multipart = 0, rq_data_size = 0, rq_data_offset = 0,
     rq_part_size = 0, rq_data = replicate 4068 0\<rparr>"

definition in_buffer :: "request_t \<Rightarrow> request_t" where
  "in_buffer m = m\<lparr>rq_data := rq_data m @ replicate (4068 - length (rq_data m)) 0\<rparr>"

definition msgrcv_request :: "request_t list \<Rightarrow> (request_t \<times> request_t list) option" where
  "msgrcv_request q = (case q of [] \<Rightarrow> None
     | m # ms \<Rightarrow> Some (if 24 + length (rq_data m) \<le> MAX_MSG_SIZE - 8 then (in_buffer m, ms) else (cleared_msg, m # ms)))"

definition receive :: "(nat \<Rightarrow> byte) \<Rightarrow> service \<Rightarrow> service outcome option" where
  "receive junk s =
     Option.bind (msgrcv_request (inbox s)) (\<lambda>(m, ms).
     if sint (8 + rq_part_size m) \<le> 0 then Some Exit
     else map_option (\<lambda>r. obind r (\<lambda>(c, rb).
            if c \<noteq> 0 then Exit else Ret (s\<lparr>inbox := ms, server_buf := rb\<rparr>)))
          (handle_msg junk (server_buf s) m))"

subsection \<open>The worker\<close>

definition dispatch :: "service_req_t \<Rightarrow> server \<Rightarrow> (status \<times> server) outcome" where
  "dispatch req s = (case sr_type req of
     CREATE \<Rightarrow> service_create req s | CHMODE \<Rightarrow> service_chmode req s | STAT \<Rightarrow> service_stat req s
   | RENAME \<Rightarrow> service_rename req s | LINK \<Rightarrow> service_link req s | SYMLINK \<Rightarrow> service_symlink req s
   | OPEN \<Rightarrow> service_open req s | CLOSE \<Rightarrow> service_close req s | WRITE \<Rightarrow> service_write req s
   | READ \<Rightarrow> service_read req s | SEEK \<Rightarrow> service_seek req s | UNLINK \<Rightarrow> service_unlink req s
   | Unknown_Type _ \<Rightarrow> Exit)"

text \<open>The first half of a turn of \<^verbatim>\<open>operate\<close>: \<^verbatim>\<open>get_service_req(server_buf, &req)\<close> and the check of \<^verbatim>\<open>working\<close>.\<close>

definition operate_take :: "service \<Rightarrow> service outcome option" where
  "operate_take s = map_option (\<lambda>(c, slot, rb).
     if \<not> working s then Ret (s\<lparr>server_buf := rb, worker := Ended\<rparr>)
     else if c \<noteq> 0 then Exit
     else (case slot of None \<Rightarrow> Undef | Some i \<Rightarrow> Ret (s\<lparr>server_buf := rb, worker := Serving i\<rparr>)))
     (get_service_req (server_buf s) True)"

text \<open>
  The second half, through the pointer: an incomplete request is passed over, a complete one is
  served and its slot is cleared.
\<close>

definition operate_serve :: "nat \<Rightarrow> service \<Rightarrow> service outcome" where
  "operate_serve i s = (case server_buf s of None \<Rightarrow> Undef | Some rb \<Rightarrow>
     if length (reqs rb) \<le> i then Undef
     else let req = reqs rb ! i in
       case sr_status req of
         IN_PROGRESS \<Rightarrow> Ret (s\<lparr>worker := Idle\<rparr>)
       | COMPLETED \<Rightarrow> Exit
       | READY \<Rightarrow> obind (dispatch req (tables s)) (\<lambda>(_, t).
           Ret (s\<lparr>tables := t, worker := Idle, server_buf := Some (rb\<lparr>reqs := (reqs rb)[i :=
             req\<lparr>sr_data := None, sr_data_offset := 0, sr_data_size := 0, sr_status := COMPLETED\<rparr>]\<rparr>)\<rparr>)))"

text \<open>The signal handler \<^verbatim>\<open>end_service\<close>.\<close>

definition end_service :: "service \<Rightarrow> service outcome" where
  "end_service s = (case server_buf s of None \<Rightarrow> Undef
     | Some rb \<Rightarrow> Ret (s\<lparr>working := False, server_buf := Some (sem_post_full rb)\<rparr>))"

subsection \<open>Steps of the process\<close>

datatype event = Receive | Take | Serve | Signal | Arrive request_t

inductive service_step :: "(nat \<Rightarrow> byte) \<Rightarrow> service \<Rightarrow> event \<Rightarrow> service outcome \<Rightarrow> bool" for junk where
  receive: "working s \<Longrightarrow> receive junk s = Some r \<Longrightarrow> service_step junk s Receive r"
| take: "worker s = Idle \<Longrightarrow> operate_take s = Some r \<Longrightarrow> service_step junk s Take r"
| serve: "worker s = Serving i \<Longrightarrow> operate_serve i s = r \<Longrightarrow> service_step junk s Serve r"
| signal: "end_service s = r \<Longrightarrow> service_step junk s Signal r"
| arrive: "service_step junk s (Arrive m) (Ret (s\<lparr>inbox := inbox s @ [m]\<rparr>))"

inductive_cases receive_stepE: "service_step junk s Receive r"
inductive_cases take_stepE: "service_step junk s Take r"
inductive_cases serve_stepE: "service_step junk s Serve r"
inductive_simps receive_step [simp]: "service_step junk s Receive r"
inductive_simps take_step [simp]: "service_step junk s Take r"
inductive_simps serve_step [simp]: "service_step junk s Serve r"

text \<open>Runs of a sequence of events.\<close>

inductive service_run :: "(nat \<Rightarrow> byte) \<Rightarrow> service \<Rightarrow> event list \<Rightarrow> service outcome \<Rightarrow> bool" for junk where
  nil: "service_run junk s [] (Ret s)"
| step: "service_step junk s e (Ret t) \<Longrightarrow> service_run junk t es r \<Longrightarrow> service_run junk s (e # es) r"
| stop: "service_step junk s e r \<Longrightarrow> (\<And>t. r \<noteq> Ret t) \<Longrightarrow> service_run junk s [e] r"

text \<open>The start of the service with messages waiting in the queue.\<close>

definition service_start :: "request_t list \<Rightarrow> server \<Rightarrow> service" where
  "service_start ms sv = \<lparr>inbox = ms, server_buf = snd (req_buffer_create None 256), tables = sv,
     working = True, worker = Idle\<rparr>"

end
