(* ===== verification/Server_Runs.thy ===== *)
theory Server_Runs
  imports Server
begin

text \<open>
  The service with complete requests in its queue: whatever the order in which receiver and worker
  take their turns, the requests are handled one after the other in the order of the queue. The
  bound of 256 is the size of the ring buffer: the worker gives its slot back before it has served
  the request, and only with fewer requests than slots nothing can be stored there in the meantime.
\<close>

definition client_msg :: "request_t \<Rightarrow> bool" where
  "client_msg m \<longleftrightarrow> rq_multipart m = 0 \<and> rq_data_size m = rq_part_size m \<and>
     unat (rq_part_size m) = length (rq_data m) \<and> length (rq_data m) \<le> MAX_MSG_DATA_SIZE"

text \<open>\<open>handled\<close> are the requests served so far.\<close>

definition in_order :: "request_t list \<Rightarrow> server \<Rightarrow> service_req_t list \<Rightarrow> service \<Rightarrow> bool" where
  "in_order ms sv handled s \<longleftrightarrow> (\<exists>rb sts. server_buf s = Some rb \<and> rb_ok rb \<and> unat (rb_size rb) = 256 \<and> working s \<and>
     run_ops dispatch handled sv = Ret (sts, tables s) \<and>
     (case worker s of
        Idle \<Rightarrow> handled @ rb_queue rb @ map entry_of (inbox s) = map entry_of ms
      | Serving i \<Rightarrow> i < 256 \<and> unat (rd_idx rb) = Suc i mod 256 \<and>
          handled @ reqs rb ! i # rb_queue rb @ map entry_of (inbox s) = map entry_of ms
      | Ended \<Rightarrow> False))"

text \<open>The number of turns taken so far: a request is received, taken and served.\<close>

fun busy :: "worker \<Rightarrow> int" where
  "busy Idle = 0"
| "busy (Serving i) = 1"
| "busy Ended = 0"

definition turns :: "service_req_t list \<Rightarrow> service \<Rightarrow> int" where
  "turns handled s = 2 * int (length handled) + busy (worker s) - int (length (inbox s))"

lemma length_rb_queue [simp]: "length (rb_queue rb) = full rb"
  by (simp add: rb_queue_def)

lemma in_order_start: "in_order ms sv [] (service_start ms sv)"
  by (simp add: in_order_def service_start_def req_buffer_create_def rb_ok_def rb_queue_def)

lemma msgrcv_client:
  assumes "client_msg m"
  shows "msgrcv_request (m # ms) = Some (in_buffer m, ms)" "single_ok (in_buffer m)"
    "entry_of (in_buffer m) = entry_of m" "0 < sint (8 + rq_part_size (in_buffer m))" "sr_status (entry_of m) = READY"
proof -
  have l: "length (rq_data m) \<le> 4064" "unat (rq_part_size m) = length (rq_data m)"
    using assms by (auto simp: client_msg_def MAX_MSG_DATA_SIZE_def)
  then show "msgrcv_request (m # ms) = Some (in_buffer m, ms)" by (simp add: msgrcv_request_def)
  show "single_ok (in_buffer m)" "entry_of (in_buffer m) = entry_of m" "sr_status (entry_of m) = READY"
    using assms by (auto simp: client_msg_def single_ok_def in_buffer_def entry_of_def)
  have "unat (8 + rq_part_size m) = 8 + length (rq_data m)"
    using l by (subst unat_add_u32) simp_all
  then have "sint (8 + rq_part_size m) = 8 + int (length (rq_data m))"
    using sint_small [of "8 + rq_part_size m"] l by simp
  then show "0 < sint (8 + rq_part_size (in_buffer m))" by (simp add: in_buffer_def)
qed

text \<open>The three turns keep the order.\<close>

lemma in_order_receive:
  assumes inv: "in_order ms sv handled s" and ms: "\<forall>m\<in>set ms. client_msg m" "length ms \<le> 256"
    and step: "service_step junk s Receive r" and sub: "set (inbox s) \<subseteq> set ms"
  shows "\<exists>t. r = Ret t \<and> in_order ms sv handled t \<and> set (inbox t) \<subseteq> set ms \<and> turns handled t = turns handled s + 1"
proof -
  obtain rb sts where rb: "server_buf s = Some rb" "rb_ok rb" "unat (rb_size rb) = 256" "working s"
    "run_ops dispatch handled sv = Ret (sts, tables s)"
    and w: "case worker s of
        Idle \<Rightarrow> handled @ rb_queue rb @ map entry_of (inbox s) = map entry_of ms
      | Serving i \<Rightarrow> i < 256 \<and> unat (rd_idx rb) = Suc i mod 256 \<and>
          handled @ reqs rb ! i # rb_queue rb @ map entry_of (inbox s) = map entry_of ms
      | Ended \<Rightarrow> False"
    using inv unfolding in_order_def by blast
  from step have rc: "receive junk s = Some r" by simp
  then obtain m ms' where ib: "inbox s = m # ms'"
    by (cases "inbox s") (auto simp: receive_def msgrcv_request_def)
  with ms sub have m: "client_msg m" by auto
  have len: "full rb + length (inbox s) \<le> 256" "\<And>i. worker s = Serving i \<Longrightarrow> Suc (full rb) + length (inbox s) \<le> 256"
    using w ms(2) by (auto split: worker.splits dest!: arg_cong [where f = length])
  with ib have room: "full rb < unat (rb_size rb)" using rb by simp
  from single_room [OF rb(2) msgrcv_client(2) [OF m] room] obtain rb' where
    h: "handle_msg junk (Some rb) (in_buffer m) = Some (Ret (0, Some rb'))" and rb': "rb_ok rb'"
      "rb_queue rb' = rb_queue rb @ [entry_of m]" "rb_size rb' = rb_size rb"
      "reqs rb' = (reqs rb)[unat (wr_idx rb) := entry_of m]" "rd_idx rb' = rd_idx rb"
    unfolding msgrcv_client(3) [OF m] by blast
  let ?t = "s\<lparr>inbox := ms', server_buf := Some rb'\<rparr>"
  have r: "r = Ret ?t"
    using rc h rb msgrcv_client(1,4) [OF m] ib by (simp add: receive_def)
  have "in_order ms sv handled ?t"
  proof (cases "worker s")
    case (Serving i)
    with w have i: "i < 256" "unat (rd_idx rb) = Suc i mod 256" by simp_all
    have "unat (wr_idx rb) = (Suc i + full rb) mod 256" "full rb + 1 < 256"
      using rb i len(2) [OF Serving] ib by (auto simp: rb_ok_def mod_add_left_eq)
    then have "unat (wr_idx rb) \<noteq> i" using i(1) ring_distinct [of 0 "Suc (full rb)" 256 i] by simp
    with Serving w rb rb' ib show ?thesis by (simp add: in_order_def)
  qed (use w rb rb' ib in \<open>auto simp: in_order_def\<close>)
  with r ib sub show ?thesis by (auto simp: turns_def)
qed

lemma in_order_take:
  assumes inv: "in_order ms sv handled s" and step: "service_step junk s Take r"
  shows "\<exists>t. r = Ret t \<and> in_order ms sv handled t \<and> inbox t = inbox s \<and> turns handled t = turns handled s + 1"
proof -
  from step have idle: "worker s = Idle" and tk: "operate_take s = Some r" by simp_all
  obtain rb sts where rb: "server_buf s = Some rb" "rb_ok rb" "unat (rb_size rb) = 256" "working s"
    "run_ops dispatch handled sv = Ret (sts, tables s)"
    and w: "handled @ rb_queue rb @ map entry_of (inbox s) = map entry_of ms"
    using inv idle unfolding in_order_def by auto
  obtain x xs where q: "rb_queue rb = x # xs"
    using tk rb take_empty [OF rb(2)] by (cases "rb_queue rb") (auto simp: operate_take_def)
  from take_first [OF rb(2) q] obtain rb' where
    g: "get_service_req (Some rb) True = Some (0, Some (unat (rd_idx rb)), Some rb')" and rb': "reqs rb' = reqs rb"
      "reqs rb ! unat (rd_idx rb) = x" "rb_ok rb'" "rb_queue rb' = xs" "rb_size rb' = rb_size rb"
      "unat (rd_idx rb') = Suc (unat (rd_idx rb)) mod unat (rb_size rb)"
    by blast
  let ?t = "s\<lparr>server_buf := Some rb', worker := Serving (unat (rd_idx rb))\<rparr>"
  have "r = Ret ?t" using tk g rb by (simp add: operate_take_def)
  moreover have "unat (rd_idx rb) < 256" using rb by (simp add: rb_ok_def)
  then have "in_order ms sv handled ?t" using rb rb' w q by (simp add: in_order_def)
  ultimately show ?thesis using idle by (simp add: turns_def)
qed

text \<open>Serving clears a slot that no request of the queue is in.\<close>

lemma cleared_slot:
  assumes "rb_ok rb" "unat (rb_size rb) = 256" "unat (rd_idx rb) = Suc i mod 256" "i < 256" "full rb < 256"
  shows "rb_ok (rb\<lparr>reqs := (reqs rb)[i := q]\<rparr>)" "rb_queue (rb\<lparr>reqs := (reqs rb)[i := q]\<rparr>) = rb_queue rb"
proof -
  show "rb_ok (rb\<lparr>reqs := (reqs rb)[i := q]\<rparr>)" using assms(1) by (simp add: rb_ok_def)
  have "i \<noteq> (Suc i mod 256 + j) mod 256" if "j < full rb" for j
    using ring_distinct [of 0 "Suc j" 256 i] that assms(4,5) by (simp add: mod_add_left_eq)
  with assms(2,3) show "rb_queue (rb\<lparr>reqs := (reqs rb)[i := q]\<rparr>) = rb_queue rb" by (simp add: rb_queue_def)
qed

lemma in_order_serve:
  assumes inv: "in_order ms sv handled s" and ms: "\<forall>m\<in>set ms. client_msg m" "length ms \<le> 256"
    and step: "service_step junk s Serve r"
  obtains req where "map_outcome tables r = map_outcome snd (dispatch req (tables s))"
    "handled @ [req] = take (Suc (length handled)) (map entry_of ms)"
    "\<And>t. r = Ret t \<Longrightarrow> in_order ms sv (handled @ [req]) t \<and> inbox t = inbox s \<and>
      turns (handled @ [req]) t = turns handled s + 1"
proof -
  from step obtain i where i: "worker s = Serving i" and r: "operate_serve i s = r" by auto
  obtain rb sts where rb: "server_buf s = Some rb" "rb_ok rb" "unat (rb_size rb) = 256" "working s"
    "run_ops dispatch handled sv = Ret (sts, tables s)"
    and w: "i < 256" "unat (rd_idx rb) = Suc i mod 256"
      "handled @ reqs rb ! i # rb_queue rb @ map entry_of (inbox s) = map entry_of ms"
    using inv i unfolding in_order_def by auto
  define req where "req = reqs rb ! i"
  have "req \<in> set (map entry_of ms)" unfolding req_def w(3) [symmetric] by simp
  then have rdy: "sr_status req = READY" using ms(1) msgrcv_client(5) by auto
  have il: "i < length (reqs rb)" using rb w(1) by (simp add: rb_ok_def)
  define fin where "fin = req\<lparr>sr_data := None, sr_data_offset := 0, sr_data_size := 0, sr_status := COMPLETED\<rparr>"
  have r': "r = obind (dispatch req (tables s)) (\<lambda>(_, t). Ret (s\<lparr>tables := t, worker := Idle,
      server_buf := Some (rb\<lparr>reqs := (reqs rb)[i := fin]\<rparr>)\<rparr>))"
    using r rb il rdy by (simp add: operate_serve_def req_def fin_def Let_def)
  have "full rb + length (inbox s) < 256" using w(3) ms(2) by (auto dest!: arg_cong [where f = length])
  then have fr: "full rb < 256" by simp
  note cl = cleared_slot [OF rb(2,3) w(2,1) fr, of fin]
  show thesis
  proof (rule that)
    show "map_outcome tables r = map_outcome snd (dispatch req (tables s))"
      unfolding r' by (cases "dispatch req (tables s)") auto
    have "map entry_of ms = (handled @ [req]) @ rb_queue rb @ map entry_of (inbox s)" using w(3) by (simp add: req_def)
    then show "handled @ [req] = take (Suc (length handled)) (map entry_of ms)" by simp
    fix t assume "r = Ret t"
    then obtain st u where d: "dispatch req (tables s) = Ret (st, u)" and t: "t = s\<lparr>tables := u, worker := Idle,
        server_buf := Some (rb\<lparr>reqs := (reqs rb)[i := fin]\<rparr>)\<rparr>"
      unfolding r' by (cases "dispatch req (tables s)") auto
    show "in_order ms sv (handled @ [req]) t \<and> inbox t = inbox s \<and> turns (handled @ [req]) t = turns handled s + 1"
      using rb w(3) d t cl i by (simp add: in_order_def run_ops_append req_def turns_def)
  qed
qed

subsection \<open>Every interleaving\<close>

lemma in_order_prefix:
  assumes "in_order ms sv handled s"
  obtains rest sts where "handled @ rest = map entry_of ms" "run_ops dispatch handled sv = Ret (sts, tables s)"
  using assms unfolding in_order_def by (cases "worker s") auto

lemma run_in_order:
  assumes "service_run junk s es r" and "in_order ms sv handled s" and "set (inbox s) \<subseteq> set ms"
    and "set es \<subseteq> {Receive, Take, Serve}" and ms: "\<forall>m\<in>set ms. client_msg m" "length ms \<le> 256"
  shows "\<exists>k \<le> length ms. map_outcome tables r = map_outcome snd (run_ops dispatch (map entry_of (take k ms)) sv) \<and>
    (\<forall>t. r = Ret t \<longrightarrow> in_order ms sv (map entry_of (take k ms)) t \<and> set (inbox t) \<subseteq> set ms \<and>
       turns (map entry_of (take k ms)) t = turns handled s + int (length es))"
  using assms(1-4)
proof (induction arbitrary: handled)
  case (nil s)
  then obtain rest sts where h: "handled @ rest = map entry_of ms" "run_ops dispatch handled sv = Ret (sts, tables s)"
    using in_order_prefix by blast
  then have "handled = map entry_of (take (length handled) ms)" "length handled \<le> length ms"
    by (metis append_eq_conv_conj take_map) (metis h(1) length_append length_map le_add1)
  with h nil show ?case by (intro exI [of _ "length handled"]) auto
next
  case (step s e t es r)
  from step.prems consider "e = Receive" | "e = Take" | "e = Serve" by auto
  then obtain h where "in_order ms sv h t" "set (inbox t) \<subseteq> set ms" "turns h t = turns handled s + 1"
  proof cases
    case 1
    with in_order_receive [OF step.prems(1) ms _ step.prems(2)] step.hyps(1) that show ?thesis by blast
  next
    case 2
    with in_order_take [OF step.prems(1)] step.hyps(1) step.prems(2) that show ?thesis by force
  next
    case 3
    with step.hyps(1) have "service_step junk s Serve (Ret t)" by simp
    from in_order_serve [OF step.prems(1) ms this] step.prems(2) that show ?thesis by metis
  qed
  with step.IH [of h] step.prems show ?case by (simp add: ac_simps)
next
  case (stop s e r)
  have "e = Serve"
    using stop in_order_receive [OF stop.prems(1) ms _ stop.prems(2)] in_order_take [OF stop.prems(1)] by auto blast+
  with stop.hyps(1) have st: "service_step junk s Serve r" by simp
  obtain req where req: "map_outcome tables r = map_outcome snd (dispatch req (tables s))"
    "handled @ [req] = take (Suc (length handled)) (map entry_of ms)"
    by (rule in_order_serve [OF stop.prems(1) ms st])
  obtain sts where "run_ops dispatch handled sv = Ret (sts, tables s)"
    using stop.prems(1) by (auto simp: in_order_def)
  then have "map_outcome snd (run_ops dispatch (handled @ [req]) sv) = map_outcome snd (dispatch req (tables s))"
    by (cases "dispatch req (tables s)") (auto simp: run_ops_append)
  with req stop.hyps(2) show ?case
    by (intro exI [of _ "min (Suc (length handled)) (length ms)"]) (auto simp: take_map [symmetric] min_def split: if_splits)
qed

text \<open>While a request is left some thread can take a turn.\<close>

lemma in_order_enabled:
  assumes inv: "in_order ms sv handled s" and ms: "\<forall>m\<in>set ms. client_msg m" and sub: "set (inbox s) \<subseteq> set ms"
    and left: "turns handled s < 2 * int (length ms)"
  shows "\<exists>e\<in>{Receive, Take, Serve}. \<exists>r. service_step junk s e r"
proof -
  obtain rb where rb: "server_buf s = Some rb" "rb_ok rb" "unat (rb_size rb) = 256" "working s" "worker s \<noteq> Ended"
    and w: "worker s = Idle \<Longrightarrow> handled @ rb_queue rb @ map entry_of (inbox s) = map entry_of ms"
    using inv unfolding in_order_def by (cases "worker s") auto
  show ?thesis
  proof (cases "worker s")
    case Idle
    show ?thesis
    proof (cases "rb_queue rb")
      case (Cons x xs)
      from take_first [OF rb(2) Cons] Idle rb(1) show ?thesis by (auto simp: operate_take_def)
    next
      case Nil
      with w [OF Idle] have "length handled + length (inbox s) = length ms"
        by (auto dest!: arg_cong [where f = length])
      with left Idle obtain m ms' where ib: "inbox s = m # ms'" by (cases "inbox s") (auto simp: turns_def)
      with sub ms have m: "client_msg m" by auto
      have "full rb < unat (rb_size rb)" using Nil rb(3) by (simp flip: length_rb_queue)
      from single_room [OF rb(2) msgrcv_client(2) [OF m] this, of junk] obtain rb' where
        "handle_msg junk (Some rb) (in_buffer m) = Some (Ret (0, Some rb'))" by blast
      with msgrcv_client(1,4) [OF m] ib rb have "receive junk s = Some (Ret (s\<lparr>inbox := ms', server_buf := Some rb'\<rparr>))"
        by (simp add: receive_def)
      with rb(4) have "service_step junk s Receive (Ret (s\<lparr>inbox := ms', server_buf := Some rb'\<rparr>))" by simp
      then show ?thesis by blast
    qed
  qed (use rb(5) in auto)
qed

end
