(* ===== verification/Reassembly.thy ===== *)
theory Reassembly
  imports Marshal Req_Buffer
begin

text \<open>
  A request of several parts in the ring buffer: the first part takes a slot and allocates the
  memory, every later part is copied behind the earlier ones, and the last one makes the request
  \<open>READY\<close>.
\<close>

definition feed :: "(nat \<Rightarrow> byte) \<Rightarrow> request_t \<Rightarrow> req_buffer_t \<Rightarrow> req_buffer_t option" where
  "feed junk m rb = (case handle_msg junk (Some rb) m of Some (Ret (c, Some rb')) \<Rightarrow>
     (if c = 0 then Some rb' else None) | _ \<Rightarrow> None)"

subsection \<open>The parts of a request\<close>

definition part_msg :: "req_type \<Rightarrow> u64 \<Rightarrow> byte list \<Rightarrow> nat \<Rightarrow> request_t" where
  "part_msg ty seq data j = \<lparr>rq_seq = seq, rq_type = ty, rq_multipart = of_nat (nparts (length data)),
     rq_data_size = of_nat (length data), rq_data_offset = of_nat (j * 4064),
     rq_part_size = of_nat (min (length data - j * 4064) 4064), rq_data = take 4064 (drop (j * 4064) data)\<rparr>"

lemma unat_nparts:
  assumes "length data \<le> 4294967295"
  shows "unat (of_nat (nparts (length data)) :: u32) = nparts (length data)"
  using nparts_bounds(3) [of "length data"] assms by (intro unat_of_nat_u32) linarith

lemma multipart_flag_parts:
  assumes "length data \<le> 4294967295"
  shows "multipart_flag (of_nat (length data)) = (if length data \<le> 4064 then 0 else of_nat (nparts (length data)))"
proof -
  let ?n = "of_nat (length data) :: u32"
  have "unat ?n = length data" using assms by (intro unat_of_nat_u32) simp
  then have u: "unat (num_of_parts ?n) = nparts (length data)" by (simp add: unat_num_of_parts)
  then have e: "num_of_parts ?n = of_nat (nparts (length data))" by (metis of_nat_unat_u32)
  have "(num_of_parts ?n = 1) = (nparts (length data) = 1)"
    unfolding word_unat_eq_iff u by simp
  also have "\<dots> = (length data \<le> 4064)" by (rule one_part_iff)
  finally show ?thesis by (simp only: multipart_flag_def e)
qed

lemma request_parts_one:
  assumes "length data \<le> 4064"
  shows "request_parts ty seq data = [\<lparr>rq_seq = seq, rq_type = ty, rq_multipart = 0, rq_data_size = of_nat (length data),
    rq_data_offset = 0, rq_part_size = of_nat (length data), rq_data = data\<rparr>]"
proof -
  have u: "unat (of_nat (length data) :: u32) = length data" using assms by (intro unat_of_nat_u32) simp
  then have "message_parts (of_nat (length data)) = [(0, of_nat (length data))]"
    using assms by (subst message_parts_list) (simp_all add: one_part)
  then show ?thesis
    using assms u by (simp add: request_parts_def Let_def part_bytes_def multipart_flag_parts)
qed

lemma request_parts_several:
  assumes "4064 < length data" "length data \<le> 4294967295"
  shows "request_parts ty seq data = map (part_msg ty seq data) [0..<nparts (length data)]"
proof -
  have "unat (of_nat (length data) :: u32) = length data" using assms by (intro unat_of_nat_u32) simp
  then have mp: "message_parts (of_nat (length data)) =
      map (\<lambda>j. (of_nat (j * 4064), of_nat (min (length data - j * 4064) 4064))) [0..<nparts (length data)]"
    using assms by (subst message_parts_list) simp_all
  show ?thesis
    unfolding request_parts_def Let_def mp map_map
    using assms slice_part [OF _ assms(2)] by (intro map_cong refl) (simp add: part_msg_def multipart_flag_parts)
qed

lemma part_msg_size:
  assumes "j < nparts (length data)" "length data \<le> 4294967295"
  shows "unat (rq_part_size (part_msg ty seq data j)) = min (length data - j * 4064) 4064"
    "length (rq_data (part_msg ty seq data j)) = min (length data - j * 4064) 4064"
    "unat (rq_data_offset (part_msg ty seq data j)) = j * 4064"
    "unat (rq_data_size (part_msg ty seq data j)) = length data"
    "0 < j \<Longrightarrow> rq_data_offset (part_msg ty seq data j) \<noteq> 0" "rq_multipart (part_msg ty seq data j) \<noteq> 0"
proof -
  have j: "j * 4064 < 4294967296" using assms nparts_bounds(3) [of "length data"] by linarith
  show "unat (rq_part_size (part_msg ty seq data j)) = min (length data - j * 4064) 4064"
    by (simp add: part_msg_def unat_of_nat_u32)
  show "length (rq_data (part_msg ty seq data j)) = min (length data - j * 4064) 4064" by (simp add: part_msg_def min.commute)
  show o: "unat (rq_data_offset (part_msg ty seq data j)) = j * 4064"
    unfolding part_msg_def request_t.select_convs by (rule unat_of_nat_u32 [OF j])
  show "unat (rq_data_size (part_msg ty seq data j)) = length data"
    using assms(2) by (simp add: part_msg_def unat_of_nat_u32)
  show "rq_data_offset (part_msg ty seq data j) \<noteq> 0" if "0 < j" using o that by (auto simp flip: u32_eq_0)
  show "rq_multipart (part_msg ty seq data j) \<noteq> 0"
    using unat_nparts [OF assms(2)] nparts_bounds(2) [of "length data"] by (simp add: part_msg_def flip: u32_eq_0)
qed

subsection \<open>The slot of an incomplete request\<close>

text \<open>The memory after \<open>j\<close> parts.\<close>

definition filled :: "(nat \<Rightarrow> byte) \<Rightarrow> byte list \<Rightarrow> nat \<Rightarrow> byte list" where
  "filled junk data j = take (j * 4064) data @ drop (j * 4064) (map junk [0..<length data])"

definition part_entry :: "(nat \<Rightarrow> byte) \<Rightarrow> req_type \<Rightarrow> u64 \<Rightarrow> byte list \<Rightarrow> nat \<Rightarrow> service_req_t" where
  "part_entry junk ty seq data j = \<lparr>sr_seq = seq, sr_type = ty, sr_status = IN_PROGRESS,
     sr_data_size = of_nat (length data), sr_data_offset = of_nat (min (length data) (j * 4064)),
     sr_data = Some (filled junk data j)\<rparr>"

definition part_ring :: "(nat \<Rightarrow> byte) \<Rightarrow> req_type \<Rightarrow> u64 \<Rightarrow> byte list \<Rightarrow> req_buffer_t \<Rightarrow> nat \<Rightarrow> req_buffer_t" where
  "part_ring junk ty seq data rb j = rb\<lparr>empty := empty rb - 1, wr_idx := (wr_idx rb + 1) mod rb_size rb,
     reqs := (reqs rb)[unat (wr_idx rb) := part_entry junk ty seq data j]\<rparr>"

text \<open>The complete request.\<close>

definition whole_entry :: "req_type \<Rightarrow> u64 \<Rightarrow> byte list \<Rightarrow> service_req_t" where
  "whole_entry ty seq data = \<lparr>sr_seq = seq, sr_type = ty, sr_status = READY,
     sr_data_size = of_nat (length data), sr_data_offset = of_nat (length data), sr_data = Some data\<rparr>"

definition whole_ring :: "req_type \<Rightarrow> u64 \<Rightarrow> byte list \<Rightarrow> req_buffer_t \<Rightarrow> req_buffer_t" where
  "whole_ring ty seq data rb = rb\<lparr>empty := empty rb - 1, full := Suc (full rb),
     wr_idx := (wr_idx rb + 1) mod rb_size rb,
     reqs := (reqs rb)[unat (wr_idx rb) := whole_entry ty seq data]\<rparr>"

lemma length_filled: "length (filled junk data j) = length data"
  by (simp add: filled_def)

lemma filled_step:
  assumes "j * 4064 < length data"
  shows "overwrite (j * 4064) (take 4064 (drop (j * 4064) data)) (filled junk data j) = filled junk data (Suc j)"
proof -
  have "take (4064 + j * 4064) data = take (j * 4064) data @ take 4064 (drop (j * 4064) data)"
    by (simp add: take_add add.commute [of 4064])
  moreover have "drop (min (length data - j * 4064) 4064) (drop (j * 4064) xs) = drop (4064 + j * 4064) xs"
    if "length xs = length data" for xs :: "byte list"
    using assms that by (auto simp: min_def)
  ultimately show ?thesis
    using assms by (simp add: filled_def overwrite_def min.commute)
qed

lemma filled_all: "length data \<le> j * 4064 \<Longrightarrow> filled junk data j = data"
  by (simp add: filled_def)

lemma first_part:
  assumes ok: "rb_ok rb" and room: "full rb < unat (rb_size rb)"
    and len: "4064 < length data" "length data \<le> 4294967295"
  shows "handle_msg junk (Some rb) (part_msg ty seq data 0) = Some (Ret (0, Some (part_ring junk ty seq data rb 1)))"
proof -
  let ?m = "part_msg ty seq data 0"
  have "0 < nparts (length data)" by (rule nparts_bounds(2))
  note sz = part_msg_size [OF this len(2), of ty seq, simplified]
  have w: "unat (wr_idx rb) < length (reqs rb)" "0 < empty rb" "\<not> lock rb"
    using ok room by (auto simp: rb_ok_def intro: less_le_trans [OF mod_less_divisor])
  have m: "rq_type ?m = ty" "rq_seq ?m = seq" "rq_data_offset ?m = 0" "take 4064 (rq_data ?m) = take 4064 data"
    "rq_data_size ?m = of_nat (length data)" "rq_part_size ?m = 4064"
    using len(1) by (simp_all add: part_msg_def)
  have "filled junk data 1 = overwrite 0 (take 4064 data) (map junk [0..<length data])"
    using filled_step [of 0 data junk] len(1) by (cases data) (simp_all add: filled_def)
  then show ?thesis
    using sz m w len(1) by (simp add: handle_msg_def sync_defs store_req_def zero_req_def part_ring_def part_entry_def Let_def)
qed

text \<open>The search of later parts: it does not reach a slot before \<^verbatim>\<open>rd_idx\<close>.\<close>

lemma find_append: "find P (xs @ ys) = (case find P xs of None \<Rightarrow> find P ys | Some x \<Rightarrow> Some x)"
  by (induction xs) auto

lemma find_part:
  assumes "unat (rd_idx rb) + full rb = unat (wr_idx rb)" "Suc (unat (wr_idx rb)) < unat (rb_size rb)"
    "unat (rb_size rb) \<le> length (reqs rb)" "unat (rb_size rb) < 2147483648" "\<forall>x\<in>set (rb_queue rb). sr_seq x \<noteq> seq"
  shows "find_req seq (part_ring junk ty seq data rb j) = Some (unat (wr_idx rb))"
proof -
  let ?w = "unat (wr_idx rb)" and ?r = "unat (rd_idx rb)"
  have nx: "unat ((wr_idx rb + 1) mod rb_size rb) = Suc ?w"
    using next_idx [of "wr_idx rb" "rb_size rb"] assms(2,4) by simp
  have other: "sr_seq (reqs rb ! i) \<noteq> seq" if "i \<in> {?r..<?w}" for i
  proof -
    have "i = (?r + (i - ?r)) mod unat (rb_size rb)" "i - ?r < full rb" using that assms(1,2) by auto
    then have "reqs rb ! i \<in> set (rb_queue rb)" by (force simp: rb_queue_def)
    with assms(5) show ?thesis by simp
  qed
  let ?f = "\<lambda>i. sr_seq ((reqs rb)[?w := part_entry junk ty seq data j] ! i) = seq"
  have "find ?f [?r..<?w] = None" using other by (auto simp: find_None_iff)
  moreover have "[?r..<Suc ?w] = [?r..<?w] @ [?w]" using assms(1) by simp
  ultimately show ?thesis
    using assms(2,3) by (simp add: find_req_def part_ring_def nx part_entry_def find_append del: upt_Suc)
qed

text \<open>The byte count after part \<open>j\<close>: it reaches the announced size exactly with the last part.\<close>

lemma last_part_iff:
  assumes "j * 4064 < n" "j < nparts n"
  shows "Suc j = nparts n \<longleftrightarrow> n \<le> Suc j * 4064"
proof
  show "n \<le> Suc j * 4064" if "Suc j = nparts n" using nparts_bounds(1) [of n] that by simp
  show "Suc j = nparts n" if "n \<le> Suc j * 4064"
    using nparts_less [of "Suc j" n] assms that by (cases "Suc j = nparts n") auto
qed

lemma part_count:
  assumes len: "n \<le> 4294967295" and j: "j * 4064 < n" "j < nparts n"
  shows "of_nat (min n (j * 4064)) + of_nat (min (n - j * 4064) 4064) = (of_nat (min n (Suc j * 4064)) :: u32)"
    and "(of_nat (min n (Suc j * 4064)) = (of_nat n :: u32)) = (Suc j = nparts n)"
    and "\<not> of_nat n < (of_nat (min n (Suc j * 4064)) :: u32)"
    and "unat (of_nat (min n (j * 4064)) :: u32) = min n (j * 4064)"
proof -
  have un: "unat (of_nat (min n i) :: u32) = min n i" for i
    using len by (intro unat_of_nat_u32) simp
  show "of_nat (min n (j * 4064)) + of_nat (min (n - j * 4064) 4064) = (of_nat (min n (Suc j * 4064)) :: u32)"
    unfolding of_nat_add [symmetric] by (rule arg_cong [where f = of_nat]) (use j in \<open>auto simp: min_def\<close>)
  show "(of_nat (min n (Suc j * 4064)) = (of_nat n :: u32)) = (Suc j = nparts n)"
    using un [of "Suc j * 4064"] un [of n] last_part_iff [OF j] by (auto simp: word_unat_eq_iff)
  show "\<not> of_nat n < (of_nat (min n (Suc j * 4064)) :: u32)"
    using un [of "Suc j * 4064"] un [of n] by (simp add: word_less_nat_alt)
qed (rule unat_of_nat_u32, use len in simp)

lemma later_part:
  assumes ok: "rb_ok rb" and nowrap: "unat (rd_idx rb) + full rb + 1 < unat (rb_size rb)"
    and fresh: "\<forall>x\<in>set (rb_queue rb). sr_seq x \<noteq> seq"
    and len: "length data \<le> 4294967295" and j: "0 < j" "j < nparts (length data)"
  shows "handle_msg junk (Some (part_ring junk ty seq data rb j)) (part_msg ty seq data j) =
    Some (Ret (0, Some (if Suc j = nparts (length data) then whole_ring ty seq data rb
                        else part_ring junk ty seq data rb (Suc j))))"
proof -
  let ?m = "part_msg ty seq data j" and ?L = "length data" and ?w = "unat (wr_idx rb)"
  let ?k = "min (?L - j * 4064) 4064" and ?p = "part_ring junk ty seq data rb j"
  let ?e = "part_entry junk ty seq data (Suc j)"
  note sz = part_msg_size [OF j(2) len, of ty seq] part_msg_size(5) [OF j(2) len j(1), of ty seq]
  have jl: "j * 4064 < ?L" using j nparts_less [of j ?L] by (cases "?L = 0") (auto simp: nparts_def)
  note cnt = part_count [OF len jl j(2)]
  have w: "?w = unat (rd_idx rb) + full rb" "?w < length (reqs rb)"
    using ok nowrap by (auto simp: rb_ok_def)
  have fr: "find_req seq ?p = Some ?w"
    using ok nowrap w fresh by (intro find_part) (auto simp: rb_ok_def)
  have lk: "\<not> lock ?p" using ok by (simp add: rb_ok_def part_ring_def)
  have r: "reqs ?p ! ?w = part_entry junk ty seq data j" using w(2) by (simp add: part_ring_def)
  have m: "rq_seq ?m = seq" "take ?k (rq_data ?m) = take 4064 (drop (j * 4064) data)"
    "rq_part_size ?m = of_nat ?k" by (auto simp: part_msg_def min_def)
  have ov: "overwrite (j * 4064) (take ?k (rq_data ?m)) (filled junk data j) = filled junk data (Suc j)"
    unfolding m(2) by (rule filled_step [OF jl])
  have le: "j * 4064 + ?k \<le> ?L" using jl by simp
  define fin where "fin = (Suc j = nparts ?L)"
  have rep: "?p\<lparr>reqs := (reqs ?p)[?w := x], lock := False\<rparr> =
      rb\<lparr>empty := empty rb - 1, wr_idx := (wr_idx rb + 1) mod rb_size rb, reqs := (reqs rb)[?w := x]\<rparr>" for x
    using lk by (cases rb) (simp add: part_ring_def)
  have "handle_msg junk (Some ?p) ?m = Some (Ret (0, Some (if fin
      then sem_post_full (?p\<lparr>reqs := (reqs ?p)[?w := ?e\<lparr>sr_status := READY\<rparr>], lock := False\<rparr>)
      else ?p\<lparr>reqs := (reqs ?p)[?w := ?e], lock := False\<rparr>)))"
    unfolding handle_msg_def
    using sz(1-4) sz(6,7) fr lk r w(2) m(1,3) ov le cnt [folded fin_def]
    by (simp add: mutex_lock_def mutex_unlock_def sem_post_full_def Let_def length_filled part_entry_def cong: if_cong)
  moreover have "sem_post_full (?p\<lparr>reqs := (reqs ?p)[?w := ?e\<lparr>sr_status := READY\<rparr>], lock := False\<rparr>) =
      whole_ring ty seq data rb" if fin
    unfolding rep using that last_part_iff [OF jl j(2)]
    by (simp add: fin_def sem_post_full_def whole_ring_def whole_entry_def part_entry_def filled_all min_absorb1)
  moreover have "?p\<lparr>reqs := (reqs ?p)[?w := ?e], lock := False\<rparr> = part_ring junk ty seq data rb (Suc j)"
    unfolding rep by (simp add: part_ring_def)
  ultimately show ?thesis by (simp add: fin_def)
qed

lemma feed_rest:
  assumes "rb_ok rb" "unat (rd_idx rb) + full rb + 1 < unat (rb_size rb)"
    "\<forall>x\<in>set (rb_queue rb). sr_seq x \<noteq> seq" "length data \<le> 4294967295" "0 < j"
  shows "Suc k = nparts (length data) - j \<Longrightarrow>
    put_all (feed junk) (map (part_msg ty seq data) [j..<nparts (length data)]) (part_ring junk ty seq data rb j) =
      Some (whole_ring ty seq data rb)"
  using assms(5)
proof (induction k arbitrary: j)
  case 0
  then have "[j..<nparts (length data)] = [j]" "Suc j = nparts (length data)" by (simp_all add: upt_conv_Cons)
  with later_part [OF assms(1-4) 0(2)] show ?case by (simp add: feed_def)
next
  case (Suc k)
  then have n: "j < nparts (length data)" "Suc j \<noteq> nparts (length data)" by linarith+
  then have "[j..<nparts (length data)] = j # [Suc j..<nparts (length data)]" by (simp add: upt_conv_Cons)
  with later_part [OF assms(1-4) Suc.prems(2) n(1)] Suc.IH [of "Suc j"] Suc.prems n(2) show ?case
    by (simp add: feed_def)
qed

lemma whole_ring_ok:
  assumes ok: "rb_ok rb" and room: "full rb < unat (rb_size rb)"
  shows "rb_ok (whole_ring ty seq data rb)" "rb_queue (whole_ring ty seq data rb) = rb_queue rb @ [whole_entry ty seq data]"
proof -
  let ?n = "unat (rb_size rb)" and ?w = "unat (wr_idx rb)" and ?r = "unat (rd_idx rb)"
  have w: "?w < ?n" "?w = (?r + full rb) mod ?n" using ok by (auto simp: rb_ok_def)
  have "unat ((wr_idx rb + 1) mod rb_size rb) = (?r + Suc (full rb)) mod ?n"
    using next_idx [of "wr_idx rb" "rb_size rb"] w ok by (simp add: rb_ok_def mod_Suc_eq)
  then show "rb_ok (whole_ring ty seq data rb)" using ok room by (auto simp: rb_ok_def whole_ring_def)
  have "?n \<le> length (reqs rb)" using ok by (simp add: rb_ok_def)
  with w(1) have "?w < length (reqs rb)" by linarith
  moreover have "?w \<noteq> (?r + i) mod ?n" if "i < full rb" for i
    using ring_distinct [OF that room, of ?r] w(2) by simp
  ultimately show "rb_queue (whole_ring ty seq data rb) = rb_queue rb @ [whole_entry ty seq data]"
    by (simp add: rb_queue_def whole_ring_def flip: w(2))
qed

text \<open>All parts, in order and without a message in between.\<close>

lemma feed_all:
  assumes "rb_ok rb" "unat (rd_idx rb) + full rb + 1 < unat (rb_size rb)"
    "\<forall>x\<in>set (rb_queue rb). sr_seq x \<noteq> seq" "4064 < length data" "length data \<le> 4294967295"
  shows "put_all (feed junk) (request_parts ty seq data) rb = Some (whole_ring ty seq data rb)"
proof -
  have n: "1 < nparts (length data)" by (rule several_parts [OF assms(4)])
  then have "[0..<nparts (length data)] = 0 # [1..<nparts (length data)]" by (simp add: upt_conv_Cons)
  moreover have "full rb < unat (rb_size rb)" using assms(2) by linarith
  note first_part [OF assms(1) this assms(4,5), of junk ty seq]
  moreover have "put_all (feed junk) (map (part_msg ty seq data) [1..<nparts (length data)])
      (part_ring junk ty seq data rb 1) = Some (whole_ring ty seq data rb)"
    using n by (intro feed_rest [OF assms(1-3,5), where k = "nparts (length data) - 2"]) auto
  ultimately show ?thesis
    unfolding request_parts_several [OF assms(4,5)] by (simp add: feed_def)
qed

text \<open>After the write index has wrapped, later parts do not find the request.\<close>

lemma part_not_found:
  assumes "unat (wr_idx rb) \<le> unat (rd_idx rb)" "rq_multipart m \<noteq> 0" "rq_data_offset m \<noteq> 0"
  shows "handle_msg junk (Some rb) m = Some (Ret (-1, Some rb))"
  using assms by (simp add: handle_msg_def find_req_def)

end
