(* ===== verification/Server_Parts.thy ===== *)
theory Server_Parts
  imports Server_Runs Reassembly
begin

text \<open>
  Requests of any number of parts in the service process: received, taken and served when nothing
  comes in between.
\<close>

lemma service_run_append:
  "service_run junk s es (Ret t) \<Longrightarrow> service_run junk t fs r \<Longrightarrow> service_run junk s (es @ fs) r"
proof (induction es arbitrary: s)
  case Nil
  then show ?case by (auto elim: service_run.cases)
next
  case (Cons e es)
  from Cons.prems(1) obtain u where "service_step junk s e (Ret u)" "service_run junk u es (Ret t)"
    by (cases rule: service_run.cases) auto
  with Cons show ?case by (auto intro: service_run.step)
qed

lemma service_run_one: "service_step junk s e r \<Longrightarrow> service_run junk s [e] r"
  by (cases r) (auto intro: service_run.intros)

text \<open>A message that fits the buffer is handled as it was sent.\<close>

definition fits :: "request_t \<Rightarrow> bool" where
  "fits m \<longleftrightarrow> length (rq_data m) \<le> 4064 \<and> unat (rq_part_size m) = length (rq_data m) \<and>
     (rq_multipart m = 0 \<longrightarrow> rq_data_size m = rq_part_size m)"

lemma handle_in_buffer: "fits m \<Longrightarrow> handle_msg junk rbuf (in_buffer m) = handle_msg junk rbuf m"
  by (cases "rq_multipart m = 0") (simp_all add: fits_def handle_msg_def in_buffer_def Let_def cong: if_cong option.case_cong)

lemma receive_fits:
  assumes "inbox s = m # ms" "fits m"
  shows "receive junk s = map_option (\<lambda>r. obind r (\<lambda>(c, rb).
    if c \<noteq> 0 then Exit else Ret (s\<lparr>inbox := ms, server_buf := rb\<rparr>))) (handle_msg junk (server_buf s) m)"
proof -
  have l: "unat (rq_part_size m) = length (rq_data m)" "length (rq_data m) \<le> 4064" using assms(2) by (auto simp: fits_def)
  have "unat (8 + rq_part_size m) = 8 + length (rq_data m)" using l by (subst unat_add_u32) simp_all
  then have "sint (8 + rq_part_size m) = 8 + int (length (rq_data m))"
    using sint_small [of "8 + rq_part_size m"] l by simp
  moreover have "rq_part_size (in_buffer m) = rq_part_size m" by (simp add: in_buffer_def)
  ultimately show ?thesis
    using assms l handle_in_buffer [OF assms(2)] by (simp add: receive_def msgrcv_request_def)
qed

text \<open>Receiving a batch of messages that the ring takes.\<close>

lemma receive_all:
  "inbox s = ms @ rest \<Longrightarrow> working s \<Longrightarrow> server_buf s = Some rb \<Longrightarrow> \<forall>m\<in>set ms. fits m \<Longrightarrow>
   put_all (feed junk) ms rb = Some rb' \<Longrightarrow>
   service_run junk s (replicate (length ms) Receive) (Ret (s\<lparr>inbox := rest, server_buf := Some rb'\<rparr>))"
proof (induction ms arbitrary: s rb)
  case Nil
  then have "s\<lparr>inbox := rest, server_buf := Some rb'\<rparr> = s" by (cases s) simp
  then show ?case using service_run.nil [of junk s] by simp
next
  case (Cons m ms)
  obtain rb1 where f: "feed junk m rb = Some rb1" "put_all (feed junk) ms rb1 = Some rb'"
    using Cons.prems(5) by (cases "feed junk m rb") auto
  then have "handle_msg junk (Some rb) m = Some (Ret (0, Some rb1))"
    by (auto simp: feed_def split: option.splits outcome.splits if_splits)
  with Cons.prems receive_fits [of s m "ms @ rest" junk]
  have "receive junk s = Some (Ret (s\<lparr>inbox := ms @ rest, server_buf := Some rb1\<rparr>))" by simp
  with Cons.prems(2) have st: "service_step junk s Receive (Ret (s\<lparr>inbox := ms @ rest, server_buf := Some rb1\<rparr>))" by simp
  have "service_run junk (s\<lparr>inbox := ms @ rest, server_buf := Some rb1\<rparr>) (replicate (length ms) Receive)
      (Ret (s\<lparr>inbox := ms @ rest, server_buf := Some rb1\<rparr>\<lparr>inbox := rest, server_buf := Some rb'\<rparr>))"
    using Cons.prems f(2) by (intro Cons.IH) simp_all
  with service_run.step [OF st] show ?case by simp
qed

lemma request_parts_fit:
  assumes "length data \<le> 4294967295"
  shows "\<forall>m\<in>set (request_parts ty seq data). fits m"
proof (cases "length data \<le> 4064")
  case True
  then have "unat (of_nat (length data) :: u32) = length data" by (intro unat_of_nat_u32) simp
  with True show ?thesis by (simp add: request_parts_one fits_def)
next
  case False
  then have "4064 < length data" by simp
  then show ?thesis
    using part_msg_size [OF _ assms] by (auto simp: request_parts_several [OF _ assms] fits_def)
qed

text \<open>The request the worker gets.\<close>

definition is_request :: "req_type \<Rightarrow> u64 \<Rightarrow> byte list \<Rightarrow> service_req_t \<Rightarrow> bool" where
  "is_request ty seq data req \<longleftrightarrow> sr_type req = ty \<and> sr_seq req = seq \<and> sr_status req = READY \<and>
     sr_data_size req = of_nat (length data) \<and> sr_data req = Some data"

text \<open>
  The queue and two more slots lie in one piece before the end of the ring, and no request that waits has the
  sequence number. Without this a request in several parts is lost.
\<close>

definition ring_room :: "u64 \<Rightarrow> req_buffer_t \<Rightarrow> bool" where
  "ring_room seq rb \<longleftrightarrow> unat (rd_idx rb) + full rb + 1 < unat (rb_size rb) \<and> (\<forall>x\<in>set (rb_queue rb). sr_seq x \<noteq> seq)"

lemma feed_request:
  assumes "rb_ok rb" "full rb < unat (rb_size rb)" "4064 < length data \<Longrightarrow> ring_room seq rb" "length data \<le> 4294967295"
  obtains rb' req where "put_all (feed junk) (request_parts ty seq data) rb = Some rb'" "rb_ok rb'"
    "rb_queue rb' = rb_queue rb @ [req]" "is_request ty seq data req" "rb_size rb' = rb_size rb" "rd_idx rb' = rd_idx rb"
proof (cases "length data \<le> 4064")
  case True
  let ?m = "\<lparr>rq_seq = seq, rq_type = ty, rq_multipart = 0, rq_data_size = of_nat (length data),
    rq_data_offset = 0, rq_part_size = of_nat (length data), rq_data = data\<rparr>"
  have u: "unat (of_nat (length data) :: u32) = length data" using True by (intro unat_of_nat_u32) simp
  have "single_ok ?m" using u by (simp add: single_ok_def)
  from single_room [OF assms(1) this assms(2), of junk] obtain rb' where
    "handle_msg junk (Some rb) ?m = Some (Ret (0, Some rb'))" "rb_ok rb'" "rb_queue rb' = rb_queue rb @ [entry_of ?m]"
    "rb_size rb' = rb_size rb" "rd_idx rb' = rd_idx rb" by blast
  moreover have "is_request ty seq data (entry_of ?m)" by (simp add: is_request_def entry_of_def u)
  moreover have "put_all (feed junk) (request_parts ty seq data) rb = Some rb'"
    using calculation(1) by (simp add: request_parts_one [OF True] feed_def)
  ultimately show thesis by (intro that)
next
  case False
  then have l: "4064 < length data" by simp
  have room: "unat (rd_idx rb) + full rb + 1 < unat (rb_size rb)" "\<forall>x\<in>set (rb_queue rb). sr_seq x \<noteq> seq"
    using assms(3) [OF l] by (auto simp: ring_room_def)
  note ok = whole_ring_ok [OF assms(1,2), of ty seq data]
  show thesis
    by (rule that [OF feed_all [OF assms(1) room l assms(4)] ok])
      (simp_all add: is_request_def whole_entry_def whole_ring_def)
qed

text \<open>One request on an idle service: received, taken and served.\<close>

lemma serve_one_request:
  assumes s: "working s" "worker s = Idle" "server_buf s = Some rb" "inbox s = request_parts ty seq data @ rest"
    and rb: "rb_ok rb" "rb_queue rb = []" "unat (rb_size rb) = 256" "unat (rd_idx rb) < 255"
    and len: "length data \<le> 4294967295"
  obtains req r where "is_request ty seq data req"
    "service_run junk s (replicate (length (request_parts ty seq data)) Receive @ [Take, Serve]) r"
    "map_outcome tables r = map_outcome snd (dispatch req (tables s))"
    "\<forall>t. r = Ret t \<longrightarrow> working t \<and> worker t = Idle \<and> inbox t = rest \<and> (\<exists>rb'. server_buf t = Some rb' \<and>
       rb_ok rb' \<and> rb_queue rb' = [] \<and> unat (rb_size rb') = 256 \<and> unat (rd_idx rb') = Suc (unat (rd_idx rb)))"
proof -
  have "full rb = 0" using rb(2) by (simp flip: length_rb_queue)
  then have "full rb < unat (rb_size rb)" "ring_room seq rb" using rb by (simp_all add: ring_room_def)
  from feed_request [OF rb(1) this len, of junk ty] obtain rb1 req where
    f: "put_all (feed junk) (request_parts ty seq data) rb = Some rb1" "rb_ok rb1" "rb_queue rb1 = [req]"
      "is_request ty seq data req" "rb_size rb1 = rb_size rb" "rd_idx rb1 = rd_idx rb"
    using rb(2) by auto
  let ?s1 = "s\<lparr>inbox := rest, server_buf := Some rb1\<rparr>" and ?i = "unat (rd_idx rb)"
  have rc: "service_run junk s (replicate (length (request_parts ty seq data)) Receive) (Ret ?s1)"
    by (rule receive_all [OF s(4,1,3) request_parts_fit [OF len] f(1)])
  from take_first [OF f(2,3)] obtain rb2 where
    g: "get_service_req (Some rb1) True = Some (0, Some ?i, Some rb2)" "reqs rb2 ! ?i = req" "rb_ok rb2"
      "rb_queue rb2 = []" "rb_size rb2 = rb_size rb" "unat (rd_idx rb2) = Suc ?i mod unat (rb_size rb)"
    unfolding f(5,6) by auto
  let ?s2 = "?s1\<lparr>server_buf := Some rb2, worker := Serving ?i\<rparr>"
  have tk: "service_step junk ?s1 Take (Ret ?s2)" using g(1) s by (simp add: operate_take_def)
  define fin where "fin = req\<lparr>sr_data := None, sr_data_offset := 0, sr_data_size := 0, sr_status := COMPLETED\<rparr>"
  let ?rb3 = "rb2\<lparr>reqs := (reqs rb2)[?i := fin]\<rparr>"
  have il: "?i < length (reqs rb2)" using g(3,5) rb(3,4) by (simp add: rb_ok_def)
  define r where "r = operate_serve ?i ?s2"
  have r: "r = obind (dispatch req (tables s)) (\<lambda>(_, t). Ret (?s2\<lparr>tables := t, worker := Idle, server_buf := Some ?rb3\<rparr>))"
    using il g(2) f(4) by (simp add: r_def operate_serve_def Let_def is_request_def fin_def)
  have sv: "service_step junk ?s2 Serve r" by (simp add: r_def)
  have f2: "full rb2 = 0" using g(4) by (simp flip: length_rb_queue)
  have ok3: "rb_ok ?rb3" "rb_queue ?rb3 = []"
    using cleared_slot [of rb2 ?i fin] g rb f2 by auto
  show thesis
  proof (rule that [of req r])
    show "is_request ty seq data req" by (rule f(4))
    show "service_run junk s (replicate (length (request_parts ty seq data)) Receive @ [Take, Serve]) r"
      by (rule service_run_append [OF rc service_run.step [OF tk service_run_one [OF sv]]])
    show "map_outcome tables r = map_outcome snd (dispatch req (tables s))"
      unfolding r by (cases "dispatch req (tables s)") auto
    show "\<forall>t. r = Ret t \<longrightarrow> working t \<and> worker t = Idle \<and> inbox t = rest \<and> (\<exists>rb'. server_buf t = Some rb' \<and>
       rb_ok rb' \<and> rb_queue rb' = [] \<and> unat (rb_size rb') = 256 \<and> unat (rd_idx rb') = Suc ?i)"
    proof (intro allI impI)
    fix t assume "r = Ret t"
    then obtain u where t: "t = ?s2\<lparr>tables := u, worker := Idle, server_buf := Some ?rb3\<rparr>"
      unfolding r by (cases "dispatch req (tables s)") auto
    show "working t \<and> worker t = Idle \<and> inbox t = rest \<and> (\<exists>rb'. server_buf t = Some rb' \<and>
       rb_ok rb' \<and> rb_queue rb' = [] \<and> unat (rb_size rb') = 256 \<and> unat (rd_idx rb') = Suc ?i)"
      unfolding t using ok3 g(5,6) rb(3,4) s(1) by simp
    qed
  qed
qed

end
