(* ===== verification/Service_Spec.thy ===== *)
theory Service_Spec
  imports Server_Parts
begin

text \<open>
  What the service promises for a request, and that the handlers keep it: \<open>call\<close> is a request with its
  arguments, \<open>call_args\<close> the bytes the client sends for it, \<open>answer\<close> the status, the response data and
  the tables that follow, on the specification state \<open>afs\<close>. \<open>stack\<close> and \<open>heap\<close> are the
  contents of uninitialised memory.
\<close>

datatype call =
    Create u32 u32 u64 "byte list"
  | Chmode u32 u32 u64 "byte list"
  | Rename "byte list" "byte list"
  | Unlink u32 u32 "byte list"
  | Open u32 u32 "byte list" u32
  | Close u32 u32 u32
  | Write u32 u32 u32 "byte list"
  | Read u32 u32 u32 u32
  | Seek u32 u32 u32 u32
  | Stat u32 u32 "byte list"
  | Link u32 u32 "byte list" "byte list"
  | Symlink u32 u32 u64 "byte list" "byte list"

fun call_type :: "call \<Rightarrow> req_type" where
  "call_type (Create uid gid md name) = CREATE"
| "call_type (Chmode uid gid md name) = CHMODE"
| "call_type (Rename old new) = RENAME"
| "call_type (Unlink uid gid name) = UNLINK"
| "call_type (Open uid gid name flags) = OPEN"
| "call_type (Close uid gid fd) = CLOSE"
| "call_type (Write uid gid fd data) = WRITE"
| "call_type (Read uid gid fd n) = READ"
| "call_type (Seek uid gid fd off) = SEEK"
| "call_type (Stat uid gid name) = STAT"
| "call_type (Link uid gid name new) = LINK"
| "call_type (Symlink uid gid md name new) = SYMLINK"

fun call_args :: "call \<Rightarrow> byte list" where
  "call_args (Create uid gid md name) = put_u32 uid @ put_u32 gid @ put_u64 md @ put_str name"
| "call_args (Chmode uid gid md name) = put_u32 uid @ put_u32 gid @ put_u64 md @ put_str name"
| "call_args (Rename old new) = put_str old @ put_str new"
| "call_args (Unlink uid gid name) = put_u32 uid @ put_u32 gid @ put_str name"
| "call_args (Open uid gid name flags) = put_u32 uid @ put_u32 gid @ put_str name @ put_u32 flags"
| "call_args (Close uid gid fd) = put_u32 uid @ put_u32 gid @ put_u32 fd"
| "call_args (Write uid gid fd data) = put_u32 uid @ put_u32 gid @ put_u32 fd @ put_u32 (of_nat (length data)) @ data"
| "call_args (Read uid gid fd n) = put_u32 uid @ put_u32 gid @ put_u32 fd @ put_u32 n"
| "call_args (Seek uid gid fd off) = put_u32 uid @ put_u32 gid @ put_u32 fd @ put_u32 off"
| "call_args (Stat uid gid name) = put_u32 uid @ put_u32 gid @ put_str name"
| "call_args (Link uid gid name new) = put_u32 uid @ put_u32 gid @ put_str name @ put_str new"
| "call_args (Symlink uid gid md name new) = put_u32 uid @ put_u32 gid @ put_u64 md @ put_str name @ put_str new"

text \<open>The names fit the buffers of the handlers.\<close>

fun call_ok :: "call \<Rightarrow> bool" where
  "call_ok (Create uid gid md name) = str_ok name"
| "call_ok (Chmode uid gid md name) = str_ok name"
| "call_ok (Rename old new) = (str_ok old \<and> str_ok new)"
| "call_ok (Unlink uid gid name) = str_ok name"
| "call_ok (Open uid gid name flags) = str_ok name"
| "call_ok (Write uid gid fd data) = (length data \<le> 4294800000)"
| "call_ok (Stat uid gid name) = str_ok name"
| "call_ok (Link uid gid name new) = (str_ok name \<and> str_ok new)"
| "call_ok (Symlink uid gid md name new) = (str_ok name \<and> str_ok new)"
| "call_ok _ = True"

subsection \<open>The answer\<close>

text \<open>The status of a permission check, on the attributes of the named file (zeros if there is none).\<close>

definition a_check :: "(u32 \<Rightarrow> u32 \<Rightarrow> u64 \<Rightarrow> status \<Rightarrow> status) \<Rightarrow> byte list \<Rightarrow> afs \<Rightarrow> status" where
  "a_check chk name a = (case inode_no a (target a name) of
     None \<Rightarrow> chk 0 0 0 FAILURE | Some n \<Rightarrow> chk (owner n) (owner_group n) (mode n) SUCCESS)"

definition read_check :: "u32 \<Rightarrow> u32 \<Rightarrow> u32 \<Rightarrow> u32 \<Rightarrow> u64 \<Rightarrow> status \<Rightarrow> status" where
  "read_check uid gid own grp perms st = (if read_refused uid gid own grp perms then INSUFFICIENT_PERMS else st)"

definition write_check :: "u32 \<Rightarrow> u32 \<Rightarrow> u32 \<Rightarrow> u32 \<Rightarrow> u64 \<Rightarrow> status \<Rightarrow> status" where
  "write_check uid gid own grp perms st = (if write_refused uid gid own grp perms then INSUFFICIENT_PERMS else st)"

definition checked :: "status \<Rightarrow> byte list \<Rightarrow> afs \<Rightarrow> (status \<times> byte list \<times> afs) outcome \<Rightarrow>
    (status \<times> byte list \<times> afs) outcome" where
  "checked st refusal a m = (if st = SUCCESS then m else Ret (st, refusal, a))"

definition no_data :: "(status \<times> afs) outcome \<Rightarrow> (status \<times> byte list \<times> afs) outcome" where
  "no_data m = obind m (\<lambda>(st, a). Ret (st, [], a))"

fun answer :: "(nat \<Rightarrow> byte) \<Rightarrow> (nat \<Rightarrow> byte) \<Rightarrow> call \<Rightarrow> afs \<Rightarrow> (status \<times> byte list \<times> afs) outcome" where
  "answer stack heap (Create uid gid md name) a =
     obind (a_create name uid gid md a) (\<lambda>(st, i, a'). Ret (st, put_u32 i, a'))"
| "answer stack heap (Chmode uid gid md name) a =
     checked (a_check (write_check uid gid) name a) [] a (no_data (a_chmod name (ucast md) a))"
| "answer stack heap (Rename old new) a = (if pw_dir (host (a_disk a)) = None then Exit else
     obind (a_rename old new a) (\<lambda>(st, a'). Ret (if st = SUCCESS then SUCCESS else FAILURE, [], a')))"
| "answer stack heap (Unlink uid gid name) a = no_data (a_unlink name a)"
| "answer stack heap (Open uid gid name flags) a =
     checked (a_check (open_check flags uid gid) name a) (put_u32 0) a
       (obind (a_open 0 name flags a) (\<lambda>(st, fd, a'). Ret (st, put_u32 fd, a')))"
| "answer stack heap (Close uid gid fd) a = no_data (a_close fd a)"
| "answer stack heap (Write uid gid fd data) a = no_data (a_write fd data (of_nat (length data)) a)"
| "answer stack heap (Read uid gid fd n) a =
     obind (a_read fd (map heap [0..<unat n]) n a) (\<lambda>(st, buf, a'). Ret (st, if st = SUCCESS then buf else [], a'))"
| "answer stack heap (Seek uid gid fd off) a = no_data (a_seek fd off a)"
| "answer stack heap (Stat uid gid name) a =
     checked (a_check (read_check uid gid) name a) (map stack [0..<56]) a
       (obind (a_stat name a) (\<lambda>(st, t, a'). Ret (st, case t of Some t \<Rightarrow> put_stat t | None \<Rightarrow> [], a')))"
| "answer stack heap (Link uid gid name new) a =
     checked (a_check (read_check uid gid) name a) [] a (no_data (a_link name new a))"
| "answer stack heap (Symlink uid gid md name new) a =
     checked (a_check (read_check uid gid) name a) [] a (no_data (a_symlink name new uid gid md a))"

text \<open>The conditions under which the tables implement their specification.\<close>

fun call_safe :: "call \<Rightarrow> afs \<Rightarrow> bool" where
  "call_safe (Unlink uid gid name) a = (numbers_left a \<and> unlink_safe name a)"
| "call_safe c a = numbers_left a"

subsection \<open>Sending\<close>

lemma send_all_ok: "0 < sint seq \<Longrightarrow> \<forall>r\<in>set rs. rs_seq r = seq \<Longrightarrow> send_all rs s = Ret (s\<lparr>sent := sent s @ rs\<rparr>)"
  by (induction rs arbitrary: s) (auto simp: msgsnd_def)

lemma response_parts_seq: "\<forall>r\<in>set (response_parts seq st p). rs_seq r = seq"
  by (auto simp: response_parts_def Let_def)

lemma response_parts_small:
  assumes "length p \<le> 4064"
  shows "response_parts seq st p = [(plain_response seq st)\<lparr>rs_data_size := of_nat (length p),
    rs_part_size := of_nat (length p), rs_data := p\<rparr>]"
proof -
  have u: "unat (of_nat (length p) :: u32) = length p" using assms by (intro unat_of_nat_u32) simp
  have n: "nparts (length p) = 1" by (rule one_part [OF assms])
  have "unat (num_of_parts (of_nat (length p))) = 1" by (simp add: unat_num_of_parts u n)
  then have "num_of_parts (of_nat (length p)) = 1" by (metis of_nat_unat_u32 of_nat_1)
  moreover have "message_parts (of_nat (length p)) = [(0, of_nat (length p))]"
    using assms u n by (subst message_parts_list) simp_all
  ultimately show ?thesis
    using u by (simp add: response_parts_def Let_def multipart_flag_def part_bytes_def plain_response_def)
qed

subsection \<open>Handlers answer\<close>

definition answers :: "u64 \<Rightarrow> server \<Rightarrow> (status \<times> server) outcome \<Rightarrow> (status \<times> byte list \<times> afs) outcome \<Rightarrow> bool" where
  "answers seq s = rel_outcome (\<lambda>(_, s') (st, p, a'). \<exists>f. fs_rel f a' \<and>
     s' = s\<lparr>sv_fs := f, sent := sent s @ response_parts seq st p\<rparr>)"

lemma reply_eq: "0 < sint seq \<Longrightarrow> reply seq st s = Ret (st, s\<lparr>sent := sent s @ response_parts seq st []\<rparr>)"
  by (simp add: reply_def msgsnd_def response_parts_small plain_response_def)

lemma send_parts: "0 < sint seq \<Longrightarrow>
    send_all (response_parts seq st p) s = Ret (s\<lparr>sent := sent s @ response_parts seq st p\<rparr>)"
  by (rule send_all_ok [OF _ response_parts_seq])

lemma answers_reply:
  assumes "0 < sint seq" "refines m m'"
  shows "answers seq s (obind (on_fs m s) (\<lambda>(st, s'). reply seq st s')) (no_data m')"
  using assms(2) by (cases m; cases m') (auto simp: answers_def on_fs_def no_data_def reply_eq [OF assms(1)])

lemma answers_refused:
  assumes "0 < sint seq" "fs_rel (sv_fs s) a"
  shows "answers seq s (reply seq st s) (Ret (st, [], a))"
  using assms by (auto simp: answers_def reply_eq intro!: exI [of _ "sv_fs s"])

lemma file_perms_check:
  assumes "fs_rel (sv_fs s) a" and "\<And>own grp perms st. F (st, own, grp, perms) = G (chk own grp perms st)"
  shows "obind (file_perms name s) F = G (a_check chk name a)"
  using assms by (simp add: file_perms_def perms_refines a_perms_def a_check_def split: option.split)

text \<open>A checked operation with a plain reply.\<close>

lemma answers_checked:
  assumes "0 < sint seq" "fs_rel (sv_fs s) a" "refines m m'"
  shows "answers seq s (obind (if st = SUCCESS then on_fs m s else Ret (st, s)) (\<lambda>(st, s'). reply seq st s'))
    (checked st [] a (no_data m'))"
  using answers_reply [OF assms(1,3)] answers_refused [OF assms(1,2)] by (simp add: checked_def)

lemma checked_handler:
  assumes "0 < sint seq" "fs_rel (sv_fs s) a" "refines m m'"
    and "\<And>own grp perms st. F (st, own, grp, perms) =
      obind (if chk own grp perms st = SUCCESS then on_fs m s else Ret (chk own grp perms st, s)) (\<lambda>(st, s'). reply seq st s')"
  shows "answers seq s (obind (file_perms name s) F) (checked (a_check chk name a) [] a (no_data m'))"
proof -
  let ?G = "\<lambda>st. obind (if st = SUCCESS then on_fs m s else Ret (st, s)) (\<lambda>(st, s'). reply seq st s')"
  have "obind (file_perms name s) F = ?G (a_check chk name a)"
    by (rule file_perms_check [where G = ?G and chk = chk and F = F, OF assms(2,4)])
  with answers_checked [OF assms(1-3)] show ?thesis by simp
qed

text \<open>The handlers that turn every failed look-up into \<open>FAILURE\<close>.\<close>

lemma checked_handler':
  assumes "0 < sint seq" "fs_rel (sv_fs s) a" "refines m m'"
    and "\<And>own grp perms st. F (st, own, grp, perms) =
      (let st' = chk own grp perms (if st \<noteq> SUCCESS then FAILURE else SUCCESS)
       in obind (if st' = SUCCESS then on_fs m s else Ret (st', s)) (\<lambda>(st, s'). reply seq st s'))"
  shows "answers seq s (obind (file_perms name s) F) (checked (a_check chk name a) [] a (no_data m'))"
proof -
  let ?chk = "\<lambda>own grp perms st. chk own grp perms (if st \<noteq> SUCCESS then FAILURE else SUCCESS)"
  have "a_check ?chk name a = a_check chk name a" by (simp add: a_check_def split: option.split)
  with checked_handler [where chk = ?chk and F = F and name = name, OF assms(1-3) assms(4) [unfolded Let_def]] show ?thesis by simp
qed

lemmas parse_simps = with_queue_def req_data_def u32.dec_enc u64.dec_enc str.dec_enc u32.dec_exact u64.dec_exact
  str.dec_exact Let_def

end
