(* ===== verification/Service_Refine.thy ===== *)
theory Service_Refine
  imports Service_Spec
begin

text \<open>
  The handlers of \<^verbatim>\<open>service/operations.c\<close> answer as \<open>Service_Spec\<close> says, for related tables.
\<close>

lemmas req_simps = answer.simps call_args.simps parse_simps

lemma create_answers:
  assumes "sr_data req = Some (call_args (Create uid gid md name))" "sr_seq req = seq" "0 < sint seq" "str_ok name"
    "queue_ok s" "fs_rel (sv_fs s) a"
  shows "answers seq s (service_create req s) (answer stack heap (Create uid gid md name) a)"
  using create_refines [OF assms(6), of name uid gid md] assms(1-5)
  by (cases "create_file name uid gid md (sv_fs s)"; cases "a_create name uid gid md a")
    (auto simp: service_create_def req_simps send_parts answers_def)

lemma chmode_answers:
  assumes "sr_data req = Some (call_args (Chmode uid gid md name))" "sr_seq req = seq" "0 < sint seq" "str_ok name"
    "queue_ok s" "fs_rel (sv_fs s) a"
  shows "answers seq s (service_chmode req s) (answer stack heap (Chmode uid gid md name) a)"
  by (simp add: service_chmode_def req_simps assms(1-5))
    (rule checked_handler [OF assms(3,6) chmod_refines [OF assms(6)]], simp add: write_check_def)

lemma rename_answers:
  assumes "sr_data req = Some (call_args (Rename old new))" "sr_seq req = seq" "0 < sint seq" "str_ok old" "str_ok new"
    "queue_ok s" "fs_rel (sv_fs s) a"
  shows "answers seq s (service_rename req s) (answer stack heap (Rename old new) a)"
proof -
  have "rename_status st = (if st = SUCCESS then SUCCESS else FAILURE)" for st
    by (cases st) (simp_all add: rename_status_def)
  moreover have "data_disk (sv_fs s) = a_disk a" using assms(7) by (simp add: fs_rel_def)
  moreover have "msgsnd (plain_response seq st) t = Ret (t\<lparr>sent := sent t @ response_parts seq st []\<rparr>)" for st t
    using assms(3) by (simp add: msgsnd_def response_parts_small plain_response_def)
  ultimately show ?thesis
    using rename_refines [OF assms(7), of old new] assms(1-6)
    by (cases "rename_file (filename_table (sv_fs s)) old new"; cases "a_rename old new a")
      (auto simp: service_rename_def req_simps answers_def)
qed

lemma unlink_answers:
  assumes "sr_data req = Some (call_args (Unlink uid gid name))" "sr_seq req = seq" "0 < sint seq" "str_ok name"
    "queue_ok s" "fs_rel (sv_fs s) a" "unlink_safe name a"
  shows "answers seq s (service_unlink req s) (answer stack heap (Unlink uid gid name) a)"
  using assms(1-5) answers_reply [OF assms(3) unlink_refines [OF assms(6,7)]]
  by (simp add: service_unlink_def req_simps)

lemma open_answers:
  assumes "sr_data req = Some (call_args (Open uid gid name flags))" "sr_seq req = seq" "0 < sint seq" "str_ok name"
    "queue_ok s" "fs_rel (sv_fs s) a"
  shows "answers seq s (service_open req s) (answer stack heap (Open uid gid name flags) a)"
proof -
  let ?send = "\<lambda>st fd t. obind (msgsnd ((plain_response seq st)\<lparr>rs_data_size := 4, rs_part_size := 4, rs_data := put_u32 fd\<rparr>) t)
    (\<lambda>t'. Ret (st, t'))"
  have send: "?send st fd t = Ret (st, t\<lparr>sent := sent t @ response_parts seq st (put_u32 fd)\<rparr>)" for st fd t
    using assms(3) by (simp add: msgsnd_def response_parts_small plain_response_def)
  let ?run = "\<lambda>st. obind (if st = SUCCESS
      then obind (open_inode (head (inode_table (sv_fs s))) 0 name flags (sv_fs s)) (\<lambda>(st, fd, f). Ret (st, fd, s\<lparr>sv_fs := f\<rparr>))
      else Ret (st, 0, s)) (\<lambda>(st, fd, t). ?send st fd t)"
  have "service_open req s = obind (file_perms name s) (\<lambda>(st, own, grp, perms).
      ?run (open_check flags uid gid own grp perms (if st \<noteq> SUCCESS then FAILURE else SUCCESS)))"
    using assms(1-5) by (simp add: service_open_def req_simps)
  also have "\<dots> = ?run (a_check (open_check flags uid gid) name a)"
    using assms(6) by (simp add: file_perms_def perms_refines a_perms_def a_check_def split: option.split)
  finally have eq: "service_open req s = ?run (a_check (open_check flags uid gid) name a)" .
  show ?thesis
    unfolding eq send using open_refines [OF assms(6), of 0 name flags]
    by (cases "open_inode (head (inode_table (sv_fs s))) 0 name flags (sv_fs s)"; cases "a_open 0 name flags a")
      (use assms(6) in \<open>auto simp: checked_def answers_def\<close>)
qed

lemma close_answers:
  assumes "sr_data req = Some (call_args (Close uid gid fd))" "sr_seq req = seq" "0 < sint seq"
    "queue_ok s" "fs_rel (sv_fs s) a"
  shows "answers seq s (service_close req s) (answer stack heap (Close uid gid fd) a)"
  using assms(1-4) answers_reply [OF assms(3) close_refines [OF assms(5)]]
  by (simp add: service_close_def req_simps)

lemma write_answers:
  assumes "sr_data req = Some (call_args (Write uid gid fd data))" "sr_seq req = seq" "0 < sint seq"
    "length data \<le> 4294800000" "queue_ok s" "fs_rel (sv_fs s) a"
  shows "answers seq s (service_write req s) (answer stack heap (Write uid gid fd data) a)"
proof -
  have "unat (of_nat (length data) :: u32) = length data" using assms(4) by (intro unat_of_nat_u32) simp
  with assms(1-5) answers_reply [OF assms(3) write_refines [OF assms(6)]]
  show ?thesis by (simp add: service_write_def req_simps)
qed

lemma read_answers:
  assumes "sr_data req = Some (call_args (Read uid gid fd n))" "sr_seq req = seq" "0 < sint seq"
    "queue_ok s" "fs_rel (sv_fs s) a" "heap_junk s = heap"
  shows "answers seq s (service_read req s) (answer stack heap (Read uid gid fd n) a)"
  using read_refines [OF assms(5), of fd "map heap [0..<unat n]" n] assms
  by (cases "read_inode_fd (head (inode_table (sv_fs s))) fd (map heap [0..<unat n]) n (sv_fs s)";
      cases "a_read fd (map heap [0..<unat n]) n a")
    (auto simp: service_read_def req_simps send_parts answers_def)

lemma seek_answers:
  assumes "sr_data req = Some (call_args (Seek uid gid fd off))" "sr_seq req = seq" "0 < sint seq"
    "queue_ok s" "fs_rel (sv_fs s) a"
  shows "answers seq s (service_seek req s) (answer stack heap (Seek uid gid fd off) a)"
  using assms(1-4) answers_reply [OF assms(3) seek_refines [OF assms(5)]]
  by (simp add: service_seek_def req_simps)

lemma stat_answers:
  assumes "sr_data req = Some (call_args (Stat uid gid name))" "sr_seq req = seq" "0 < sint seq" "str_ok name"
    "queue_ok s" "fs_rel (sv_fs s) a" "stack_junk s = stack"
  shows "answers seq s (service_stat req s) (answer stack heap (Stat uid gid name) a)"
proof -
  let ?run = "\<lambda>st. obind (if st = SUCCESS
      then obind (get_file_stat_from_inode (head (inode_table (sv_fs s))) name (sv_fs s)) (\<lambda>(st, t, f).
             Ret (st, case t of Some t \<Rightarrow> put_stat t | None \<Rightarrow> [], s\<lparr>sv_fs := f\<rparr>))
      else Ret (st, map (stack_junk s) [0..<56], s))
      (\<lambda>(st, copy_buf, s'). obind (send_all (response_parts seq st copy_buf) s') (\<lambda>s''. Ret (st, s'')))"
  have "service_stat req s = obind (file_perms name s) (\<lambda>(st0, own, grp, perms).
      ?run (if read_refused uid gid own grp perms then INSUFFICIENT_PERMS else if st0 \<noteq> SUCCESS then FAILURE else SUCCESS))"
    using assms(1-5) by (simp add: service_stat_def req_simps)
  also have "\<dots> = ?run (a_check (read_check uid gid) name a)"
    using assms(6) by (simp add: file_perms_def perms_refines a_perms_def a_check_def read_check_def split: option.split)
  finally have eq: "service_stat req s = ?run (a_check (read_check uid gid) name a)" .
  show ?thesis
    unfolding eq send_parts [OF assms(3)] using stat_refines [OF assms(6), of name]
    by (cases "get_file_stat_from_inode (head (inode_table (sv_fs s))) name (sv_fs s)"; cases "a_stat name a")
      (use assms(6,7) in \<open>auto simp: checked_def answers_def\<close>)
qed

lemma link_answers:
  assumes "sr_data req = Some (call_args (Link uid gid name new))" "sr_seq req = seq" "0 < sint seq" "str_ok name" "str_ok new"
    "queue_ok s" "fs_rel (sv_fs s) a"
  shows "answers seq s (service_link req s) (answer stack heap (Link uid gid name new) a)"
  by (simp add: service_link_def req_simps assms(1-6))
    (rule checked_handler' [OF assms(3,7) link_refines [OF assms(7)]], simp add: read_check_def Let_def)

lemma symlink_answers:
  assumes "sr_data req = Some (call_args (Symlink uid gid md name new))" "sr_seq req = seq" "0 < sint seq"
    "str_ok name" "str_ok new" "queue_ok s" "fs_rel (sv_fs s) a" "fs_ok a" "numbers_left a"
  shows "answers seq s (service_symlink req s) (answer stack heap (Symlink uid gid md name new) a)"
proof -
  have "refines (exec_op (OpSymlink name new uid gid md) (sv_fs s)) (spec_op (OpSymlink name new uid gid md) a)"
    by (rule exec_refines [OF assms(7-9)]) (simp add: op_safe_def)
  then have ref: "refines (create_soft_link (head (inode_table (sv_fs s))) name new uid gid md (sv_fs s))
      (a_symlink name new uid gid md a)"
    by (simp add: exec_op_def spec_op_def Let_def)
  show ?thesis
    by (simp add: service_symlink_def req_simps assms(1-6))
      (rule checked_handler' [OF assms(3,7) ref], simp add: read_check_def Let_def)
qed

subsection \<open>The dispatcher\<close>

lemma dispatch_answers:
  assumes "is_request (call_type c) seq (call_args c) req" "0 < sint seq" "call_ok c" "queue_ok s"
    "fs_rel (sv_fs s) a" "fs_ok a" "call_safe c a"
  shows "answers seq s (dispatch req s) (answer (stack_junk s) (heap_junk s) c a)"
proof -
  have r: "sr_data req = Some (call_args c)" "sr_seq req = seq" "sr_type req = call_type c"
    using assms(1) by (simp_all add: is_request_def)
  note rules = create_answers chmode_answers rename_answers unlink_answers open_answers close_answers write_answers
    read_answers seek_answers stat_answers link_answers symlink_answers
  show ?thesis
    using r assms(2-7) by (cases c) (simp_all del: answer.simps call_args.simps add: dispatch_def rules)
qed

text \<open>Without the response queue every handler exits first, and an unknown type of request makes the worker exit.\<close>

lemma dispatch_no_queue: "\<not> queue_ok s \<Longrightarrow> dispatch req s = Exit"
  by (cases "sr_type req") (simp_all add: dispatch_def with_queue_def service_create_def service_rename_def service_chmode_def
      service_stat_def service_link_def service_symlink_def service_open_def service_close_def service_write_def
      service_read_def service_seek_def service_unlink_def)

end
