(* ===== verification/Service_Calls.thy ===== *)
theory Service_Calls
  imports Service_Refine
begin

text \<open>
  Sequences of requests: the handlers, run one after the other, implement the answers of
  \<open>Service_Spec\<close>, as an instance of the machine refinement, and so does the service process for any
  order of its threads.
\<close>

text \<open>The specification of the service: the tables, the responses so far, and uninitialised memory.\<close>

record service_spec =
  sp_fs :: afs
  sp_sent :: "response_t list"
  sp_stack :: "nat \<Rightarrow> byte"
  sp_heap :: "nat \<Rightarrow> byte"

definition spec_call :: "u64 \<times> call \<Rightarrow> service_spec \<Rightarrow> (unit \<times> service_spec) outcome" where
  "spec_call qc A = obind (answer (sp_stack A) (sp_heap A) (snd qc) (sp_fs A)) (\<lambda>(st, p, a').
     Ret ((), A\<lparr>sp_fs := a', sp_sent := sp_sent A @ response_parts (fst qc) st p\<rparr>))"

definition call_msg :: "u64 \<times> call \<Rightarrow> request_t" where
  "call_msg qc = hd (request_parts (call_type (snd qc)) (fst qc) (call_args (snd qc)))"

definition call_req :: "u64 \<times> call \<Rightarrow> service_req_t" where
  "call_req qc = \<lparr>sr_seq = fst qc, sr_type = call_type (snd qc), sr_status = READY,
     sr_data_size = of_nat (length (call_args (snd qc))), sr_data_offset = 0, sr_data = Some (call_args (snd qc))\<rparr>"

definition exec_call :: "u64 \<times> call \<Rightarrow> server \<Rightarrow> (unit \<times> server) outcome" where
  "exec_call qc s = obind (dispatch (call_req qc) s) (\<lambda>(_, s'). Ret ((), s'))"

definition call_rel :: "server \<Rightarrow> service_spec \<Rightarrow> bool" where
  "call_rel s A \<longleftrightarrow> fs_rel (sv_fs s) (sp_fs A) \<and> sent s = sp_sent A \<and> queue_ok s \<and>
     stack_junk s = sp_stack A \<and> heap_junk s = sp_heap A"

definition call_guard :: "u64 \<times> call \<Rightarrow> service_spec \<Rightarrow> bool" where
  "call_guard qc A \<longleftrightarrow> 0 < sint (fst qc) \<and> call_ok (snd qc) \<and> call_safe (snd qc) (sp_fs A)"

definition spec_ok :: "service_spec \<Rightarrow> bool" where
  "spec_ok A \<longleftrightarrow> fs_ok (sp_fs A)"

lemma call_safe_numbers: "call_safe c a \<Longrightarrow> numbers_left a"
  by (cases c) auto

lemma answer_ok:
  assumes "fs_ok a" "call_safe c a" "answer stack heap c a = Ret (st, p, a')"
  shows "fs_ok a'"
proof -
  have nl: "numbers_left a" by (rule call_safe_numbers [OF assms(2)])
  note rules = create_ok [OF assms(1) nl] open_ok [OF assms(1) nl] symlink_ok [OF assms(1) nl] unlink_ok [OF assms(1) nl]
    read_ok' [OF assms(1)] write_ok [OF assms(1)] link_ok [OF assms(1)] stat_ok [OF assms(1)] chmod_ok [OF assms(1)]
    seek_ok [OF assms(1)] close_ok [OF assms(1)] rename_ok [OF assms(1)]
  show ?thesis using assms(1,3)
    by (cases c) (auto simp: checked_def no_data_def obind_Ret_iff split: if_splits dest: rules)
qed

lemma call_req_is_request: "is_request (call_type c) q (call_args c) (call_req (q, c))"
  by (simp add: is_request_def call_req_def)

interpretation calls: machine_refinement spec_call call_guard spec_ok exec_call call_rel
proof
  fix A qc r A' assume "spec_ok A" "call_guard qc A" "spec_call qc A = Ret (r, A')"
  then show "spec_ok A'"
    using answer_ok by (fastforce simp: spec_ok_def call_guard_def spec_call_def obind_Ret_iff)
next
  fix s A qc assume a: "call_rel s A" "spec_ok A" "call_guard qc A"
  obtain q c where qc: "qc = (q, c)" by (cases qc)
  have "answers q s (dispatch (call_req qc) s) (answer (stack_junk s) (heap_junk s) c (sp_fs A))"
    unfolding qc using a
    by (intro dispatch_answers call_req_is_request) (auto simp: call_rel_def spec_ok_def call_guard_def qc)
  with a(1) qc show "rel_outcome (rel_prod (=) call_rel) (exec_call qc s) (spec_call qc A)"
    by (cases "dispatch (call_req qc) s"; cases "answer (sp_stack A) (sp_heap A) c (sp_fs A)")
      (auto simp: answers_def exec_call_def spec_call_def call_rel_def)
qed

text \<open>The requests as the worker sees them.\<close>

lemma call_msg_single:
  assumes "length (call_args c) \<le> 4064"
  shows "client_msg (call_msg (q, c))" "entry_of (call_msg (q, c)) = call_req (q, c)"
proof -
  have "unat (of_nat (length (call_args c)) :: u32) = length (call_args c)" using assms by (intro unat_of_nat_u32) simp
  then show "client_msg (call_msg (q, c))" "entry_of (call_msg (q, c)) = call_req (q, c)"
    using assms by (simp_all add: call_msg_def request_parts_one client_msg_def MAX_MSG_DATA_SIZE_def entry_of_def call_req_def)
qed

lemma run_dispatch_calls:
  "map_outcome snd (run_ops dispatch (map call_req cs) s) = map_outcome snd (run_ops exec_call cs s)"
proof (induction cs arbitrary: s)
  case (Cons c cs)
  show ?case
  proof (cases "dispatch (call_req c) s")
    case (Ret p)
    obtain st t where p: "p = (st, t)" by (cases p)
    then have "exec_call c s = Ret ((), t)" using Ret by (simp add: exec_call_def)
    then show ?thesis using Cons.IH [of t] Ret p
      by (cases "run_ops dispatch (map call_req cs) t"; cases "run_ops exec_call cs t") auto
  qed (simp_all add: exec_call_def [of c s])
qed simp

lemma guarded_take: "guarded step guard ops s \<Longrightarrow> guarded step guard (take k ops) s"
proof (induction ops arbitrary: s k)
  case (Cons op ops)
  then show ?case by (cases k; cases "step op s") auto
qed simp

subsection \<open>The first start\<close>

definition server_start :: "string \<Rightarrow> (nat \<Rightarrow> timespec) \<Rightarrow> (nat \<Rightarrow> byte) \<Rightarrow> (nat \<Rightarrow> byte) \<Rightarrow> server" where
  "server_start dir clk stack heap = \<lparr>sv_fs = fs_start dir clk, sent = [], queue_ok = True,
     stack_junk = stack, heap_junk = heap\<rparr>"

definition spec_start :: "string \<Rightarrow> (nat \<Rightarrow> timespec) \<Rightarrow> (nat \<Rightarrow> byte) \<Rightarrow> (nat \<Rightarrow> byte) \<Rightarrow> service_spec" where
  "spec_start dir clk stack heap = \<lparr>sp_fs = a_start dir clk, sp_sent = [], sp_stack = stack, sp_heap = heap\<rparr>"

lemma server_start_rel: "call_rel (server_start dir clk stack heap) (spec_start dir clk stack heap)"
  by (simp add: call_rel_def server_start_def spec_start_def start_rel)

lemma server_start_ok: "spec_ok (spec_start dir clk stack heap)"
  by (simp add: spec_ok_def spec_start_def start_ok)

text \<open>Requests of one part in the queue of the service, served in any interleaving.\<close>

lemma service_refines_calls:
  assumes cs: "\<forall>(q, c)\<in>set cs. length (call_args c) \<le> 4064" "length cs \<le> 256"
    and g: "guarded spec_call call_guard cs A" "call_rel sv A" "spec_ok A"
    and run: "service_run junk (service_start (map call_msg cs) sv) es r" "set es \<subseteq> {Receive, Take, Serve}"
  shows "\<exists>k \<le> length cs. rel_outcome call_rel (map_outcome tables r) (map_outcome snd (run_ops spec_call (take k cs) A))"
proof -
  have single: "client_msg (call_msg qc) \<and> entry_of (call_msg qc) = call_req qc" if "qc \<in> set cs" for qc
    using that cs(1) call_msg_single [of "snd qc" "fst qc"] by (cases qc) auto
  then have "\<forall>m\<in>set (map call_msg cs). client_msg m" by auto
  with run_in_order [OF run(1) in_order_start _ run(2) this] cs(2) obtain k where
    k: "k \<le> length cs" "map_outcome tables r = map_outcome snd (run_ops dispatch (map entry_of (take k (map call_msg cs))) sv)"
    by (auto simp: service_start_def)
  have "map entry_of (take k (map call_msg cs)) = map call_req (take k cs)"
    using single by (auto simp: take_map dest: in_set_takeD)
  with k(2) have r: "map_outcome tables r = map_outcome snd (run_ops exec_call (take k cs) sv)"
    by (simp add: run_dispatch_calls)
  have "rel_outcome (rel_prod (=) call_rel) (run_ops exec_call (take k cs) sv) (run_ops spec_call (take k cs) A)"
    by (rule calls.run_refines [OF g(2,3) guarded_take [OF g(1)]])
  then have "rel_outcome call_rel (map_outcome snd (run_ops exec_call (take k cs) sv)) (map_outcome snd (run_ops spec_call (take k cs) A))"
    by (cases "run_ops exec_call (take k cs) sv"; cases "run_ops spec_call (take k cs) A") auto
  with r k(1) show ?thesis by auto
qed

end
