(* ===== verification/Client.thy ===== *)
theory Client
  imports Marshal
begin

text \<open>
  The client library \<^verbatim>\<open>lib/libfs.c\<close>. A call packs its arguments, sends them in parts to the request
  queue, waits for the response with its sequence number and unpacks it. The state \<open>world\<close> is what the
  calling process sees: its identity, the globals of the library, the two message queues and, as
  \<open>peer\<close>, everything behind them. The first argument \<open>serve\<close> of every call is what the peer does to
  the queues while the call waits; a wait that nothing ends is \<open>Diverge\<close>. Names are given without
  their terminating NUL; \<open>cl_junk\<close> is the content of fresh memory.
\<close>

record 'w world =
  cl_pid :: u32
  cl_uid :: u32
  cl_gid :: u32
  seq_counter :: u32
  libfs_errno :: status
  req_queue :: "request_t list"
  resp_queue :: "response_t list"
  mq_ok :: bool
  msgmax :: nat
  cl_junk :: "nat \<Rightarrow> byte"
  peer :: 'w

text \<open>\<^verbatim>\<open>getpid() << sizeof(long) / 2\<close> is a shift by 4; the sum is unsigned, and so are the copies the callers keep.\<close>

definition get_seq :: "'w world \<Rightarrow> u64 \<times> 'w world" where
  "get_seq w = (ucast (push_bit 4 (cl_pid w) + seq_counter w), w\<lparr>seq_counter := seq_counter w + 1\<rparr>)"

subsection \<open>Sending a request\<close>

text \<open>
  \<^verbatim>\<open>msgsnd\<close> fails on a type below 1 and on a message longer than the limit of the system; the message
  text is the structure without its first member.
\<close>

definition msgsnd_request :: "request_t \<Rightarrow> 'w world \<Rightarrow> 'w world outcome" where
  "msgsnd_request m w = (if sint (rq_seq m) < 1 \<or> msgmax w < 24 + length (rq_data m) then Exit
     else Ret (w\<lparr>req_queue := req_queue w @ [m]\<rparr>))"

fun send_requests :: "request_t list \<Rightarrow> 'w world \<Rightarrow> 'w world outcome" where
  "send_requests [] w = Ret w"
| "send_requests (m # ms) w = obind (msgsnd_request m w) (send_requests ms)"

text \<open>
  The first half of a call: open the queue, take a sequence number, send the parts, let the peer work,
  open the response queue. The size of the arguments is kept in 32 bits; longer arguments overflow the
  array they are copied to.
\<close>

definition ask :: "('w world \<Rightarrow> 'w world) \<Rightarrow> req_type \<Rightarrow> byte list \<Rightarrow> 'w world \<Rightarrow> (u64 \<times> 'w world) outcome" where
  "ask serve ty args w =
     (if \<not> mq_ok w then Exit
      else let (seq, w1) = get_seq w in
      if 4294967296 \<le> length args then Undef
      else obind (send_requests (request_parts ty seq args) w1) (\<lambda>w2.
        let w3 = serve w2 in if \<not> mq_ok w3 then Exit else Ret (seq, w3)))"

text \<open>\<^verbatim>\<open>libfs_seek\<close> and \<^verbatim>\<open>libfs_unlink\<close> send one message whatever its size.\<close>

definition ask_whole :: "('w world \<Rightarrow> 'w world) \<Rightarrow> req_type \<Rightarrow> byte list \<Rightarrow> 'w world \<Rightarrow> (u64 \<times> 'w world) outcome" where
  "ask_whole serve ty args w =
     (if \<not> mq_ok w then Exit
      else let (seq, w1) = get_seq w; n = of_nat (length args) in
      if 4294967296 \<le> length args then Undef
      else obind (msgsnd_request \<lparr>rq_seq = seq, rq_type = ty, rq_multipart = 0, rq_data_size = n,
             rq_data_offset = 0, rq_part_size = n, rq_data = args\<rparr> w1) (\<lambda>w2.
        let w3 = serve w2 in if \<not> mq_ok w3 then Exit else Ret (seq, w3)))"

subsection \<open>Receiving the response\<close>

text \<open>The first message of the queue with the wanted type.\<close>

fun take_msg :: "u64 \<Rightarrow> response_t list \<Rightarrow> (response_t \<times> response_t list) option" where
  "take_msg seq [] = None"
| "take_msg seq (r # rs) = (if rs_seq r = seq then Some (r, rs)
     else map_option (\<lambda>(x, xs). (x, r # xs)) (take_msg seq rs))"

lemma take_msg_length: "take_msg seq q = Some (r, q') \<Longrightarrow> length q' < length q"
  by (induction q arbitrary: r q') (auto split: if_splits)

text \<open>
  A response of the queue, received into a cleared buffer of \<^verbatim>\<open>MAX_MSG_SIZE\<close> bytes with the message
  limit \<open>lim\<close>. The buffer has room for 4088 bytes of text; with the limit 4096 of the further
  responses a longer message runs over it.
\<close>

definition msgrcv_response :: "nat \<Rightarrow> u64 \<Rightarrow> response_t list \<Rightarrow> (response_t \<times> response_t list) outcome" where
  "msgrcv_response lim seq q = (case take_msg seq q of None \<Rightarrow> Diverge
     | Some (r, q') \<Rightarrow>
         if lim < 24 + length (rs_data r) then Exit
         else if 4064 < length (rs_data r) then Undef
         else Ret (r\<lparr>rs_data := rs_data r @ replicate (4068 - length (rs_data r)) 0\<rparr>, q'))"

lemma msgrcv_response_length: "msgrcv_response lim seq q = Ret (r, q') \<Longrightarrow> length q' < length q"
  by (auto simp: msgrcv_response_def split: option.splits if_splits dest: take_msg_length)

text \<open>\<^verbatim>\<open>memcpy(resp_buf + resp->data_offset, resp->data, resp->part_size)\<close>\<close>

definition copy_part :: "u32 \<Rightarrow> response_t \<Rightarrow> byte list \<Rightarrow> byte list outcome" where
  "copy_part off r buf =
     (if length buf < unat off + unat (rs_part_size r) \<or> length (rs_data r) < unat (rs_part_size r) then Undef
      else Ret (overwrite (unat off) (take (unat (rs_part_size r)) (rs_data r)) buf))"

function recv_rest ::
  "nat \<Rightarrow> u64 \<Rightarrow> u32 \<Rightarrow> u32 \<Rightarrow> byte list \<Rightarrow> status \<Rightarrow> response_t list \<Rightarrow> (status \<times> byte list \<times> response_t list) outcome" where
  "recv_rest lim seq n copied buf st q =
     (if copied < n
      then obind (msgrcv_response lim seq q) (\<lambda>(r, q').
           if rs_multipart r = 0 then Exit
           else obind (copy_part (rs_data_offset r) r buf) (\<lambda>buf'.
             recv_rest lim seq n (copied + rs_part_size r) buf' (rs_status r) q'))
      else Ret (st, buf, q))"
  by pat_completeness auto
termination
  by (relation "measure (\<lambda>(lim, seq, n, copied, buf, st, q). length q)")
    (auto dest: msgrcv_response_length split: prod.splits)

declare recv_rest.simps [simp del]

text \<open>The second half of a call with response data.\<close>

definition receive_response :: "nat \<Rightarrow> u64 \<Rightarrow> 'w world \<Rightarrow> (status \<times> byte list \<times> 'w world) outcome" where
  "receive_response lim seq w =
     obind (msgrcv_response 4088 seq (resp_queue w)) (\<lambda>(r, q).
     obind (copy_part 0 r (map (cl_junk w) [0..<unat (rs_data_size r)])) (\<lambda>buf.
     obind (recv_rest lim seq (rs_data_size r) (rs_part_size r) buf (rs_status r) q) (\<lambda>(st, buf', q').
       Ret (st, buf', w\<lparr>resp_queue := q'\<rparr>))))"

text \<open>The second half of a call that looks at the status only.\<close>

definition receive_status :: "u64 \<Rightarrow> 'w world \<Rightarrow> (status \<times> 'w world) outcome" where
  "receive_status seq w = obind (msgrcv_response 4088 seq (resp_queue w)) (\<lambda>(r, q).
     Ret (rs_status r, w\<lparr>resp_queue := q\<rparr>))"

definition set_errno :: "status list \<Rightarrow> status \<Rightarrow> 'w world \<Rightarrow> 'w world" where
  "set_errno known st w = (if st = SUCCESS then w
     else if st \<in> set known then w\<lparr>libfs_errno := st\<rparr> else w\<lparr>libfs_errno := FAILURE\<rparr>)"

text \<open>
  \<^verbatim>\<open>libfs_rename\<close> and \<^verbatim>\<open>libfs_chmode\<close> receive into the bare structure and ignore failures: a response
  with data stays in the queue, and the status is what the memory held (cleared, or uninitialised).
\<close>

definition receive_short :: "bool \<Rightarrow> u64 \<Rightarrow> 'w world \<Rightarrow> (status \<times> 'w world) outcome" where
  "receive_short cleared seq w = (case take_msg seq (resp_queue w) of None \<Rightarrow> Diverge
     | Some (r, q) \<Rightarrow>
         if rs_data r \<noteq> [] then (if cleared then Ret (SUCCESS, w) else Undef)
         else if sint (32 + rs_part_size r) \<le> 0 then Exit
         else Ret (rs_status r, w\<lparr>resp_queue := q\<rparr>))"

subsection \<open>The calls\<close>

definition libfs_create :: "('w world \<Rightarrow> 'w world) \<Rightarrow> byte list \<Rightarrow> u64 \<Rightarrow> 'w world \<Rightarrow> (u32 \<times> 'w world) outcome" where
  "libfs_create serve name mode w =
     obind (ask serve CREATE (put_u32 (cl_uid w) @ put_u32 (cl_gid w) @ put_u64 mode @ put_str name) w) (\<lambda>(seq, w1).
     obind (receive_response MAX_MSG_SIZE seq w1) (\<lambda>(st, resp_buf, w2).
       if length resp_buf < 4 then Undef
       else Ret (of_nat (le_val (take 4 resp_buf)), set_errno [FILENAME_TAKEN] st w2)))"

definition libfs_rename :: "('w world \<Rightarrow> 'w world) \<Rightarrow> byte list \<Rightarrow> byte list \<Rightarrow> 'w world \<Rightarrow> (status \<times> 'w world) outcome" where
  "libfs_rename serve oldname newname w =
     obind (ask serve RENAME (put_str oldname @ put_str newname) w) (\<lambda>(seq, w1).
     obind (receive_short True seq w1) (\<lambda>(st, w2). Ret (st, set_errno [FILENAME_TAKEN] st w2)))"

definition libfs_chmode :: "('w world \<Rightarrow> 'w world) \<Rightarrow> byte list \<Rightarrow> u64 \<Rightarrow> 'w world \<Rightarrow> (status \<times> 'w world) outcome" where
  "libfs_chmode serve name mode w =
     obind (ask serve CHMODE (put_u32 (cl_uid w) @ put_u32 (cl_gid w) @ put_u64 mode @ put_str name) w) (\<lambda>(seq, w1).
     obind (receive_short False seq w1) (\<lambda>(st, w2). Ret (st, set_errno [FILE_NOT_FOUND] st w2)))"

text \<open>The \<^verbatim>\<open>struct stat_t\<close> is filled from the first 56 bytes of the response.\<close>

definition libfs_stat :: "('w world \<Rightarrow> 'w world) \<Rightarrow> byte list \<Rightarrow> 'w world \<Rightarrow> (status \<times> byte list option \<times> 'w world) outcome" where
  "libfs_stat serve path w =
     obind (ask serve STAT (put_u32 (cl_uid w) @ put_u32 (cl_gid w) @ put_str path) w) (\<lambda>(seq, w1).
     obind (receive_response MAX_MSG_SIZE seq w1) (\<lambda>(st, resp_buf, w2).
       if st = SUCCESS then (if length resp_buf < 56 then Undef else Ret (st, Some (take 56 resp_buf), w2))
       else Ret (st, None, set_errno [FILE_NOT_FOUND] st w2)))"

definition libfs_link :: "('w world \<Rightarrow> 'w world) \<Rightarrow> byte list \<Rightarrow> byte list \<Rightarrow> 'w world \<Rightarrow> (status \<times> 'w world) outcome" where
  "libfs_link serve oldpath newpath w =
     obind (ask serve LINK (put_u32 (cl_uid w) @ put_u32 (cl_gid w) @ put_str oldpath @ put_str newpath) w) (\<lambda>(seq, w1).
     obind (receive_response MAX_MSG_SIZE seq w1) (\<lambda>(st, resp_buf, w2).
       Ret (st, set_errno [FILENAME_TAKEN, FILE_NOT_FOUND] st w2)))"

definition libfs_symlink ::
  "('w world \<Rightarrow> 'w world) \<Rightarrow> byte list \<Rightarrow> byte list \<Rightarrow> u64 \<Rightarrow> 'w world \<Rightarrow> (status \<times> 'w world) outcome" where
  "libfs_symlink serve path1 path2 mode w =
     obind (ask serve SYMLINK (put_u32 (cl_uid w) @ put_u32 (cl_gid w) @ put_u64 mode @ put_str path1 @ put_str path2) w)
       (\<lambda>(seq, w1).
     obind (receive_response MAX_MSG_SIZE seq w1) (\<lambda>(st, resp_buf, w2).
       Ret (st, set_errno [FILENAME_TAKEN, FILE_NOT_FOUND] st w2)))"

text \<open>The descriptor is the first byte of the response, as a signed \<^verbatim>\<open>char\<close>.\<close>

definition libfs_open :: "('w world \<Rightarrow> 'w world) \<Rightarrow> byte list \<Rightarrow> u32 \<Rightarrow> 'w world \<Rightarrow> (u32 \<times> 'w world) outcome" where
  "libfs_open serve name flags w =
     obind (ask serve OPEN (put_u32 (cl_uid w) @ put_u32 (cl_gid w) @ put_str name @ put_u32 flags) w) (\<lambda>(seq, w1).
     obind (receive_response MAX_MSG_SIZE seq w1) (\<lambda>(st, resp_buf, w2).
       if st = SUCCESS then (case resp_buf of [] \<Rightarrow> Undef | b # bs \<Rightarrow> Ret (scast b, w2))
       else Ret (-1, set_errno [FILE_NOT_FOUND, INSUFFICIENT_PERMS, DOUBLE_WRITE] st w2)))"

definition libfs_close :: "('w world \<Rightarrow> 'w world) \<Rightarrow> u32 \<Rightarrow> 'w world \<Rightarrow> (int \<times> 'w world) outcome" where
  "libfs_close serve fd w =
     obind (ask serve CLOSE (put_u32 (cl_uid w) @ put_u32 (cl_gid w) @ put_u32 fd) w) (\<lambda>(seq, w1).
     obind (receive_response MAX_MSG_SIZE seq w1) (\<lambda>(st, resp_buf, w2).
       Ret (if st = SUCCESS then 0 else -1, set_errno [FILE_NOT_FOUND] st w2)))"

definition libfs_write :: "('w world \<Rightarrow> 'w world) \<Rightarrow> u32 \<Rightarrow> byte list \<Rightarrow> u32 \<Rightarrow> 'w world \<Rightarrow> (int \<times> 'w world) outcome" where
  "libfs_write serve fd buf n w =
     (if length buf < unat n then Undef else
     obind (ask serve WRITE (put_u32 (cl_uid w) @ put_u32 (cl_gid w) @ put_u32 fd @ put_u32 n @ take (unat n) buf) w) (\<lambda>(seq, w1).
     obind (receive_status seq w1) (\<lambda>(st, w2).
       Ret (if st = SUCCESS then 0 else -1, set_errno [FILE_NOT_FOUND] st w2))))"

text \<open>The response data is copied to the caller's buffer, whatever its size.\<close>

definition libfs_read ::
  "('w world \<Rightarrow> 'w world) \<Rightarrow> u32 \<Rightarrow> byte list \<Rightarrow> u32 \<Rightarrow> 'w world \<Rightarrow> (status \<times> byte list \<times> 'w world) outcome" where
  "libfs_read serve fd buf n w =
     obind (ask serve READ (put_u32 (cl_uid w) @ put_u32 (cl_gid w) @ put_u32 fd @ put_u32 n) w) (\<lambda>(seq, w1).
     obind (receive_response (MAX_MSG_SIZE - 8) seq w1) (\<lambda>(st, resp_buf, w2).
       if st = SUCCESS
       then (if length buf < length resp_buf then Undef else Ret (st, overwrite 0 resp_buf buf, w2))
       else Ret (st, buf, set_errno [FILE_NOT_FOUND] st w2)))"

definition libfs_seek :: "('w world \<Rightarrow> 'w world) \<Rightarrow> u32 \<Rightarrow> u32 \<Rightarrow> 'w world \<Rightarrow> (status \<times> 'w world) outcome" where
  "libfs_seek serve fd offset w =
     obind (ask_whole serve SEEK (put_u32 (cl_uid w) @ put_u32 (cl_gid w) @ put_u32 fd @ put_u32 offset) w) (\<lambda>(seq, w1).
     obind (receive_status seq w1) (\<lambda>(st, w2). Ret (st, set_errno [FILE_NOT_FOUND] st w2)))"

definition libfs_unlink :: "('w world \<Rightarrow> 'w world) \<Rightarrow> byte list \<Rightarrow> 'w world \<Rightarrow> (status \<times> 'w world) outcome" where
  "libfs_unlink serve name w =
     obind (ask_whole serve UNLINK (put_u32 (cl_uid w) @ put_u32 (cl_gid w) @ put_str name) w) (\<lambda>(seq, w1).
     obind (receive_status seq w1) (\<lambda>(st, w2). Ret (st, set_errno [FILE_NOT_FOUND] st w2)))"

end
