(* ===== verification/Client_Receive.thy ===== *)
theory Client_Receive
  imports Client Reassembly
begin

text \<open>
  The client puts the parts of a response together, also when responses for other calls wait in the
  queue.
\<close>

definition resp_part :: "u64 \<Rightarrow> status \<Rightarrow> byte list \<Rightarrow> nat \<Rightarrow> response_t" where
  "resp_part seq st data j = \<lparr>rs_seq = seq, rs_status = st, rs_multipart = of_nat (nparts (length data)),
     rs_data_size = of_nat (length data), rs_data_offset = of_nat (j * 4064),
     rs_part_size = of_nat (min (length data - j * 4064) 4064), rs_data = take 4064 (drop (j * 4064) data)\<rparr>"

lemma response_parts_one:
  assumes "length data \<le> 4064"
  shows "response_parts seq st data = [\<lparr>rs_seq = seq, rs_status = st, rs_multipart = 0, rs_data_size = of_nat (length data),
    rs_data_offset = 0, rs_part_size = of_nat (length data), rs_data = data\<rparr>]"
proof -
  have u: "unat (of_nat (length data) :: u32) = length data" using assms by (intro unat_of_nat_u32) simp
  then have "message_parts (of_nat (length data)) = [(0, of_nat (length data))]"
    using assms by (subst message_parts_list) (simp_all add: one_part)
  then show ?thesis
    using assms u by (simp add: response_parts_def Let_def part_bytes_def multipart_flag_parts)
qed

lemma response_parts_several:
  assumes "4064 < length data" "length data \<le> 4294967295"
  shows "response_parts seq st data = map (resp_part seq st data) [0..<nparts (length data)]"
proof -
  have "unat (of_nat (length data) :: u32) = length data" using assms by (intro unat_of_nat_u32) simp
  then have mp: "message_parts (of_nat (length data)) =
      map (\<lambda>j. (of_nat (j * 4064), of_nat (min (length data - j * 4064) 4064))) [0..<nparts (length data)]"
    using assms by (subst message_parts_list) simp_all
  show ?thesis
    unfolding response_parts_def Let_def mp map_map
    using assms slice_part [OF _ assms(2)] by (intro map_cong refl) (simp add: resp_part_def multipart_flag_parts)
qed

lemma take_msg_other: "\<forall>r\<in>set pre. rs_seq r \<noteq> rs_seq x \<Longrightarrow> take_msg (rs_seq x) (pre @ x # rs) = Some (x, pre @ rs)"
  by (induction pre) auto

lemma msgrcv_response_other:
  assumes "\<forall>r\<in>set pre. rs_seq r \<noteq> seq" "rs_seq x = seq" "length (rs_data x) \<le> 4064" "4088 \<le> lim"
  shows "msgrcv_response lim seq (pre @ x # rs) =
    Ret (x\<lparr>rs_data := rs_data x @ replicate (4068 - length (rs_data x)) 0\<rparr>, pre @ rs)"
  using assms take_msg_other [of pre x rs] by (simp add: msgrcv_response_def)

lemma resp_part_size:
  assumes "j < nparts (length data)" "length data \<le> 4294967295"
  shows "unat (rs_part_size (resp_part seq st data j)) = min (length data - j * 4064) 4064"
    "unat (rs_data_offset (resp_part seq st data j)) = j * 4064"
    "rs_multipart (resp_part seq st data j) \<noteq> 0"
  using part_msg_size [OF assms] by (simp_all add: part_msg_def resp_part_def)

lemma copy_resp_part:
  assumes "j < nparts (length data)" "length data \<le> 4294967295" and jl: "j * 4064 < length data"
  shows "copy_part (rs_data_offset (resp_part seq st data j))
      ((resp_part seq st data j)\<lparr>rs_data := take 4064 (drop (j * 4064) data) @ replicate m 0\<rparr>) (filled junk data j) =
    Ret (filled junk data (Suc j))"
proof -
  have "take (min (length data - j * 4064) 4064) (take 4064 (drop (j * 4064) data) @ replicate m 0) =
      take 4064 (drop (j * 4064) data)"
    by (auto simp: min_def)
  then show ?thesis
    using resp_part_size [OF assms(1,2), of seq st] filled_step [OF jl, of junk] jl
    by (simp add: copy_part_def length_filled)
qed

lemma recv_rest_parts:
  assumes len: "length data \<le> 4294967295" and pre: "\<forall>r\<in>set pre. rs_seq r \<noteq> seq" and lim: "4088 \<le> lim"
  shows "0 < j \<Longrightarrow> j + k = nparts (length data) \<Longrightarrow>
    recv_rest lim seq (of_nat (length data)) (of_nat (min (length data) (j * 4064))) (filled junk data j) st
      (pre @ map (resp_part seq st data) [j..<nparts (length data)] @ rest) = Ret (st, data, pre @ rest)"
proof (induction k arbitrary: j)
  case 0
  then have "length data \<le> j * 4064" using nparts_bounds(1) [of "length data"] by simp
  with 0 show ?case by (subst recv_rest.simps) (simp add: filled_all min_absorb1)
next
  case (Suc k)
  let ?n = "length data" and ?x = "resp_part seq st data j"
  have j: "j < nparts ?n" using Suc.prems by simp
  then have jl: "j * 4064 < ?n" using nparts_less [of j ?n] Suc.prems(1) by (cases "?n = 0") (auto simp: nparts_def)
  have un: "unat (of_nat (min ?n i) :: u32) = min ?n i" for i using len by (intro unat_of_nat_u32) simp
  have lt: "(of_nat (min ?n (j * 4064)) :: u32) < of_nat ?n"
    using un [of "j * 4064"] un [of ?n] jl by (simp add: word_less_nat_alt)
  have x: "rs_seq ?x = seq" "length (rs_data ?x) \<le> 4064" "rs_data ?x = take 4064 (drop (j * 4064) data)"
    "rs_status ?x = st" "rs_part_size ?x = of_nat (min (?n - j * 4064) 4064)" by (simp_all add: resp_part_def)
  have cp: "of_nat (min ?n (j * 4064)) + of_nat (min (?n - j * 4064) 4064) = (of_nat (min ?n (Suc j * 4064)) :: u32)"
    unfolding of_nat_add [symmetric] by (rule arg_cong [where f = of_nat]) (use jl in \<open>auto simp: min_def\<close>)
  have q: "pre @ map (resp_part seq st data) [j..<nparts ?n] @ rest = pre @ ?x # (map (resp_part seq st data) [Suc j..<nparts ?n] @ rest)"
    using j by (simp add: upt_conv_Cons)
  note IH = Suc.IH [of "Suc j"]
  show ?case
    unfolding q
    using IH Suc.prems msgrcv_response_other [OF pre x(1,2) lim] copy_resp_part [OF j len jl, of seq st] resp_part_size(3) [OF j len, of seq st] lt cp x
    by (subst recv_rest.simps) simp
qed

text \<open>The whole response.\<close>

lemma receive_parts:
  assumes len: "length data \<le> 4294967295" and pre: "\<forall>r\<in>set pre. rs_seq r \<noteq> seq" and lim: "4088 \<le> lim"
    and q: "resp_queue w = pre @ response_parts seq st data @ rest"
  shows "receive_response lim seq w = Ret (st, data, w\<lparr>resp_queue := pre @ rest\<rparr>)"
proof (cases "length data \<le> 4064")
  case True
  have u: "unat (of_nat (length data) :: u32) = length data" using len by (intro unat_of_nat_u32) simp
  then have "overwrite 0 data (map (cl_junk w) [0..<length data]) = data" by (simp add: overwrite_full)
  with True u show ?thesis
    using msgrcv_response_other [OF pre, of "hd (response_parts seq st data)" 4088 rest] q
    by (simp add: response_parts_one receive_response_def copy_part_def recv_rest.simps)
next
  case False
  then have l: "4064 < length data" by simp
  let ?n = "length data" and ?x = "resp_part seq st data 0"
  have n0: "0 < nparts ?n" by (rule nparts_bounds(2))
  then have qq: "resp_queue w = pre @ ?x # (map (resp_part seq st data) [1..<nparts ?n] @ rest)"
    using q by (simp add: response_parts_several [OF l len] upt_conv_Cons)
  have x: "rs_seq ?x = seq" "length (rs_data ?x) \<le> 4064" "rs_data ?x = take 4064 (drop (0 * 4064) data)"
    "rs_status ?x = st" "rs_part_size ?x = of_nat (min ?n (1 * 4064))" "rs_data_size ?x = of_nat ?n"
    "rs_data_offset ?x = 0" by (simp_all add: resp_part_def min.commute)
  have u: "unat (of_nat ?n :: u32) = ?n" using len by (intro unat_of_nat_u32) simp
  have z: "0 * 4064 < ?n" using l by (cases data) simp_all
  have f0: "map (cl_junk w) [0..<?n] = filled (cl_junk w) data 0" by (simp add: filled_def)
  have "1 + (nparts ?n - 1) = nparts ?n" using n0 by simp
  from recv_rest_parts [OF len pre lim _ this, of "cl_junk w" st rest]
  have rr: "recv_rest lim seq (of_nat ?n) (of_nat (min ?n (1 * 4064))) (filled (cl_junk w) data 1) st
      (pre @ map (resp_part seq st data) [1..<nparts ?n] @ rest) = Ret (st, data, pre @ rest)" by simp
  show ?thesis
    unfolding receive_response_def qq
    using msgrcv_response_other [OF pre x(1,2), of 4088] copy_resp_part [OF n0 len z, of seq st _ "cl_junk w"] rr x u
    by (simp add: f0)
qed

lemma receive_status_parts:
  assumes pre: "\<forall>r\<in>set pre. rs_seq r \<noteq> seq" and q: "resp_queue w = pre @ response_parts seq st [] @ rest"
  shows "receive_status seq w = Ret (st, w\<lparr>resp_queue := pre @ rest\<rparr>)"
  using msgrcv_response_other [OF pre, of "hd (response_parts seq st [])" 4088 rest] q
  by (simp add: response_parts_one receive_status_def)

lemma receive_short_parts:
  assumes pre: "\<forall>r\<in>set pre. rs_seq r \<noteq> seq" and q: "resp_queue w = pre @ response_parts seq st [] @ rest"
  shows "receive_short cleared seq w = Ret (st, w\<lparr>resp_queue := pre @ rest\<rparr>)"
  using take_msg_other [of pre "hd (response_parts seq st [])" rest] pre q
  by (simp add: response_parts_one receive_short_def)

end
