(* ===== verification/End_To_End.thy ===== *)
theory End_To_End
  imports Service_Calls Client_Receive
begin

text \<open>
  Client and service together. The peer of the client is the service process; its queues are the
  client's queues. While a call waits, the service takes the turns \<open>serve_turns\<close>: all parts are
  received, then the worker takes the request and serves it. (For requests of one part the order of the
  turns makes no difference, see \<open>Server_Runs\<close>.) A service that stops or blocks leaves the queues alone.
\<close>

text \<open>One turn as a function.\<close>

fun turn :: "(nat \<Rightarrow> byte) \<Rightarrow> event \<Rightarrow> service \<Rightarrow> service outcome option" where
  "turn junk Receive s = (if working s then receive junk s else None)"
| "turn junk Take s = (if worker s = Idle then operate_take s else None)"
| "turn junk Serve s = (case worker s of Serving i \<Rightarrow> Some (operate_serve i s) | _ \<Rightarrow> None)"
| "turn junk Signal s = Some (end_service s)"
| "turn junk (Arrive m) s = Some (Ret (s\<lparr>inbox := inbox s @ [m]\<rparr>))"

lemma service_step_turn: "service_step junk s e r \<longleftrightarrow> turn junk e s = Some r"
  by (cases e) (auto simp: service_step.simps split: worker.splits)

fun run_turns :: "(nat \<Rightarrow> byte) \<Rightarrow> event list \<Rightarrow> service \<Rightarrow> service option" where
  "run_turns junk [] s = Some s"
| "run_turns junk (e # es) s = (case turn junk e s of Some (Ret t) \<Rightarrow> run_turns junk es t | _ \<Rightarrow> None)"

lemma run_turns_run: "service_run junk s es (Ret t) \<longleftrightarrow> run_turns junk es s = Some t"
proof
  show "service_run junk s es (Ret t) \<Longrightarrow> run_turns junk es s = Some t"
    by (induction s es "Ret t :: service outcome" rule: service_run.induct) (auto simp: service_step_turn)
  show "run_turns junk es s = Some t \<Longrightarrow> service_run junk s es (Ret t)"
    by (induction es arbitrary: s)
      (auto split: option.splits outcome.splits intro: service_run.intros simp: service_step_turn)
qed

lemma run_turns_fails: "service_run junk s es r \<Longrightarrow> (\<And>t. r \<noteq> Ret t) \<Longrightarrow> run_turns junk es s = None"
  by (induction s es r rule: service_run.induct) (auto simp: service_step_turn split: outcome.splits)

definition to_service :: "service world \<Rightarrow> service" where
  "to_service w = (peer w)\<lparr>inbox := req_queue w, tables := (tables (peer w))\<lparr>sent := resp_queue w\<rparr>\<rparr>"

definition of_service :: "service world \<Rightarrow> service \<Rightarrow> service world" where
  "of_service w t = w\<lparr>peer := t, req_queue := inbox t, resp_queue := sent (tables t)\<rparr>"

definition serve_turns :: "service world \<Rightarrow> event list" where
  "serve_turns w = replicate (length (req_queue w)) Receive @ [Take, Serve]"

definition serve_world :: "(nat \<Rightarrow> byte) \<Rightarrow> service world \<Rightarrow> service world" where
  "serve_world junk w = (case run_turns junk (serve_turns w) (to_service w) of
     Some t \<Rightarrow> of_service w t | None \<Rightarrow> w)"

subsection \<open>An idle service that has served \<open>k\<close> requests\<close>

definition idle_after :: "nat \<Rightarrow> service \<Rightarrow> bool" where
  "idle_after k t \<longleftrightarrow> working t \<and> worker t = Idle \<and> inbox t = [] \<and>
     (\<exists>rb. server_buf t = Some rb \<and> rb_ok rb \<and> rb_queue rb = [] \<and> unat (rb_size rb) = 256 \<and> unat (rd_idx rb) = k)"

text \<open>
  The client \<open>w\<close> is connected to a service with the tables \<open>a\<close>: no request waits, and nobody's
  response has one of the next sequence numbers of the client.
\<close>

definition connected :: "nat \<Rightarrow> service world \<Rightarrow> afs \<Rightarrow> bool" where
  "connected k w a \<longleftrightarrow> mq_ok w \<and> 4088 \<le> msgmax w \<and> req_queue w = [] \<and> idle_after k (peer w) \<and>
     queue_ok (tables (peer w)) \<and> fs_rel (sv_fs (tables (peer w))) a \<and> fs_ok a"

definition next_seq :: "'w world \<Rightarrow> u64" where
  "next_seq w = fst (get_seq w)"

definition seq_free :: "'w world \<Rightarrow> bool" where
  "seq_free w \<longleftrightarrow> next_seq w \<noteq> 0 \<and> (\<forall>r\<in>set (resp_queue w). rs_seq r \<noteq> next_seq w)"

lemma next_seq_pos: "next_seq w \<noteq> 0 \<Longrightarrow> 0 < sint (next_seq w)"
proof -
  assume "next_seq w \<noteq> 0"
  then have "uint (next_seq w) > 0" by (simp add: word_neq_0_conv flip: word_less_def) (simp add: word_less_def)
  moreover have "uint (next_seq w) < 4294967296"
    unfolding next_seq_def get_seq_def fst_conv using unsigned_less [where ?'a = int and w = "push_bit 4 (cl_pid w) + seq_counter w"]
    by (simp add: unsigned_ucast_eq take_bit_int_eq_self)
  ultimately show ?thesis by (simp add: sint_uint signed_take_bit_int_eq_self)
qed

lemma send_requests_ok:
  assumes "\<forall>m\<in>set ms. 0 < sint (rq_seq m) \<and> 24 + length (rq_data m) \<le> msgmax w"
  shows "send_requests ms w = Ret (w\<lparr>req_queue := req_queue w @ ms\<rparr>)"
  using assms by (induction ms arbitrary: w) (auto simp: msgsnd_request_def)

lemma request_parts_seq: "\<forall>m\<in>set (request_parts ty seq data). rq_seq m = seq"
  by (auto simp: request_parts_def Let_def)

lemma call_args_length: "call_ok c \<Longrightarrow> length (call_args c) \<le> 4294967295"
  by (cases c) (auto simp: str_ok_def put_str_def)

text \<open>The state after a call, before the response is read.\<close>

definition asked :: "service world \<Rightarrow> service \<Rightarrow> service world" where
  "asked w t = w\<lparr>seq_counter := seq_counter w + 1, peer := t\<rparr>"

definition after_call :: "nat \<Rightarrow> service world \<Rightarrow> afs \<Rightarrow> service \<Rightarrow> bool" where
  "after_call k w a' t \<longleftrightarrow> connected (Suc k) (asked w t) a' \<and>
     stack_junk (tables t) = stack_junk (tables (peer w)) \<and> heap_junk (tables t) = heap_junk (tables (peer w))"

lemma ask_answered:
  assumes con: "connected k w a" "k < 255" and seq: "seq_free w" and c: "call_ok c" "call_safe c a"
    and ans: "answer (stack_junk (tables (peer w))) (heap_junk (tables (peer w))) c a = Ret (st, p, a')"
  obtains t where "ask (serve_world junk) (call_type c) (call_args c) w = Ret (next_seq w,
      (asked w t)\<lparr>resp_queue := resp_queue w @ response_parts (next_seq w) st p\<rparr>)" "after_call k w a' t"
proof -
  let ?seq = "next_seq w" and ?ms = "request_parts (call_type c) (next_seq w) (call_args c)"
  have pos: "0 < sint ?seq" using seq next_seq_pos by (auto simp: seq_free_def)
  have len: "length (call_args c) \<le> 4294967295" by (rule call_args_length [OF c(1)])
  obtain rb where rb: "working (peer w)" "worker (peer w) = Idle" "server_buf (peer w) = Some rb" "rb_ok rb"
      "rb_queue rb = []" "unat (rb_size rb) = 256" "unat (rd_idx rb) = k"
    and w: "mq_ok w" "4088 \<le> msgmax w" "req_queue w = []" "queue_ok (tables (peer w))"
      "fs_rel (sv_fs (tables (peer w))) a" "fs_ok a"
    using con(1) by (auto simp: connected_def idle_after_def)
  let ?w1 = "w\<lparr>seq_counter := seq_counter w + 1\<rparr>" and ?w2 = "w\<lparr>seq_counter := seq_counter w + 1, req_queue := ?ms\<rparr>"
  have "\<forall>m\<in>set ?ms. 0 < sint (rq_seq m) \<and> 24 + length (rq_data m) \<le> msgmax ?w1"
    using request_parts_seq request_parts_fit [OF len] pos w(2) by (fastforce simp: fits_def)
  from send_requests_ok [OF this] have send: "send_requests ?ms ?w1 = Ret ?w2" by (simp add: w(3))
  let ?s = "to_service ?w2"
  have s: "working ?s" "worker ?s = Idle" "server_buf ?s = Some rb" "inbox ?s = ?ms @ []"
    "tables ?s = (tables (peer w))\<lparr>sent := resp_queue w\<rparr>"
    using rb by (simp_all add: to_service_def)
  have "unat (rd_idx rb) < 255" using rb(7) con(2) by simp
  from serve_one_request [OF s(1-4) rb(4-6) this len, of junk] obtain req r where
    r: "is_request (call_type c) ?seq (call_args c) req" "service_run junk ?s (replicate (length ?ms) Receive @ [Take, Serve]) r"
      "map_outcome tables r = map_outcome snd (dispatch req (tables ?s))"
      "\<forall>t. r = Ret t \<longrightarrow> working t \<and> worker t = Idle \<and> inbox t = [] \<and> (\<exists>rb'. server_buf t = Some rb' \<and>
         rb_ok rb' \<and> rb_queue rb' = [] \<and> unat (rb_size rb') = 256 \<and> unat (rd_idx rb') = Suc (unat (rd_idx rb)))"
    by metis
  have "answers ?seq (tables ?s) (dispatch req (tables ?s)) (answer (stack_junk (tables ?s)) (heap_junk (tables ?s)) c a)"
    using w c by (intro dispatch_answers [OF r(1) pos]) (simp_all add: s(5))
  then obtain x f where d: "dispatch req (tables ?s) = Ret (x, (tables ?s)\<lparr>sv_fs := f,
      sent := sent (tables ?s) @ response_parts ?seq st p\<rparr>)" "fs_rel f a'"
    using ans s(5) by (cases "dispatch req (tables ?s)") (auto simp: answers_def)
  with r(3) obtain t where t: "r = Ret t" "tables t = (tables (peer w))\<lparr>sv_fs := f,
      sent := resp_queue w @ response_parts ?seq st p\<rparr>"
    by (cases r) (auto simp: s(5))
  have "run_turns junk (serve_turns ?w2) ?s = Some t"
    using r(2) t(1) by (simp add: serve_turns_def flip: run_turns_run)
  then have "serve_world junk ?w2 = of_service ?w2 t" by (simp add: serve_world_def)
  also have "\<dots> = (asked w t)\<lparr>resp_queue := resp_queue w @ response_parts ?seq st p\<rparr>"
    using r(4) [rule_format, OF t(1)] t(2) w(3) by (cases w) (simp add: of_service_def asked_def)
  finally have sw: "serve_world junk ?w2 = (asked w t)\<lparr>resp_queue := resp_queue w @ response_parts ?seq st p\<rparr>" .
  show thesis
  proof (rule that [of t])
    show "ask (serve_world junk) (call_type c) (call_args c) w = Ret (?seq,
        (asked w t)\<lparr>resp_queue := resp_queue w @ response_parts ?seq st p\<rparr>)"
      using len w(1) send sw by (simp add: ask_def next_seq_def get_seq_def Let_def asked_def)
    have "fs_ok a'" by (rule answer_ok [OF w(6) c(2) ans])
    then show "after_call k w a' t"
      using r(4) [rule_format, OF t(1)] t(2) w d(2) rb(7) by (simp add: after_call_def connected_def idle_after_def asked_def)
  qed
qed

lemma ask_whole_ask: "length args \<le> 4064 \<Longrightarrow> ask_whole serve ty args w = ask serve ty args w"
  by (simp add: ask_whole_def ask_def request_parts_one Let_def split: prod.split)

text \<open>A whole call: the client reads the status and the data of the answer.\<close>

lemma ask_receive:
  assumes "connected k w a" "k < 255" "seq_free w" "call_ok c" "call_safe c a"
    and "answer (stack_junk (tables (peer w))) (heap_junk (tables (peer w))) c a = Ret (st, p, a')"
    and "length p \<le> 4294967295" "4088 \<le> lim"
  obtains t w' where "after_call k w a' t" "ask (serve_world junk) (call_type c) (call_args c) w = Ret (next_seq w, w')"
    "receive_response lim (next_seq w) w' = Ret (st, p, asked w t)"
proof -
  let ?w' = "\<lambda>t. (asked w t)\<lparr>resp_queue := resp_queue w @ response_parts (next_seq w) st p\<rparr>"
  obtain t where t: "ask (serve_world junk) (call_type c) (call_args c) w = Ret (next_seq w, ?w' t)" "after_call k w a' t"
    by (rule ask_answered [OF assms(1-6)])
  have pre: "\<forall>r\<in>set (resp_queue w). rs_seq r \<noteq> next_seq w" using assms(3) by (simp add: seq_free_def)
  have "(asked w t)\<lparr>resp_queue := resp_queue w\<rparr> = asked w t" by (simp add: asked_def)
  then have "receive_response lim (next_seq w) (?w' t) = Ret (st, p, asked w t)"
    by (subst receive_parts [OF assms(7) pre assms(8), of _ st "[]"]) simp_all
  with t show thesis by (intro that)
qed

lemma ask_status:
  assumes "connected k w a" "k < 255" "seq_free w" "call_ok c" "call_safe c a"
    and "answer (stack_junk (tables (peer w))) (heap_junk (tables (peer w))) c a = Ret (st, [], a')"
  obtains t w' where "after_call k w a' t" "ask (serve_world junk) (call_type c) (call_args c) w = Ret (next_seq w, w')"
    "receive_status (next_seq w) w' = Ret (st, asked w t)" "\<forall>b. receive_short b (next_seq w) w' = Ret (st, asked w t)"
proof -
  let ?w' = "\<lambda>t. (asked w t)\<lparr>resp_queue := resp_queue w @ response_parts (next_seq w) st []\<rparr>"
  obtain t where t: "ask (serve_world junk) (call_type c) (call_args c) w = Ret (next_seq w, ?w' t)" "after_call k w a' t"
    by (rule ask_answered [OF assms])
  have pre: "\<forall>r\<in>set (resp_queue w). rs_seq r \<noteq> next_seq w" using assms(3) by (simp add: seq_free_def)
  have eq: "(asked w t)\<lparr>resp_queue := resp_queue w\<rparr> = asked w t" by (simp add: asked_def)
  have "receive_status (next_seq w) (?w' t) = Ret (st, asked w t)"
    by (subst receive_status_parts [OF pre, of _ st "[]"]) (simp_all add: eq)
  moreover have "receive_short b (next_seq w) (?w' t) = Ret (st, asked w t)" for b
    by (subst receive_short_parts [OF pre, of _ st "[]"]) (simp_all add: eq)
  ultimately show thesis using t by (intro that allI)
qed

end
