(* ===== verification/Server_Props.thy ===== *)
theory Server_Props
  imports Server_Parts
begin

text \<open>
  The properties of the service process: requests are handled in order and to the end, and the ways
  in which the ring buffer loses them.
\<close>

text \<open>A server with the one file "A" of mode 0 that belongs to user 0.\<close>

definition one_server :: server where
  "one_server = \<lparr>sv_fs = one_fs, sent = [], queue_ok = True, stack_junk = \<lambda>_. 0, heap_junk = \<lambda>_. 0\<rparr>"

text \<open>The ring at the start.\<close>

definition ring0 :: req_buffer_t where
  "ring0 = the (snd (req_buffer_create None 256))"

lemma ring0_simps: "lock ring0 = False" "empty ring0 = 256" "full ring0 = 0" "wr_idx ring0 = 0" "rd_idx ring0 = 0"
  "rb_size ring0 = 256" "reqs ring0 = replicate 512 zero_req"
  by (simp_all add: ring0_def req_buffer_create_def)

lemma start_ring: "working (service_start ms sv)" "worker (service_start ms sv) = Idle"
  "server_buf (service_start ms sv) = Some ring0" "rb_ok ring0" "rb_queue ring0 = []" "unat (rb_size ring0) = 256"
  "unat (rd_idx ring0) < 255"
  by (simp_all add: service_start_def ring0_def req_buffer_create_def rb_ok_def rb_queue_def)

text \<open>A request to close descriptor 0.\<close>

definition demo_msg :: request_t where
  "demo_msg = \<lparr>rq_seq = 7, rq_type = CLOSE, rq_multipart = 0, rq_data_size = 12, rq_data_offset = 0,
     rq_part_size = 12, rq_data = replicate 12 0\<rparr>"

lemma demo_msg_ok: "client_msg demo_msg" "fits demo_msg" "request_parts CLOSE 7 (replicate 12 0) = [demo_msg]"
  by (simp_all add: demo_msg_def client_msg_def MAX_MSG_DATA_SIZE_def fits_def request_parts_one)

lemma demo_dispatch:
  assumes "sr_type req = CLOSE" "sr_seq req = 7" "sr_data req = Some (replicate 12 0)"
  obtains st u where "dispatch req one_server = Ret (st, u)"
proof -
  have "remove_descriptor empty_table 0 = Ret (FAILURE, empty_table)"
    by (simp add: remove_descriptor_def empty_table_def find_node_def find_loop.simps)
  then show thesis
    using assms that by (simp add: dispatch_def service_close_def one_server_def with_queue_def req_data_def get_u32_def
        on_fs_def close_inode_def one_fs_def fs_start_def reply_def msgsnd_def plain_response_def numeral_eq_Suc)
qed

lemma serve_demo_run: "\<exists>t. service_run (\<lambda>_. 0) (service_start [demo_msg] one_server) [Receive, Take, Serve] (Ret t)"
proof -
  let ?s = "service_start [demo_msg] one_server"
  have ib: "inbox ?s = request_parts CLOSE 7 (replicate 12 0) @ []" by (simp add: service_start_def demo_msg_ok)
  have len: "length (replicate 12 (0 :: byte)) \<le> 4294967295" by simp
  obtain req r where r: "is_request CLOSE 7 (replicate 12 0) req" "service_run (\<lambda>_. 0) ?s
        (replicate (length (request_parts CLOSE 7 (replicate 12 0))) Receive @ [Take, Serve]) r"
      "map_outcome tables r = map_outcome snd (dispatch req (tables ?s))"
    by (rule serve_one_request [OF start_ring(1-3) ib start_ring(4-7) len, of "\<lambda>_. 0"], rule that)
  obtain st u where "dispatch req one_server = Ret (st, u)"
    by (rule demo_dispatch [of req]) (use r(1) in \<open>simp_all add: is_request_def\<close>)
  with r(2,3) show ?thesis by (cases r) (auto simp: service_start_def demo_msg_ok)
qed

definition thread_events :: "event set" where
  "thread_events = {Receive, Take, Serve}"

text \<open> C17. Order of service: with at most 256 complete requests in the queue, whatever the order in
  which receiver and worker take their turns, the tables and the responses after any number of turns
  are those of handling a prefix of the queue one request after the other, and the service stops with
  an error only if a handler does. \<close>

theorem service_in_order:
  assumes "\<forall>m\<in>set ms. client_msg m" and "length ms \<le> 256"
    and "service_run junk (service_start ms sv) es r" and "set es \<subseteq> thread_events"
  shows "\<exists>k \<le> length ms. map_outcome tables r = map_outcome snd (run_ops dispatch (map entry_of (take k ms)) sv)"
  using run_in_order [OF assms(3) in_order_start _ _ assms(1,2)] assms(4)
  by (auto simp: service_start_def thread_events_def)

theorem service_in_order_witness:
  "\<exists>t k. service_run (\<lambda>_. 0) (service_start [demo_msg] one_server) [Receive, Take, Serve] (Ret t) \<and> k \<le> 1 \<and>
    Ret (tables t) = map_outcome snd (run_ops dispatch (map entry_of (take k [demo_msg])) one_server)"
proof -
  obtain t where t: "service_run (\<lambda>_. 0) (service_start [demo_msg] one_server) [Receive, Take, Serve] (Ret t)"
    using serve_demo_run by blast
  from service_in_order [OF _ _ t] demo_msg_ok(1) t show ?thesis by (auto simp: thread_events_def)
qed

text \<open> C15. Completion: under the same conditions no run has more than three turns per request, a run
  that has taken fewer can take another turn (no deadlock, no lost wake-up), and after all turns every
  request of the queue has been handled. \<close>

theorem service_completes:
  assumes "\<forall>m\<in>set ms. client_msg m" and "length ms \<le> 256"
    and "service_run junk (service_start ms sv) es (Ret t)" and "set es \<subseteq> thread_events"
  shows "length es \<le> 3 * length ms \<and>
    (length es < 3 * length ms \<longrightarrow> (\<exists>e\<in>thread_events. \<exists>r. service_step junk t e r)) \<and>
    (length es = 3 * length ms \<longrightarrow> (\<exists>sts. run_ops dispatch (map entry_of ms) sv = Ret (sts, tables t)))"
proof -
  let ?h = "\<lambda>k. map entry_of (take k ms)"
  obtain k where k: "k \<le> length ms" "in_order ms sv (?h k) t" "set (inbox t) \<subseteq> set ms"
    "turns (?h k) t = turns [] (service_start ms sv) + int (length es)"
    using run_in_order [OF assms(3) in_order_start _ _ assms(1,2)] assms(4)
    by (auto simp: service_start_def thread_events_def)
  then have n: "turns (?h k) t = int (length es) - int (length ms)" by (simp add: turns_def service_start_def)
  have b: "busy (worker t) \<le> 1" "k = length ms \<Longrightarrow> busy (worker t) = 0"
    using k(1,2) unfolding in_order_def by (cases "worker t"; auto dest!: arg_cong [where f = length])+
  from n k(1) have eq: "2 * int k + busy (worker t) - int (length (inbox t)) = int (length es) - int (length ms)"
    by (simp add: turns_def)
  have "length es \<le> 3 * length ms" using eq b k(1) by (cases "k = length ms") auto
  moreover have "\<exists>e\<in>thread_events. \<exists>r. service_step junk t e r" if "length es < 3 * length ms"
    using in_order_enabled [OF k(2) assms(1) k(3)] that n by (simp add: thread_events_def)
  moreover have "k = length ms" if "length es = 3 * length ms"
  proof (rule ccontr)
    assume "k \<noteq> length ms"
    with k(1) eq b(1) that show False by linarith
  qed
  moreover have "\<exists>sts. run_ops dispatch (?h k) sv = Ret (sts, tables t)" using k(2) by (auto simp: in_order_def)
  ultimately show ?thesis by auto
qed

theorem service_completes_witness:
  "\<exists>t sts. service_run (\<lambda>_. 0) (service_start [demo_msg] one_server) [Receive, Take, Serve] (Ret t) \<and>
    run_ops dispatch [entry_of demo_msg] one_server = Ret (sts, tables t)"
proof -
  obtain t where t: "service_run (\<lambda>_. 0) (service_start [demo_msg] one_server) [Receive, Take, Serve] (Ret t)"
    using serve_demo_run by blast
  have "\<forall>m\<in>set [demo_msg]. client_msg m" "length [demo_msg] \<le> 256" "set [Receive, Take, Serve] \<subseteq> thread_events"
    by (simp_all add: demo_msg_ok thread_events_def)
  from service_completes [OF this(1,2) t this(3)]
  have "\<exists>sts. run_ops dispatch (map entry_of [demo_msg]) one_server = Ret (sts, tables t)" by (simp del: run_ops.simps)
  with t show ?thesis by (simp del: run_ops.simps) blast
qed

text \<open> C13. Reassembly: a request that a client sends (\<open>request_parts\<close>), with no other message in between, arrives as one
  entry at the back of the queue: ready, with its type, its sequence number and exactly its bytes. A request in one part
  (up to 4064 bytes) needs a free slot. A request in several parts needs more (\<open>ring_room\<close>): the read index, the number of
  waiting requests and 1 add up to less than the size of the ring, so that the queue neither wraps around nor
  reaches the last slot, and no waiting request has the same sequence number. Where the queue does wrap around or
  reach the last slot the service exits (\<open>parts_lost\<close>, \<open>part_lost_at_wrap\<close>). \<close>

theorem request_reassembled:
  assumes "working s" and "server_buf s = Some rb" and "inbox s = request_parts ty seq data @ ms"
    and "rb_ok rb" and "full rb < unat (rb_size rb)" and "4064 < length data \<Longrightarrow> ring_room seq rb"
    and "length data \<le> 4294967295"
  shows "\<exists>rb' req. service_run junk s (replicate (length (request_parts ty seq data)) Receive)
      (Ret (s\<lparr>inbox := ms, server_buf := Some rb'\<rparr>)) \<and>
    rb_ok rb' \<and> rb_queue rb' = rb_queue rb @ [req] \<and> is_request ty seq data req"
proof (rule feed_request [OF assms(4-7), of junk ty])
  fix rb' req
  assume "put_all (feed junk) (request_parts ty seq data) rb = Some rb'" "rb_ok rb'"
    "rb_queue rb' = rb_queue rb @ [req]" "is_request ty seq data req"
  with receive_all [OF assms(3,1,2) request_parts_fit [OF assms(7)]] show ?thesis by blast
qed

theorem request_reassembled_witness:
  "\<exists>rb' req. service_run (\<lambda>_. 0) (service_start (request_parts WRITE 7 (replicate 5000 1)) one_server)
      (replicate (length (request_parts WRITE 7 (replicate 5000 1))) Receive)
      (Ret ((service_start (request_parts WRITE 7 (replicate 5000 1)) one_server)\<lparr>inbox := [], server_buf := Some rb'\<rparr>)) \<and>
    rb_queue rb' = [req] \<and> is_request WRITE 7 (replicate 5000 1) req"
proof -
  let ?s = "service_start (request_parts WRITE 7 (replicate 5000 1)) one_server"
  have "inbox ?s = request_parts WRITE 7 (replicate 5000 1) @ []" by (simp add: service_start_def)
  from request_reassembled [OF start_ring(1,3) this start_ring(4), of "\<lambda>_. 0"] show ?thesis
    by (auto simp: ring_room_def start_ring ring0_simps)
qed

text \<open>A request in several parts on a queue that wraps around or reaches the last slot.\<close>

lemma parts_lost:
  assumes "working s" and "server_buf s = Some rb" and "inbox s = request_parts ty seq data @ ms"
    and "rb_ok rb" and "full rb < unat (rb_size rb)" and "unat (rb_size rb) \<le> unat (rd_idx rb) + full rb + 1"
    and "4064 < length data" and "length data \<le> 4294967295"
  shows "service_run junk s [Receive, Receive] Exit"
proof -
  let ?rb1 = "part_ring junk ty seq data rb 1" and ?m = "part_msg ty seq data"
  have n: "1 < nparts (length data)" by (rule several_parts [OF assms(7)])
  then have "[0..<nparts (length data)] = 0 # 1 # [2..<nparts (length data)]"
    by (simp add: upt_conv_Cons numeral_2_eq_2)
  then have ib: "inbox s = ?m 0 # ?m 1 # (map ?m [2..<nparts (length data)] @ ms)"
    using assms(3) by (simp add: request_parts_several [OF assms(7,8)])
  have fit: "fits (?m 0)" "fits (?m 1)"
    using request_parts_fit [OF assms(8), of ty seq] n by (auto simp: request_parts_several [OF assms(7,8)])
  let ?s1 = "s\<lparr>inbox := ?m 1 # (map ?m [2..<nparts (length data)] @ ms), server_buf := Some ?rb1\<rparr>"
  have "receive junk s = Some (Ret ?s1)"
    using receive_fits [OF ib fit(1)] first_part [OF assms(4,5,7,8), of junk ty seq] assms(2) by simp
  then have st: "service_step junk s Receive (Ret ?s1)" using assms(1) by simp
  let ?r = "unat (rd_idx rb)" and ?z = "unat (rb_size rb)"
  have "?r < ?z" "unat (wr_idx rb) < ?z" "unat (wr_idx ?rb1) = Suc ((?r + full rb) mod ?z) mod ?z"
    using next_idx [of "wr_idx rb" "rb_size rb"] assms(4) by (auto simp: part_ring_def rb_ok_def)
  then have "unat (wr_idx ?rb1) = (?r + full rb + 1) mod ?z" by (simp add: mod_Suc_eq)
  also have "\<dots> = ?r + full rb + 1 - ?z" using assms(5,6) \<open>?r < ?z\<close> by (simp add: mod_if)
  finally have "unat (wr_idx ?rb1) \<le> unat (rd_idx ?rb1)" using assms(5) by (simp add: part_ring_def)
  then have "handle_msg junk (Some ?rb1) (?m 1) = Some (Ret (-1, Some ?rb1))"
    using part_msg_size(5,6) [OF n assms(8)] by (intro part_not_found) simp_all
  then have "receive junk ?s1 = Some Exit" using receive_fits [OF _ fit(2), of ?s1] by simp
  then have "service_step junk ?s1 Receive Exit" using assms(1) by simp
  then show ?thesis using service_run.step [OF st service_run_one] by simp
qed

text \<open> C32. Lost parts at the end of the ring: when the first part of a request takes the last slot,
  the next part is not found (the search runs from the read index up to the write index, which is 0
  again) and the service exits. So the 256th request since the start must not have several parts. \<close>

theorem part_lost_at_wrap:
  assumes "working s" and "server_buf s = Some rb" and "inbox s = request_parts ty seq data @ ms"
    and "rb_ok rb" and "full rb < unat (rb_size rb)" and "Suc (unat (wr_idx rb)) = unat (rb_size rb)"
    and "4064 < length data" and "length data \<le> 4294967295"
  shows "service_run junk s [Receive, Receive] Exit"
proof -
  have "unat (rb_size rb) \<le> unat (rd_idx rb) + full rb + 1"
    using assms(4,6) by (cases "unat (rd_idx rb) + full rb < unat (rb_size rb)") (simp_all add: rb_ok_def)
  from parts_lost [OF assms(1-5) this assms(7,8)] show ?thesis .
qed

theorem part_lost_at_wrap_witness:
  "service_run (\<lambda>_. 0) ((service_start (request_parts WRITE 7 (replicate 5000 1)) one_server)
      \<lparr>server_buf := Some (ring0\<lparr>wr_idx := 255, rd_idx := 255\<rparr>)\<rparr>) [Receive, Receive] Exit"
  by (rule part_lost_at_wrap [of _ "ring0\<lparr>wr_idx := 255, rd_idx := 255\<rparr>" WRITE 7 "replicate 5000 1" "[]"])
    (simp_all add: service_start_def rb_ok_def ring0_simps)

text \<open>The ring when another client's request comes between the first two parts of a request.\<close>

lemma interleaved_ring:
  assumes "rb_ok rb" "rb_queue rb = []" "unat (rd_idx rb) + 2 < unat (rb_size rb)"
    and "4064 < length data" "length data \<le> 4294967295" and "fits m" "rq_multipart m = 0" "rq_seq m \<noteq> seq"
  obtains rb2 rb3 where "handle_msg junk (Some (part_ring junk ty seq data rb 1)) m = Some (Ret (0, Some rb2))"
    "get_service_req (Some rb2) True = Some (0, Some (unat (rd_idx rb)), Some rb3)"
    "unat (rd_idx rb) < length (reqs rb3)" "sr_status (reqs rb3 ! unat (rd_idx rb)) = IN_PROGRESS"
    "handle_msg junk (Some rb3) (part_msg ty seq data 1) = Some (Ret (-1, Some rb3))"
proof -
  let ?rb1 = "part_ring junk ty seq data rb 1" and ?i = "unat (rd_idx rb)"
  have n: "1 < nparts (length data)" by (rule several_parts [OF assms(4)])
  have f0: "full rb = 0" using assms(2) by (simp flip: length_rb_queue)
  have ok: "\<not> lock rb" "unat (rb_size rb) < 2147483648" "unat (rb_size rb) \<le> length (reqs rb)"
    "empty rb = unat (rb_size rb)" "unat (wr_idx rb) = ?i"
    using assms(1,3) f0 by (auto simp: rb_ok_def)
  have wr_eq: "wr_idx rb = rd_idx rb" using ok(5) by (simp add: word_unat_eq_iff)
  have w1: "unat ((rd_idx rb + 1) mod rb_size rb) = Suc ?i"
    using next_idx [of "rd_idx rb" "rb_size rb"] assms(3) ok(2) by simp
  have w2: "unat (((rd_idx rb + 1) mod rb_size rb + 1) mod rb_size rb) = Suc (Suc ?i)"
    using next_idx [of "(rd_idx rb + 1) mod rb_size rb" "rb_size rb"] assms(3) ok(2) w1 by simp
  define rb2 where "rb2 = ?rb1\<lparr>empty := empty ?rb1 - 1, full := 1, wr_idx := (wr_idx ?rb1 + 1) mod rb_size rb,
    reqs := (reqs ?rb1)[Suc ?i := entry_of m], lock := False\<rparr>"
  define rb3 where "rb3 = rb2\<lparr>full := 0, lock := False, rd_idx := (rd_idx rb + 1) mod rb_size rb, empty := Suc (empty rb2)\<rparr>"
  have "handle_msg junk (Some ?rb1) m = Some (Ret (0, Some rb2))"
    using ok f0 w1 assms(3,6,7)
    by (simp add: handle_msg_def sync_defs store_req_def fits_def part_ring_def wr_eq Let_def entry_of_def zero_req_def rb2_def)
  moreover have "get_service_req (Some rb2) True = Some (0, Some ?i, Some rb3)"
    by (simp add: get_service_req_def sync_defs rb2_def rb3_def part_ring_def Let_def)
  moreover have "?i < length (reqs rb3)" "sr_status (reqs rb3 ! ?i) = IN_PROGRESS"
    using ok assms(3) by (simp_all add: rb3_def rb2_def part_ring_def wr_eq part_entry_def)
  moreover have "[unat (rd_idx rb3)..<unat (wr_idx rb3)] = [Suc ?i]"
    using w1 w2 by (simp add: rb3_def rb2_def part_ring_def wr_eq)
  moreover have "sr_seq (reqs rb3 ! Suc ?i) \<noteq> seq"
    using ok assms(3,8) by (simp add: rb3_def rb2_def part_ring_def wr_eq entry_of_def)
  ultimately show thesis
    using that part_msg_size(5,6) [OF n assms(5), of ty seq] by (simp add: handle_msg_def part_msg_def find_req_def)
qed

text \<open> C31. Lost parts behind another request: when a complete request of another client arrives between
  the parts of a request, the worker takes the incomplete request for it, passes it over and moves the
  read index on; the next part is not found and the service exits. \<close>

theorem interleaved_parts_lost:
  assumes "working s" and "worker s = Idle" and "server_buf s = Some rb" and "rb_ok rb" and "rb_queue rb = []"
    and "unat (rd_idx rb) + 2 < unat (rb_size rb)" and "4064 < length data" and "length data \<le> 4294967295"
    and "inbox s = part_msg ty seq data 0 # m # part_msg ty seq data 1 # ms"
    and "fits m" and "rq_multipart m = 0" and "rq_seq m \<noteq> seq"
  shows "service_run junk s [Receive, Receive, Take, Serve, Receive] Exit"
proof -
  let ?rb1 = "part_ring junk ty seq data rb 1" and ?p = "part_msg ty seq data" and ?i = "unat (rd_idx rb)"
  obtain rb2 rb3 where r: "handle_msg junk (Some ?rb1) m = Some (Ret (0, Some rb2))"
    "get_service_req (Some rb2) True = Some (0, Some ?i, Some rb3)"
    "?i < length (reqs rb3)" "sr_status (reqs rb3 ! ?i) = IN_PROGRESS"
    "handle_msg junk (Some rb3) (?p 1) = Some (Ret (-1, Some rb3))"
    by (rule interleaved_ring [OF assms(4-8,10-12), of junk ty])
  have fit: "fits (?p 0)" "fits (?p 1)"
    using request_parts_fit [OF assms(8), of ty seq] several_parts [OF assms(7)]
    by (auto simp: request_parts_several [OF assms(7,8)])
  have "full rb < unat (rb_size rb)" using assms(5,6) by (simp flip: length_rb_queue)
  note first = first_part [OF assms(4) this assms(7,8), of junk ty seq]
  define s1 where "s1 = s\<lparr>inbox := m # ?p 1 # ms, server_buf := Some ?rb1\<rparr>"
  define s2 where "s2 = s\<lparr>inbox := ?p 1 # ms, server_buf := Some rb2\<rparr>"
  define s3 where "s3 = s2\<lparr>server_buf := Some rb3, worker := Serving ?i\<rparr>"
  have st1: "service_step junk s Receive (Ret s1)"
    using receive_fits [OF assms(9) fit(1)] first assms(1,3) by (simp add: s1_def)
  have st2: "service_step junk s1 Receive (Ret s2)"
    using receive_fits [of s1 m "?p 1 # ms" junk] assms(1,10) r(1) by (simp add: s1_def s2_def)
  have st3: "service_step junk s2 Take (Ret s3)"
    using r(2) assms(1,2) by (simp add: operate_take_def s2_def s3_def)
  have st4: "service_step junk s3 Serve (Ret (s3\<lparr>worker := Idle\<rparr>))"
    using r(3,4) by (simp add: operate_serve_def s3_def)
  have "receive junk (s3\<lparr>worker := Idle\<rparr>) = Some Exit"
    using receive_fits [OF _ fit(2), of "s3\<lparr>worker := Idle\<rparr>" ms] r(5) by (simp add: s3_def s2_def)
  then have st5: "service_step junk (s3\<lparr>worker := Idle\<rparr>) Receive Exit" using assms(1) by (simp add: s3_def s2_def)
  show ?thesis
    by (rule service_run.step [OF st1 service_run.step [OF st2 service_run.step [OF st3
          service_run.step [OF st4 service_run_one [OF st5]]]]])
qed

theorem interleaved_parts_lost_witness:
  "service_run (\<lambda>_. 0) (service_start [part_msg WRITE 8 (replicate 5000 1) 0, demo_msg, part_msg WRITE 8 (replicate 5000 1) 1]
      one_server) [Receive, Receive, Take, Serve, Receive] Exit"
proof -
  let ?s = "service_start [part_msg WRITE 8 (replicate 5000 1) 0, demo_msg, part_msg WRITE 8 (replicate 5000 1) 1] one_server"
  show ?thesis
    by (rule interleaved_parts_lost [of ?s ring0 "replicate 5000 1" WRITE 8 demo_msg "[]"])
      (simp_all add: start_ring demo_msg_ok, simp_all add: service_start_def ring0_simps demo_msg_def)
qed

text \<open> C30. A slot is reused while it is served: the worker gives its slot back before it reads the
  request, so when the ring is otherwise full the next message is stored over the request being served.
  That message is handled in its place (and answered), the request itself is lost, and what is left in
  the queue for the message is an entry marked \<open>COMPLETED\<close>, on which the worker exits. \<close>

theorem slot_reused_while_served:
  assumes "working s" and "worker s = Serving i" and "server_buf s = Some rb" and "rb_ok rb"
    and "i < unat (rb_size rb)" and "unat (rd_idx rb) = Suc i mod unat (rb_size rb)" and "Suc (full rb) = unat (rb_size rb)"
    and "inbox s = m # ms" and "client_msg m" and "dispatch (entry_of m) (tables s) = Ret (st, u)"
  shows "\<exists>t rb'. service_run junk s [Receive, Serve] (Ret t) \<and> tables t = u \<and> server_buf t = Some rb' \<and>
    butlast (rb_queue rb') = rb_queue rb \<and> sr_status (last (rb_queue rb')) = COMPLETED"
proof -
  let ?n = "unat (rb_size rb)"
  have "full rb < ?n" using assms(7) by linarith
  from single_room [OF assms(4) msgrcv_client(2) [OF assms(9)] this, of junk] obtain rb1 where
    h: "handle_msg junk (Some rb) (in_buffer m) = Some (Ret (0, Some rb1))" and rb1: "rb_ok rb1"
      "rb_queue rb1 = rb_queue rb @ [entry_of m]" "rb_size rb1 = rb_size rb" "full rb1 = Suc (full rb)"
      "reqs rb1 = (reqs rb)[unat (wr_idx rb) := entry_of m]" "rd_idx rb1 = rd_idx rb"
    unfolding msgrcv_client(3) [OF assms(9)] by blast
  have il: "i < length (reqs rb)" using assms(4,5) by (auto simp: rb_ok_def)
  have slot: "(Suc i mod ?n + full rb) mod ?n = i"
  proof -
    have "(Suc i mod ?n + full rb) mod ?n = (Suc i + full rb) mod ?n" by (simp add: mod_add_left_eq)
    also have "Suc i + full rb = i + ?n" using assms(7) by simp
    finally show ?thesis using assms(5) by simp
  qed
  then have wr: "unat (wr_idx rb) = i" using assms(4,6) by (simp add: rb_ok_def)
  let ?t1 = "s\<lparr>inbox := ms, server_buf := Some rb1\<rparr>"
  have "receive junk s = Some (Ret ?t1)"
    using h assms(3,8) msgrcv_client(1,4) [OF assms(9)] by (simp add: receive_def)
  then have st1: "service_step junk s Receive (Ret ?t1)" using assms(1) by simp
  define fin where "fin = (entry_of m)\<lparr>sr_data := None, sr_data_offset := 0, sr_data_size := 0, sr_status := COMPLETED\<rparr>"
  let ?rb2 = "rb1\<lparr>reqs := (reqs rb1)[i := fin]\<rparr>"
  let ?t2 = "?t1\<lparr>tables := u, worker := Idle, server_buf := Some ?rb2\<rparr>"
  have "service_step junk ?t1 Serve (Ret ?t2)"
    using assms(2,10) rb1(5) wr il msgrcv_client(5) [OF assms(9)] by (simp add: operate_serve_def Let_def fin_def)
  then have run: "service_run junk s [Receive, Serve] (Ret ?t2)"
    by (rule service_run.step [OF st1 service_run_one])
  have other: "(reqs rb)[i := fin] ! ((Suc i mod ?n + j) mod ?n) = reqs rb ! ((Suc i mod ?n + j) mod ?n)" if "j < full rb" for j
  proof -
    have "(Suc i mod ?n + j) mod ?n \<noteq> i"
      using ring_distinct [OF that, of ?n "Suc i mod ?n"] slot assms(7) by simp
    then show ?thesis by simp
  qed
  then have "rb_queue ?rb2 = rb_queue rb @ [fin]"
    using rb1(3-6) assms(6) wr slot il by (simp add: rb_queue_def)
  with run show ?thesis by (intro exI [of _ ?t2] exI [of _ ?rb2]) (simp add: fin_def)
qed

theorem slot_reused_while_served_witness:
  "\<exists>t rb'. service_run (\<lambda>_. 0) ((service_start [demo_msg] one_server)\<lparr>worker := Serving 0,
      server_buf := Some (ring0\<lparr>empty := 1, full := 255, rd_idx := 1\<rparr>)\<rparr>) [Receive, Serve] (Ret t) \<and>
    server_buf t = Some rb' \<and> sr_status (last (rb_queue rb')) = COMPLETED"
proof (rule demo_dispatch [of "entry_of demo_msg"])
  let ?rb = "ring0\<lparr>empty := 1, full := 255, rd_idx := 1\<rparr>"
  let ?s = "(service_start [demo_msg] one_server)\<lparr>worker := Serving 0, server_buf := Some ?rb\<rparr>"
  fix st u assume d: "dispatch (entry_of demo_msg) one_server = Ret (st, u)"
  have "\<exists>t rb'. service_run (\<lambda>_. 0) ?s [Receive, Serve] (Ret t) \<and> tables t = u \<and> server_buf t = Some rb' \<and>
      butlast (rb_queue rb') = rb_queue ?rb \<and> sr_status (last (rb_queue rb')) = COMPLETED"
    by (rule slot_reused_while_served [of ?s 0 ?rb demo_msg "[]" st u])
      (use d in \<open>simp_all add: service_start_def rb_ok_def ring0_simps demo_msg_ok\<close>)
  then show ?thesis by blast
qed (simp_all add: entry_of_def demo_msg_def)

text \<open>A message longer than the buffer is served as an empty request.\<close>

lemma serve_oversized:
  assumes "working s" and "worker s = Idle" and "server_buf s = Some rb" and "rb_ok rb" and "rb_queue rb = []"
    and "inbox s = m # ms" and "4064 < length (rq_data m)" and "queue_ok (tables s)"
  shows "service_run junk s [Receive, Take, Serve] Undef"
proof -
  have "single_ok cleared_msg" by (simp add: single_ok_def cleared_msg_def)
  moreover have f0: "full rb = 0" using assms(5) by (simp flip: length_rb_queue)
  then have "full rb < unat (rb_size rb)" using assms(4) by (simp add: rb_ok_def)
  ultimately obtain rb1 where h: "handle_msg junk (Some rb) cleared_msg = Some (Ret (0, Some rb1))" and rb1:
      "rb_ok rb1" "rb_queue rb1 = [entry_of cleared_msg]" "rb_size rb1 = rb_size rb"
    using single_room [OF assms(4), of cleared_msg junk] assms(5) by auto
  let ?t1 = "s\<lparr>server_buf := Some rb1\<rparr>"
  have "s\<lparr>inbox := inbox s, server_buf := Some rb1\<rparr> = ?t1" by (cases s) simp
  then have "receive junk s = Some (Ret ?t1)"
    using h assms(3,6,7) by (simp add: receive_def msgrcv_request_def cleared_msg_def)
  then have st1: "service_step junk s Receive (Ret ?t1)" using assms(1) by simp
  from take_first [OF rb1(1,2)] obtain rb2 where
    g: "get_service_req (Some rb1) True = Some (0, Some (unat (rd_idx rb1)), Some rb2)"
      "reqs rb2 ! unat (rd_idx rb1) = entry_of cleared_msg" "rb_ok rb2" by auto
  let ?t2 = "?t1\<lparr>server_buf := Some rb2, worker := Serving (unat (rd_idx rb1))\<rparr>"
  have st2: "service_step junk ?t1 Take (Ret ?t2)" using g(1) assms(1,2) by (simp add: operate_take_def)
  have "operate_serve (unat (rd_idx rb1)) ?t2 = Undef"
    using g(2) assms(8)
    by (auto simp: operate_serve_def Let_def entry_of_def cleared_msg_def dispatch_def service_create_def
        with_queue_def req_data_def get_u32_def)
  then have "service_step junk ?t2 Serve Undef" by simp
  then show ?thesis by (rule service_run.step [OF st1 service_run.step [OF st2 service_run_one]])
qed

text \<open>A message that does not fit: one that is longer than the receive buffer stays in the queue,
  and the receiver handles a cleared buffer as if it were a request without data; serving that reads
  past the end of the (empty) data. \<close>

theorem oversized_message_is_fatal:
  assumes "working s" and "worker s = Idle" and "server_buf s = Some rb" and "rb_ok rb" and "rb_queue rb = []"
    and "inbox s = m # ms" and "4064 < length (rq_data m)" and "queue_ok (tables s)"
  shows "service_run junk s [Receive, Take, Serve] Undef"
  by (rule serve_oversized [OF assms])

theorem oversized_message_is_fatal_witness:
  "service_run (\<lambda>_. 0) (service_start [demo_msg\<lparr>rq_data := replicate 5000 0\<rparr>] one_server) [Receive, Take, Serve] Undef"
  by (rule oversized_message_is_fatal [OF start_ring(1-5), of _ _ "demo_msg\<lparr>rq_data := replicate 5000 0\<rparr>" "[]"])
    (simp_all add: service_start_def one_server_def)

end
