(* ===== verification/Service_Props.thy ===== *)
theory Service_Props
  imports Service_Calls Server_Props
begin

text \<open>
  The properties of the request handlers and of the service as a whole: every handler answers its
  specification, the service process implements the specification for any order of its threads, and
  where the permission checks and the responses are wrong.
\<close>

lemma one_fs_ok: "fs_ok one_afs"
  by (auto simp: fs_ok_def one_afs_def a_start_def names_ok_def descs_ok_def links_def one_name_def blank_inode_def
      new_inode_def)

lemma one_numbers: "numbers_left one_afs"
  by (simp add: numbers_left_def one_afs_def a_start_def blank_inode_def new_inode_def)

text \<open> C3. Handlers: take a request that carries the arguments of one of the twelve calls, with names of fewer than 256
  bytes and without zero bytes and at most 4294800000 bytes to write (\<open>call_ok\<close>), and pointer tables that are related to a consistent specification
  state in which numbers are left for a new inode, descriptor and name. Unless the call is an unlinking that
  frees the first cell of the name or the inode list (\<open>call_safe\<close>; what that does is
  \<open>unlink_oldest_name_dangles\<close>), the handler gives the status and the data of the specified answer, cut into response
  parts, leaves related tables, and is undefined or exits exactly where the specification does: refused
  permissions, missing and taken names, bad descriptors and offsets and a full disk included. If the response queue
  cannot be opened, it exits before it does anything. \<close>

theorem handlers_answer:
  assumes "is_request (call_type c) seq (call_args c) req" and "0 < sint seq" and "call_ok c"
    and "fs_rel (sv_fs s) a" and "fs_ok a" and "call_safe c a"
  shows "if queue_ok s
    then rel_outcome (\<lambda>(_, s') (st, p, a'). \<exists>f. fs_rel f a' \<and> s' = s\<lparr>sv_fs := f, sent := sent s @ response_parts seq st p\<rparr>)
      (dispatch req s) (answer (stack_junk s) (heap_junk s) c a)
    else dispatch req s = Exit"
  using dispatch_answers [OF assms(1-3) _ assms(4-6)] by (simp add: answers_def dispatch_no_queue)

theorem handlers_answer_witness:
  "\<exists>x s'. dispatch (call_req (7, Create 5 6 420 [66])) one_server = Ret (x, s') \<and>
    sent s' = response_parts 7 SUCCESS (put_u32 1)"
  using handlers_answer [of "Create 5 6 420 [66]" 7 "call_req (7, Create 5 6 420 [66])" one_server one_afs] one_rel one_fs_ok
    one_numbers call_req_is_request [of "Create 5 6 420 [66]" 7]
  by (cases "dispatch (call_req (7, Create 5 6 420 [66])) one_server")
    (auto simp: one_server_def str_ok_def a_create_def one_afs_def a_start_def one_name_def blank_inode_def new_inode_def
      next_index_def Let_def)

text \<open> C5. The service implements its specification: from the first start, with at most 256 requests
  of one part in the queue, none of which frees the first cell of a list, after any number of turns of
  the two threads in any order the tables and the responses are those the specification gives for a
  prefix of the requests, handled in the order of the queue. \<close>

theorem service_implements_spec:
  assumes "\<forall>(q, c)\<in>set cs. length (call_args c) \<le> 4064" and "length cs \<le> 256"
    and "guarded spec_call call_guard cs (spec_start dir clk stack heap)"
    and "service_run junk (service_start (map call_msg cs) (server_start dir clk stack heap)) es r"
    and "set es \<subseteq> {Receive, Take, Serve}"
  shows "\<exists>k \<le> length cs. rel_outcome call_rel (map_outcome tables r)
    (map_outcome snd (run_ops spec_call (take k cs) (spec_start dir clk stack heap)))"
  by (rule service_refines_calls [OF assms(1-3) server_start_rel server_start_ok assms(4,5)])

definition demo_call :: "u64 \<times> call" where
  "demo_call = (7, Create 5 6 420 [66])"

lemma demo_call_run:
  obtains r where "service_run (\<lambda>_. 0) (service_start [call_msg demo_call] sv) [Receive, Take, Serve] r"
proof -
  let ?s = "service_start [call_msg demo_call] sv" and ?args = "call_args (snd demo_call)"
  have l: "length ?args \<le> 4064" by (simp add: demo_call_def put_str_def)
  have parts: "request_parts CREATE 7 ?args = [call_msg demo_call]"
    using l by (simp add: call_msg_def request_parts_one demo_call_def)
  have "inbox ?s = request_parts CREATE 7 ?args @ []" by (simp add: service_start_def parts)
  from serve_one_request [OF start_ring(1-3) this start_ring(4-7), of "\<lambda>_. 0"] l obtain r where
    "service_run (\<lambda>_. 0) ?s (replicate (length (request_parts CREATE 7 ?args)) Receive @ [Take, Serve]) r" by auto
  then show thesis by (intro that) (simp add: parts)
qed

theorem service_implements_spec_witness:
  "\<exists>r k. k \<le> 1 \<and> service_run (\<lambda>_. 0) (service_start [call_msg demo_call] (server_start ''/r'' noon (\<lambda>_. 0) (\<lambda>_. 0)))
      [Receive, Take, Serve] r \<and>
    rel_outcome call_rel (map_outcome tables r)
      (map_outcome snd (run_ops spec_call (take k [demo_call]) (spec_start ''/r'' noon (\<lambda>_. 0) (\<lambda>_. 0))))"
proof (rule demo_call_run)
  fix r assume run: "service_run (\<lambda>_. 0) (service_start [call_msg demo_call] (server_start ''/r'' noon (\<lambda>_. 0) (\<lambda>_. 0)))
      [Receive, Take, Serve] r"
  have "guarded spec_call call_guard [demo_call] (spec_start ''/r'' noon (\<lambda>_. 0) (\<lambda>_. 0))"
    by (auto simp: demo_call_def call_guard_def str_ok_def numbers_left_def spec_start_def a_start_def
        split: outcome.split)
  with service_implements_spec [of "[demo_call]" "''/r''" noon "\<lambda>_. 0" "\<lambda>_. 0" "\<lambda>_. 0" "[Receive, Take, Serve]" r] run
  show ?thesis by (auto simp: demo_call_def put_str_def)
qed

subsection \<open>Permissions\<close>

text \<open>A bit of a number as comparisons.\<close>

lemma low_half:
  fixes p m :: nat
  assumes "0 < m"
  shows "p mod (m * 2) < m \<longleftrightarrow> even (p div m)"
proof -
  have "p mod (m * 2) = m * (p div m mod 2) + p mod m" by (rule mod_mult2_eq)
  moreover have "p mod m < m" using assms by simp
  ultimately show ?thesis by (cases "even (p div m)") (auto simp: even_iff_mod_2_eq_zero odd_iff_mod_2_eq_one)
qed

lemma even_quarters:
  fixes p m :: nat
  assumes "0 < m"
  shows "(p mod (m * 4) < m \<or> (m * 2 \<le> p mod (m * 4) \<and> p mod (m * 4) < m * 3)) \<longleftrightarrow> even (p div m)"
proof -
  define r where "r = p mod m"
  have "p mod (m * 4) = m * (p div m mod 4) + r" unfolding r_def by (rule mod_mult2_eq)
  moreover have "r < m" using assms by (simp add: r_def)
  moreover have "even (p div m) \<longleftrightarrow> even (p div m mod 4)" by (simp add: dvd_mod_iff)
  moreover have "p div m mod 4 \<in> {0, 1, 2, 3}" by auto
  ultimately show ?thesis by auto
qed

text \<open> C22. Permission bits: for modes from 0 to 0777 the comparisons of the handlers refuse reading and
  writing exactly when the bit of the class the user is in is not set: owner, else group, else others. \<close>

theorem permission_bits:
  assumes "unat perms < 512"
  shows "read_refused uid gid own grp perms = (\<not> bit perms (if uid = own then 8 else if gid = grp then 5 else 2)) \<and>
    write_refused uid gid own grp perms = (\<not> bit perms (if uid = own then 7 else if gid = grp then 4 else 1))"
proof -
  define p where "p = unat perms"
  have s: "sint perms = int p" using assms by (intro sint_small_u64) (simp_all add: p_def)
  have b: "bit perms n = odd (p div 2 ^ n)" for n
  proof -
    have "bit (unat perms) n = bit perms n" by (simp add: bit_unsigned_iff)
    then show ?thesis by (simp add: p_def bit_iff_odd)
  qed
  have m: "int p smod 64 = int (p mod 64)" "int p smod 8 = int (p mod 8)" by (simp_all add: smod_mod_positive zmod_int)
  have l: "p < 512" using assms by (simp add: p_def)
  have "read_refused uid gid own grp perms =
      (if uid = own then p < 256 else if gid = grp then p mod 64 < 32 else p mod 8 < 4)"
    by (auto simp: read_refused_def s m)
  moreover have "write_refused uid gid own grp perms = (if uid = own then p < 128 \<or> (256 \<le> p \<and> p < 384)
      else if gid = grp then p mod 64 < 16 \<or> (32 \<le> p mod 64 \<and> p mod 64 < 48)
      else p mod 8 < 2 \<or> (4 \<le> p mod 8 \<and> p mod 8 < 6))"
    by (auto simp: write_refused_def s m)
  ultimately show ?thesis
    unfolding b using l low_half [of 256 p] low_half [of 32 p] low_half [of 4 p]
      even_quarters [of 128 p] even_quarters [of 16 p] even_quarters [of 2 p]
    by simp
qed

theorem permission_bits_witness:
  "unat (420 :: u64) < 512 \<and> \<not> read_refused 7 8 9 10 420 \<and> write_refused 7 8 9 10 420"
  using permission_bits [of 420 7 8 9 10] by (simp add: bit_numeral_word_iff)

text \<open>Modes above 0777: the comparisons are made for three digits, so any higher bit (and a mode with
  the sign bit set) breaks them. With a bit above 0777 the owner is never refused anything, whatever
  the permission bits say, and with a negative mode everybody is refused everything. \<close>

theorem wide_modes:
  "(512 \<le> sint perms \<longrightarrow> \<not> read_refused uid gid uid grp perms \<and> \<not> write_refused uid gid uid grp perms) \<and>
   (sint perms < 0 \<longrightarrow> read_refused uid gid own grp perms \<and> write_refused uid gid own grp perms)"
proof -
  have "sint perms smod 64 \<le> 0 \<and> sint perms smod 8 \<le> 0" if "sint perms < 0"
    using that smod_int_compares(4) [of "sint perms" 64] smod_int_compares(4) [of "sint perms" 8] by simp
  then show ?thesis by (auto simp: read_refused_def write_refused_def)
qed

theorem wide_modes_witness:
  "\<not> read_refused 7 0 7 0 512 \<and> \<not> bit (512 :: u64) 8 \<and> read_refused 7 0 7 0 (-1) \<and> bit (-1 :: u64) 8"
  using wide_modes [of 512 7 0 0 7] wide_modes [of "-1" 7 0 0 7] by (simp add: bit_numeral_word_iff)

subsection \<open>Responses\<close>

text \<open>Renaming to a name that is taken: \<open>rename_file\<close> reports \<open>FILENAME_TAKEN\<close>, but the handler compares
  the status with -2, so the response says \<open>FAILURE\<close> and the tables do not change. \<close>

theorem rename_taken_reports_failure:
  assumes "sr_data req = Some (call_args (Rename old new))" and "0 < sint (sr_seq req)" and "str_ok old" and "str_ok new"
    and "queue_ok s" and "fs_rel (sv_fs s) a" and "pw_dir (host (a_disk a)) \<noteq> None" and "name_in (a_names a) new"
  shows "\<exists>x f. service_rename req s = Ret (x, s\<lparr>sv_fs := f,
      sent := sent s @ [plain_response (sr_seq req) FAILURE]\<rparr>) \<and> fs_rel f a"
proof -
  have "answer stack heap (Rename old new) a = Ret (FAILURE, [], a)" for stack heap
    using assms(7,8) by (simp add: a_rename_def)
  with rename_answers [OF assms(1) refl assms(2-6)] show ?thesis
    by (cases "service_rename req s") (auto simp: answers_def response_parts_small plain_response_def)
qed

theorem rename_taken_reports_failure_witness:
  "\<exists>x f. service_rename (call_req (7, Rename [90] [65])) one_server = Ret (x, one_server\<lparr>sv_fs := f,
      sent := [plain_response 7 FAILURE]\<rparr>)"
  using rename_taken_reports_failure [of "call_req (7, Rename [90] [65])" "[90]" "[65]" one_server one_afs] one_rel
  by (auto simp: call_req_def str_ok_def one_server_def one_afs_def a_start_def one_name_def blank_disk_def)

text \<open> C38. Refused \<open>stat\<close>: when the caller may not read the file, the response still carries 56 bytes of
  data, the uninitialised content of the handler's stack, and the tables do not change. \<close>

theorem refused_stat_sends_stack:
  assumes "sr_data req = Some (call_args (Stat uid gid name))" and "0 < sint (sr_seq req)" and "str_ok name"
    and "queue_ok s" and "fs_rel (sv_fs s) a" and "inode_no a (target a name) = Some n"
    and "read_refused uid gid (owner n) (owner_group n) (mode n)"
  shows "\<exists>x f. service_stat req s = Ret (x, s\<lparr>sv_fs := f, sent := sent s @ [(plain_response (sr_seq req) INSUFFICIENT_PERMS)
      \<lparr>rs_data_size := 56, rs_part_size := 56, rs_data := map (stack_junk s) [0..<56]\<rparr>]\<rparr>) \<and> fs_rel f a"
proof -
  have "answer (stack_junk s) heap (Stat uid gid name) a = Ret (INSUFFICIENT_PERMS, map (stack_junk s) [0..<56], a)" for heap
    using assms(6,7) by (simp add: a_check_def read_check_def checked_def)
  moreover have "response_parts seq st (map (stack_junk s) [0..<56]) = [(plain_response seq st)
      \<lparr>rs_data_size := 56, rs_part_size := 56, rs_data := map (stack_junk s) [0..<56]\<rparr>]" for seq st
    by (subst response_parts_small) simp_all
  ultimately show ?thesis
    using stat_answers [OF assms(1) refl assms(2-5) refl]
    by (cases "service_stat req s") (auto simp: answers_def)
qed

theorem refused_stat_sends_stack_witness:
  "\<exists>x f. service_stat (call_req (7, Stat 5 6 [65])) one_server = Ret (x, one_server\<lparr>sv_fs := f,
      sent := [(plain_response 7 INSUFFICIENT_PERMS)\<lparr>rs_data_size := 56, rs_part_size := 56, rs_data := replicate 56 0\<rparr>]\<rparr>)"
  using refused_stat_sends_stack [of "call_req (7, Stat 5 6 [65])" 5 6 "[65]" one_server one_afs blank_inode] one_rel
  by (auto simp: call_req_def str_ok_def one_server_def one_afs_def a_start_def one_name_def blank_inode_def new_inode_def
      target_def lookup_name_def read_refused_def map_replicate_const)

text \<open>Unlinking needs no permission: the outcome of the handler is the same for every user and group,
  and does not depend on the mode or the owner of the file. \<close>

theorem unlink_ignores_permissions:
  assumes "sr_data req = Some (call_args (Unlink uid gid name))" and "sr_data req' = Some (call_args (Unlink uid' gid' name))"
    and "sr_seq req = sr_seq req'" and "str_ok name"
  shows "service_unlink req s = service_unlink req' s \<and> service_unlink req s = with_queue s
    (obind (on_fs (unlink_inode (head (inode_table (sv_fs s))) name (sv_fs s)) s) (\<lambda>(st, s'). reply (sr_seq req) st s'))"
  using assms by (simp add: service_unlink_def req_simps)

theorem unlink_ignores_permissions_witness:
  "service_unlink (call_req (7, Unlink 0 0 [65])) one_server = service_unlink (call_req (7, Unlink 5 6 [65])) one_server"
  using unlink_ignores_permissions [of "call_req (7, Unlink 0 0 [65])" 0 0 "[65]" "call_req (7, Unlink 5 6 [65])" 5 6 one_server]
  by (simp add: call_req_def str_ok_def)

end
