(* ===== verification/Client_Props.thy ===== *)
theory Client_Props
  imports End_To_End Service_Props
begin

text \<open>
  The properties of the client library, alone and with the service behind it.
\<close>

subsection \<open>Lemmas on the specification\<close>

lemma numbers_left_upd:
  assumes "map index (a_inodes a') = map index (a_inodes a)" "map desc (a_descs a') = map desc (a_descs a)"
    "length (a_names a') = length (a_names a)"
  shows "numbers_left a' = numbers_left a"
proof -
  have "index (last xs) = last (map index xs)" if "xs \<noteq> []" for xs using that by (simp add: last_map)
  moreover have "desc (last xs) = last (map desc xs)" if "xs \<noteq> []" for xs using that by (simp add: last_map)
  ultimately show ?thesis using assms unfolding numbers_left_def by (metis map_is_Nil_conv)
qed

text \<open>The three operations behind writing to a new descriptor, going back and reading.\<close>

lemma spec_write_seek_read:
  assumes d: "desc_no a fd = Some d" "d_mode d \<noteq> READ_ONLY" "d_offset d = 0"
    and n: "inode_no a (d_node_index d) = Some n"
    and disk: "disk_ok (a_disk a) k" "blocks_ok (data_blocks n) k" "writable n 0 sz k"
    and len: "unat sz = length data" "length out = length data"
  obtains a1 a2 a3 where "a_write fd data sz a = Ret (SUCCESS, a1)" "a_seek fd 0 a1 = Ret (SUCCESS, a2)"
    "a_read fd out sz a2 = Ret (SUCCESS, data, a3)" "numbers_left a1 = numbers_left a" "numbers_left a2 = numbers_left a"
proof -
  let ?i = "d_node_index d" and ?n = "set_mtim (a_now a) (set_atim (a_now a) n)"
  have b: "data_blocks ?n = data_blocks n" by (simp add: set_mtim_def set_atim_def)
  have w: "writable ?n 0 sz k" "blocks_ok (data_blocks ?n) k" using disk by (simp_all add: writable_def b)
  obtain n' d' where W: "write_inode ?n data 0 sz (a_disk a) = Ret (SUCCESS, n', sz, d')"
    "st_size (stat n') = ucast sz" "read_inode n' out 0 sz d' = Ret (SUCCESS, data, sz)"
    using write_read_inode [OF disk(1) w(2,1), of data out] len by (auto simp: overwrite_full)
  have sz: "unat sz \<le> 409600" using disk(3) by (simp add: writable_def)
  have ix: "index n' = ?i" using write_inode_refs(1) [OF W(1)] n by (auto simp: find_Some_iff set_mtim_def set_atim_def)
  let ?a1 = "a_upd_desc fd (\<lambda>d. d\<lparr>d_offset := sz\<rparr>) (a_upd_inode ?i (\<lambda>_. n') ((a_tick a)\<lparr>a_disk := d'\<rparr>))"
  let ?a2 = "a_upd_desc fd (\<lambda>d. d\<lparr>d_offset := 0\<rparr>) ?a1"
  have d1: "desc_no ?a1 fd = Some (d\<lparr>d_offset := sz\<rparr>)" "desc_no ?a2 fd = Some (d\<lparr>d_offset := 0\<rparr>)"
    using d(1) by (simp_all add: a_defs find_upd_first)
  have n1: "inode_no ?a1 ?i = Some n'" "inode_no ?a2 ?i = Some n'" using n ix by (simp_all add: a_defs find_upd_first)
  have "a_write fd data sz a = Ret (SUCCESS, ?a1)" using d n W(1) by (simp add: a_write_def)
  moreover have "unat (ucast sz :: u64) = unat sz"
    using unat_lt_u32 [of sz] by (simp add: unsigned_ucast_eq take_bit_nat_eq_self)
  then have "0 \<le> sint (ucast sz :: u64)" using sint_small_u64 [of "ucast sz" "unat sz"] unat_lt_u32 [of sz] by simp
  then have "a_seek fd 0 ?a1 = Ret (SUCCESS, ?a2)" using d1 n1 W(2) by (simp add: a_seek_def)
  moreover obtain a3 where "a_read fd out sz ?a2 = Ret (SUCCESS, data, a3)"
    using d1(2) n1(2) W(3) by (simp add: a_read_def a_defs)
  moreover have ni: "map index (upd_first (\<lambda>n. index n = ?i) (\<lambda>_. n') xs) = map index xs" for xs
    using ix by (induction xs) auto
  have dn: "map desc (upd_first (\<lambda>d. desc d = fd) (\<lambda>d. d\<lparr>d_offset := o'\<rparr>) xs) = map desc xs" for o' xs
    by (induction xs) auto
  have "numbers_left ?a1 = numbers_left a" by (rule numbers_left_upd) (simp_all add: a_defs ni dn)
  moreover have "numbers_left ?a2 = numbers_left a" by (rule numbers_left_upd) (simp_all add: a_defs ni dn)
  ultimately show thesis by (intro that [of ?a1 ?a2 a3])
qed

subsection \<open>A connected client\<close>

text \<open>The service has the file "A", opened for writing as descriptor 0.\<close>

definition demo_desc :: descriptor_t where
  "demo_desc = desc_entry 0 0 1 0"

definition open_fs :: fs where
  "open_fs = one_fs\<lparr>descriptor_table := \<lparr>cells = [0 \<mapsto> demo_desc], head = Some 0, brk = 1\<rparr>\<rparr>"

definition open_afs :: afs where
  "open_afs = one_afs\<lparr>a_descs := [demo_desc]\<rparr>"

definition demo_world :: "fs \<Rightarrow> service world" where
  "demo_world f = \<lparr>cl_pid = 100, cl_uid = 0, cl_gid = 0, seq_counter = 0, libfs_errno = SUCCESS, req_queue = [],
     resp_queue = [], mq_ok = True, msgmax = 8192, cl_junk = \<lambda>_. 0,
     peer = service_start [] (one_server\<lparr>sv_fs := f\<rparr>)\<rparr>"

lemma demo_connected: "fs_rel f a \<Longrightarrow> fs_ok a \<Longrightarrow> connected 0 (demo_world f) a"
  by (simp add: connected_def demo_world_def idle_after_def start_ring ring0_simps)
    (simp add: service_start_def one_server_def)

lemma open_rel: "fs_rel open_fs open_afs" "fs_ok open_afs" "numbers_left open_afs"
  using one_rel one_fs_ok one_numbers table_one [of demo_desc]
  by (auto simp: fs_rel_def open_fs_def open_afs_def fs_ok_def descs_ok_def numbers_left_def one_afs_def strip_def
      demo_desc_def)

subsection \<open>Sequence numbers\<close>

lemma get_seq_unat:
  assumes "unat (cl_pid w) < 268435456"
  shows "unat (fst (get_seq w)) = (16 * unat (cl_pid w) + unat (seq_counter w)) mod 4294967296"
proof -
  have "unat (push_bit 4 (cl_pid w)) = 16 * unat (cl_pid w)"
    using assms by (simp add: push_bit_eq_mult unat_word_ariths)
  then have "unat (push_bit 4 (cl_pid w) + seq_counter w) = (16 * unat (cl_pid w) + unat (seq_counter w)) mod 4294967296"
    by (simp add: unat_word_ariths)
  then show ?thesis by (simp add: get_seq_def unsigned_ucast_eq take_bit_nat_eq_self)
qed

text \<open> C34. Sequence numbers of two processes: as long as both have made at most 16 calls, no sequence number
  of the one is one of the other; and the 17th call of a process has the number of the first call of
  the process with the next pid, so that each may receive the other's response. \<close>

theorem sequence_numbers:
  assumes "unat (cl_pid w) < 4194304" and "unat (cl_pid v) < 4194304"
  shows "(cl_pid w \<noteq> cl_pid v \<and> unat (seq_counter w) < 16 \<and> unat (seq_counter v) < 16 \<longrightarrow> fst (get_seq w) \<noteq> fst (get_seq v)) \<and>
    (unat (cl_pid v) = Suc (unat (cl_pid w)) \<and> seq_counter w = 16 \<and> seq_counter v = 0 \<longrightarrow> fst (get_seq w) = fst (get_seq v))"
proof (intro conjI impI)
  assume a: "cl_pid w \<noteq> cl_pid v \<and> unat (seq_counter w) < 16 \<and> unat (seq_counter v) < 16"
  then have "unat (cl_pid w) \<noteq> unat (cl_pid v)" by (simp add: word_unat_eq_iff)
  then show "fst (get_seq w) \<noteq> fst (get_seq v)"
    using get_seq_unat [of w] get_seq_unat [of v] assms a by (auto dest!: arg_cong [where f = unat])
next
  assume "unat (cl_pid v) = Suc (unat (cl_pid w)) \<and> seq_counter w = 16 \<and> seq_counter v = 0"
  then show "fst (get_seq w) = fst (get_seq v)"
    using get_seq_unat [of w] get_seq_unat [of v] assms by (simp add: word_unat_eq_iff)
qed

theorem sequence_numbers_witness:
  "fst (get_seq ((demo_world one_fs)\<lparr>seq_counter := 16\<rparr>)) = fst (get_seq ((demo_world one_fs)\<lparr>cl_pid := 101\<rparr>)) \<and>
   fst (get_seq (demo_world one_fs)) \<noteq> fst (get_seq ((demo_world one_fs)\<lparr>cl_pid := 101\<rparr>))"
  using sequence_numbers [of "(demo_world one_fs)\<lparr>seq_counter := 16\<rparr>" "(demo_world one_fs)\<lparr>cl_pid := 101\<rparr>"]
    sequence_numbers [of "demo_world one_fs" "(demo_world one_fs)\<lparr>cl_pid := 101\<rparr>"]
  by (simp add: demo_world_def)

text \<open>No response waits for anybody, and the next \<open>n\<close> sequence numbers of the client are not 0.\<close>

definition seqs_left :: "nat \<Rightarrow> service world \<Rightarrow> bool" where
  "seqs_left n w \<longleftrightarrow> resp_queue w = [] \<and> 0 < unat (cl_pid w) \<and> unat (cl_pid w) < 4194304 \<and>
     16 * unat (cl_pid w) + unat (seq_counter w) + n < 4294967296"

lemma seqs_left_Suc:
  assumes "seqs_left (Suc n) w"
  shows "seq_free w" "seqs_left n (asked w t)"
proof -
  have "unat (next_seq w) \<noteq> 0" using assms get_seq_unat [of w] by (simp add: next_seq_def seqs_left_def)
  then have "next_seq w \<noteq> 0" by auto
  then show "seq_free w" using assms by (simp add: seq_free_def seqs_left_def)
  have "unat (seq_counter w + 1) = Suc (unat (seq_counter w))"
    using assms by (subst unat_add_u32) (simp_all add: seqs_left_def)
  then show "seqs_left n (asked w t)" using assms by (simp add: seqs_left_def asked_def)
qed

lemma demo_seqs: "n \<le> 100 \<Longrightarrow> seqs_left n (demo_world f)"
  by (simp add: seqs_left_def demo_world_def)

lemma asked_simps [simp]: "cl_uid (asked w t) = cl_uid w" "cl_gid (asked w t) = cl_gid w" "peer (asked w t) = t"
  by (simp_all add: asked_def)

subsection \<open>Calls with the service behind them\<close>

text \<open>Creating a file: the call of a client on a new name returns the number of the new inode, and
  the service then has the file, owned by the client, with the wanted mode, one link and size 0. \<close>

theorem create_end_to_end:
  assumes "connected k w a" and "k < 255" and "seqs_left 1 w" and "str_ok name" and "numbers_left a"
    and "\<not> name_in (a_names a) name"
  shows "\<exists>t a' n. libfs_create (serve_world junk) name md w = Ret (next_index (a_inodes a), asked w t) \<and>
    connected (Suc k) (asked w t) a' \<and> a_names a' = a_names a @ [name_entry name (index n)] \<and>
    a_inodes a' = a_inodes a @ [n] \<and> index n = next_index (a_inodes a) \<and>
    owner n = cl_uid w \<and> owner_group n = cl_gid w \<and> mode n = md \<and> ref_count n = 1 \<and> st_size (stat n) = 0"
proof -
  let ?i = "next_index (a_inodes a)" and ?c = "Create (cl_uid w) (cl_gid w) md name"
  let ?n = "new_inode ?i F_REGULAR (cl_uid w) (cl_gid w) 1 md 0 (a_now a) (a_now a) (a_now a)"
  let ?a' = "(a_tick a)\<lparr>a_inodes := a_inodes a @ [?n], a_names := a_names a @ [name_entry name ?i]\<rparr>"
  have ans: "answer stack heap ?c a = Ret (SUCCESS, put_u32 ?i, ?a')" for stack heap
    using assms(4,6) by (simp add: a_create_def Let_def str_ok_def)
  have "seq_free w" using seqs_left_Suc(1) [of 0 w] assms(3) by simp
  from ask_receive [OF assms(1,2) this _ _ ans, of 4096 junk] assms(4,5) obtain t w' where
    t: "after_call k w ?a' t" "ask (serve_world junk) CREATE (call_args ?c) w = Ret (next_seq w, w')"
      "receive_response 4096 (next_seq w) w' = Ret (SUCCESS, put_u32 ?i, asked w t)"
    by auto
  have "of_nat (le_val (put_u32 ?i)) = ?i"
    using u32.dec_exact [of ?i] by (simp add: get_u32_def)
  then have "libfs_create (serve_world junk) name md w = Ret (?i, asked w t)"
    using t(2,3) by (simp add: libfs_create_def set_errno_def)
  moreover have "connected (Suc k) (asked w t) ?a'" using t(1) by (simp add: after_call_def)
  ultimately show ?thesis by (intro exI [of _ t] exI [of _ ?a'] exI [of _ ?n]) (simp add: new_inode_def)
qed

theorem create_end_to_end_witness:
  "\<exists>t. libfs_create (serve_world (\<lambda>_. 0)) [66] 420 (demo_world one_fs) = Ret (1, asked (demo_world one_fs) t)"
  using create_end_to_end [OF demo_connected [OF one_rel one_fs_ok] _ demo_seqs, of "[66]" "\<lambda>_. 0" 420] one_numbers
  by (auto simp: str_ok_def one_afs_def one_name_def next_index_def a_start_def blank_inode_def new_inode_def)

text \<open>Three calls as the client sees them: the status of the specification, in the state after the call.\<close>

lemma libfs_write_call:
  assumes "connected k w a" "k < 255" "seq_free w" "call_safe (Write (cl_uid w) (cl_gid w) fd data) a"
    "length data \<le> 409600" "a_write fd data (of_nat (length data)) a = Ret (SUCCESS, a')"
  obtains t where "after_call k w a' t"
    "libfs_write (serve_world junk) fd data (of_nat (length data)) w = Ret (0, asked w t)"
proof -
  let ?c = "Write (cl_uid w) (cl_gid w) fd data"
  have an: "answer stack heap ?c a = Ret (SUCCESS, [], a')" for stack heap
    using assms(6) by (simp add: no_data_def)
  have ok: "call_ok ?c" using assms(5) by simp
  have u: "unat (of_nat (length data) :: u32) = length data" using assms(5) by (intro unat_of_nat_u32) simp
  obtain t v where t: "after_call k w a' t" "ask (serve_world junk) (call_type ?c) (call_args ?c) w = Ret (next_seq w, v)"
    "receive_status (next_seq w) v = Ret (SUCCESS, asked w t)"
    by (rule ask_status [OF assms(1-3) ok assms(4) an], rule that)
  then have "libfs_write (serve_world junk) fd data (of_nat (length data)) w = Ret (0, asked w t)"
    using u by (simp add: libfs_write_def set_errno_def)
  with t(1) show thesis by (rule that)
qed

lemma libfs_seek_call:
  assumes "connected k w a" "k < 255" "seq_free w" "call_safe (Seek (cl_uid w) (cl_gid w) fd off) a"
    "a_seek fd off a = Ret (SUCCESS, a')"
  obtains t where "after_call k w a' t" "libfs_seek (serve_world junk) fd off w = Ret (SUCCESS, asked w t)"
proof -
  let ?c = "Seek (cl_uid w) (cl_gid w) fd off"
  have an: "answer stack heap ?c a = Ret (SUCCESS, [], a')" for stack heap
    using assms(5) by (simp add: no_data_def)
  have ok: "call_ok ?c" by simp
  obtain t v where t: "after_call k w a' t" "ask (serve_world junk) (call_type ?c) (call_args ?c) w = Ret (next_seq w, v)"
    "receive_status (next_seq w) v = Ret (SUCCESS, asked w t)"
    by (rule ask_status [OF assms(1-3) ok assms(4) an], rule that)
  then have "libfs_seek (serve_world junk) fd off w = Ret (SUCCESS, asked w t)"
    by (simp add: libfs_seek_def ask_whole_ask set_errno_def)
  with t(1) show thesis by (rule that)
qed

lemma libfs_read_call:
  assumes "connected k w a" "k < 255" "seq_free w" "call_safe (Read (cl_uid w) (cl_gid w) fd n) a"
    "a_read fd (map (heap_junk (tables (peer w))) [0..<unat n]) n a = Ret (SUCCESS, data, a')" "length data \<le> length out"
    "length data \<le> 4294967295"
  obtains t where "libfs_read (serve_world junk) fd out n w = Ret (SUCCESS, overwrite 0 data out, asked w t)"
proof -
  let ?c = "Read (cl_uid w) (cl_gid w) fd n"
  have an: "answer (stack_junk (tables (peer w))) (heap_junk (tables (peer w))) ?c a = Ret (SUCCESS, data, a')"
    using assms(5) by simp
  have ok: "call_ok ?c" "4088 \<le> (4088 :: nat)" by simp_all
  obtain t v where "ask (serve_world junk) (call_type ?c) (call_args ?c) w = Ret (next_seq w, v)"
    "receive_response 4088 (next_seq w) v = Ret (SUCCESS, data, asked w t)"
    by (rule ask_receive [OF assms(1-3) ok(1) assms(4) an assms(7) ok(2)], rule that)
  then have "libfs_read (serve_world junk) fd out n w = Ret (SUCCESS, overwrite 0 data out, asked w t)"
    using assms(6) by (simp add: libfs_read_def)
  then show thesis by (rule that)
qed

text \<open> C6. Write, seek, read from a client: on a service that is idle and has handled fewer than 253 requests, so that the
  parts of a request do not reach the end of the ring (\<open>connected\<close>: the queues are open, empty and take whole messages),
  with numbers left for a new inode, descriptor and name and three sequence numbers left for the client, and on a disk of which no block was ever freed
  (\<open>disk_ok\<close>: the slots in use are the first \<open>b\<close>, and the data file consists of exactly their blocks), with a descriptor at
  offset 0 that is open for writing on a file for which there are enough free blocks (\<open>writable\<close>):
  \<open>libfs_write\<close> of any data up to the maximal file size, \<open>libfs_seek\<close> to 0 and \<open>libfs_read\<close> into a buffer that is long enough
  report success, and the data read are the data written, through the parts of the request,
  the ring buffer, the blocks of the file and the parts of the response. Beyond these conditions it fails:
  \<open>freed_space_mixes_files\<close>, \<open>part_lost_at_wrap\<close>. \<close>

theorem write_read_end_to_end:
  assumes "connected k w a" and "k < 253" and "seqs_left 3 w" and "numbers_left a"
    and "desc_no a fd = Some d" and "d_mode d \<noteq> READ_ONLY" and "d_offset d = 0" and "inode_no a (d_node_index d) = Some n"
    and "disk_ok (a_disk a) b" and "blocks_ok (data_blocks n) b" and "writable n 0 (of_nat (length data)) b"
    and "length data \<le> 409600" and "length data \<le> length out"
  shows "\<exists>w1 w2 w3. libfs_write (serve_world junk) fd data (of_nat (length data)) w = Ret (0, w1) \<and>
    libfs_seek (serve_world junk) fd 0 w1 = Ret (SUCCESS, w2) \<and>
    libfs_read (serve_world junk) fd out (of_nat (length data)) w2 = Ret (SUCCESS, overwrite 0 data out, w3)"
proof -
  let ?n = "of_nat (length data) :: u32"
  have u: "unat ?n = length data" using assms(12) by (intro unat_of_nat_u32) simp
  define heap where "heap = heap_junk (tables (peer w))"
  obtain a1 a2 a3 where A: "a_write fd data ?n a = Ret (SUCCESS, a1)" "a_seek fd 0 a1 = Ret (SUCCESS, a2)"
    "a_read fd (map heap [0..<unat ?n]) ?n a2 = Ret (SUCCESS, data, a3)" "numbers_left a1" "numbers_left a2"
    using spec_write_seek_read [OF assms(5-11), of data "map heap [0..<unat ?n]"] u assms(4) by auto
  have s: "seq_free w" "seqs_left 2 (asked w t)" for t
    using seqs_left_Suc [of 2 w] assms(3) by (simp_all add: numeral_3_eq_3 numeral_2_eq_2)
  obtain t1 where t1: "after_call k w a1 t1" "libfs_write (serve_world junk) fd data ?n w = Ret (0, asked w t1)"
    by (rule libfs_write_call [OF assms(1) _ s(1) _ assms(12) A(1)]) (use assms(2,4) in auto)
  let ?w1 = "asked w t1"
  have c1: "connected (Suc k) ?w1 a1" using t1(1) by (simp add: after_call_def)
  have s1: "seq_free ?w1" "seqs_left 1 (asked ?w1 t)" for t
    using seqs_left_Suc [of 1 ?w1] s(2) [of t1] by (simp_all add: numeral_2_eq_2)
  obtain t2 where t2: "after_call (Suc k) ?w1 a2 t2" "libfs_seek (serve_world junk) fd 0 ?w1 = Ret (SUCCESS, asked ?w1 t2)"
    by (rule libfs_seek_call [OF c1 _ s1(1) _ A(2)]) (use assms(2) A(4) in auto)
  let ?w2 = "asked ?w1 t2"
  have c2: "connected (Suc (Suc k)) ?w2 a2" using t2(1) by (simp add: after_call_def)
  have s2: "seq_free ?w2" using seqs_left_Suc(1) [of 0 ?w2] s1(2) [of t2] by simp
  have hp: "heap_junk (tables (peer ?w2)) = heap" using t1(1) t2(1) by (simp add: after_call_def heap_def)
  obtain t3 where "libfs_read (serve_world junk) fd out ?n ?w2 = Ret (SUCCESS, overwrite 0 data out, asked ?w2 t3)"
    by (rule libfs_read_call [OF c2 _ s2 _ A(3) [folded hp] assms(13)]) (use assms(2,12) A(5) in auto)
  with t1(2) t2(2) show ?thesis by blast
qed

theorem write_read_end_to_end_witness:
  "\<exists>w1 w2 w3. libfs_write (serve_world (\<lambda>_. 0)) 0 (replicate 9000 7) 9000 (demo_world open_fs) = Ret (0, w1) \<and>
    libfs_seek (serve_world (\<lambda>_. 0)) 0 0 w1 = Ret (SUCCESS, w2) \<and>
    libfs_read (serve_world (\<lambda>_. 0)) 0 (replicate 9000 0) 9000 w2 = Ret (SUCCESS, replicate 9000 7, w3)"
proof -
  have "desc_no open_afs 0 = Some demo_desc" "d_mode demo_desc \<noteq> READ_ONLY" "d_offset demo_desc = 0"
    "inode_no open_afs (d_node_index demo_desc) = Some blank_inode" "disk_ok (a_disk open_afs) 0"
    "blocks_ok (data_blocks blank_inode) 0"
    by (simp_all add: open_afs_def demo_desc_def one_afs_def blank_inode_def new_inode_def a_start_def blocks_ok_no_blocks)
  from write_read_end_to_end [OF demo_connected [OF open_rel(1,2)] _ demo_seqs open_rel(3) this,
      of "replicate 9000 7" "replicate 9000 0" "\<lambda>_. 0"]
  show ?thesis by (simp add: overwrite_full)
qed

text \<open>What the client makes of a descriptor: its lowest byte, as a signed number.\<close>

definition as_char :: "u32 \<Rightarrow> u32" where
  "as_char fd = scast (ucast fd :: byte)"

lemma sint_small_byte:
  assumes "unat (w :: byte) = n" "n < 128"
  shows "sint w = int n"
proof -
  from assms(1) have "uint w = int n" by (metis uint_nat)
  with assms(2) show ?thesis by (simp add: sint_uint signed_take_bit_int_eq_self)
qed

lemma as_char_small:
  assumes "unat fd < 128"
  shows "as_char fd = fd"
proof -
  define k where "k = unat fd"
  have "unat (ucast fd :: byte) = k" using assms by (simp add: k_def unsigned_ucast_eq take_bit_nat_eq_self)
  then have "sint (ucast fd :: byte) = int k" by (rule sint_small_byte) (use assms in \<open>simp add: k_def\<close>)
  then have "as_char fd = of_nat k" by (simp add: as_char_def scast_eq)
  then show ?thesis by (simp add: k_def)
qed

lemma as_char_large:
  assumes "128 \<le> unat fd" "unat fd < 2147483648"
  shows "as_char fd \<noteq> fd"
proof
  assume eq: "as_char fd = fd"
  define k where "k = unat fd"
  have "sint (ucast fd :: byte) < 128" using sint_less [of "ucast fd :: byte"] by simp
  moreover have "sint (as_char fd) = sint (ucast fd :: byte)"
    unfolding as_char_def by (rule sint_up_scast) (simp add: is_up)
  moreover have "sint fd = int k" by (rule sint_small) (use assms(2) in \<open>simp_all add: k_def\<close>)
  moreover have "128 \<le> k" using assms(1) by (simp add: k_def)
  ultimately show False using eq by simp
qed

text \<open> C33. Descriptors in the client: opening a file that exists, may be accessed and has no writer gives
  a new descriptor in the service, but the client gets its lowest byte as a signed number. So the
  result is the descriptor for the first 128 of them, and another number from 128 on. \<close>

theorem open_truncates_descriptor:
  assumes "connected k w a" and "k < 255" and "seqs_left 1 w" and "str_ok name" and "numbers_left a"
    and "a_check (open_check flags (cl_uid w) (cl_gid w)) name a = SUCCESS"
    and "\<not> writer_open (a_descs a) (target a name)" and "inode_no a (target a name) = Some n"
  shows "\<exists>t a' r. libfs_open (serve_world junk) name flags w = Ret (r, asked w t) \<and> connected (Suc k) (asked w t) a' \<and>
    a_descs a' = a_descs a @ [desc_entry (next_desc (a_descs a)) (target a name) flags 0] \<and>
    (unat (next_desc (a_descs a)) < 128 \<longrightarrow> r = next_desc (a_descs a)) \<and>
    (128 \<le> unat (next_desc (a_descs a)) \<and> unat (next_desc (a_descs a)) < 2147483648 \<longrightarrow> r \<noteq> next_desc (a_descs a))"
proof -
  let ?fd = "next_desc (a_descs a)" and ?i = "target a name" and ?c = "Open (cl_uid w) (cl_gid w) name flags"
  let ?a' = "a_upd_inode ?i (set_atim (a_now a)) (a_tick (a\<lparr>a_descs := a_descs a @ [desc_entry ?fd ?i flags 0]\<rparr>))"
  have ans: "answer stack heap ?c a = Ret (SUCCESS, put_u32 ?fd, ?a')" for stack heap
    using assms(6-8) by (simp add: checked_def a_open_def Let_def)
  have sf: "seq_free w" using seqs_left_Suc(1) [of 0 w] assms(3) by simp
  have ok: "call_ok ?c" "call_safe ?c a" "length (put_u32 ?fd) \<le> 4294967295" "4088 \<le> (4096 :: nat)"
    using assms(4,5) by simp_all
  obtain t w' where t: "after_call k w ?a' t" "ask (serve_world junk) (call_type ?c) (call_args ?c) w = Ret (next_seq w, w')"
    "receive_response 4096 (next_seq w) w' = Ret (SUCCESS, put_u32 ?fd, asked w t)"
    by (rule ask_receive [OF assms(1,2) sf ok(1,2) ans ok(3,4)], rule that)
  have "put_u32 ?fd = le_bytes (Suc 3) (unat ?fd)" by (simp add: put_u32_def)
  then obtain bs where "put_u32 ?fd = ucast ?fd # bs" by (simp only: le_bytes.simps(2) of_nat_unat)
  with t(2,3) have "libfs_open (serve_world junk) name flags w = Ret (as_char ?fd, asked w t)"
    by (simp add: libfs_open_def as_char_def)
  moreover have "connected (Suc k) (asked w t) ?a'" using t(1) by (simp add: after_call_def)
  ultimately show ?thesis
    using as_char_small [of ?fd] as_char_large [of ?fd]
    by (intro exI [of _ t] exI [of _ ?a'] exI [of _ "as_char ?fd"]) (simp add: a_defs)
qed

text \<open>The file "A" is readable, and of 128 descriptors the last one is still open.\<close>

definition many_fs :: fs where
  "many_fs = one_fs\<lparr>inode_table := \<lparr>cells = [0 \<mapsto> blank_inode\<lparr>mode := 420\<rparr>], head = Some 0, brk = 1\<rparr>,
     descriptor_table := \<lparr>cells = [127 \<mapsto> desc_entry 127 0 0 0], head = Some 127, brk = 128\<rparr>\<rparr>"

definition many_afs :: afs where
  "many_afs = one_afs\<lparr>a_inodes := [blank_inode\<lparr>mode := 420\<rparr>], a_descs := [desc_entry 127 0 0 0]\<rparr>"

lemma many_rel: "fs_rel many_fs many_afs" "fs_ok many_afs" "numbers_left many_afs"
proof -
  have "table_is \<lparr>cells = [127 \<mapsto> desc_entry 127 0 0 0], head = Some 127, brk = 128\<rparr> [desc_entry 127 0 0 0]"
    unfolding table_is_def by (rule exI [of _ "[127]"]) (auto simp: table_wf_def view_def strip_def)
  moreover have "table_is \<lparr>cells = [0 \<mapsto> blank_inode\<lparr>mode := 420\<rparr>], head = Some 0, brk = 1\<rparr> [blank_inode\<lparr>mode := 420\<rparr>]"
    by (intro table_one) (simp_all add: strip_def blank_inode_def new_inode_def)
  ultimately show "fs_rel many_fs many_afs"
    using one_rel by (simp add: fs_rel_def many_fs_def many_afs_def)
  show "fs_ok many_afs" "numbers_left many_afs"
    using one_fs_ok one_numbers
    by (simp_all add: fs_ok_def descs_ok_def numbers_left_def many_afs_def one_afs_def names_ok_def links_def)
qed

theorem open_truncates_descriptor_witness:
  "\<exists>t r. libfs_open (serve_world (\<lambda>_. 0)) [65] 0 (demo_world many_fs) = Ret (r, asked (demo_world many_fs) t) \<and>
    next_desc (a_descs many_afs) = 128 \<and> r \<noteq> 128"
proof -
  let ?n = "blank_inode\<lparr>mode := 420\<rparr>"
  have n: "next_desc (a_descs many_afs) = 128" by (simp add: many_afs_def next_desc_def)
  have i: "inode_no many_afs (target many_afs [65]) = Some ?n"
    by (simp add: many_afs_def one_afs_def target_def lookup_name_def one_name_def blank_inode_def new_inode_def a_start_def)
  have c: "a_check (open_check 0 0 0) [65] many_afs = SUCCESS"
    using i by (simp add: a_check_def open_check_def read_refused_def blank_inode_def new_inode_def)
  have "\<not> writer_open (a_descs many_afs) (target many_afs [65])" by (simp add: writer_open_def many_afs_def)
  from open_truncates_descriptor [OF demo_connected [OF many_rel(1,2)] _ demo_seqs _ many_rel(3) _ this i,
      of 0 "\<lambda>_. 0"] c n
  show ?thesis by (auto simp: str_ok_def demo_world_def)
qed

text \<open>Renaming to a taken name, at the client: the call returns \<open>FAILURE\<close> and sets \<open>libfs_errno\<close> to it;
  the branch of the client for \<open>FILENAME_TAKEN\<close> is never taken. \<close>

theorem rename_taken_end_to_end:
  assumes "connected k w a" and "k < 255" and "seqs_left 1 w" and "str_ok old" and "str_ok new" and "numbers_left a"
    and "pw_dir (host (a_disk a)) \<noteq> None" and "name_in (a_names a) new"
  shows "\<exists>t. libfs_rename (serve_world junk) old new w = Ret (FAILURE, (asked w t)\<lparr>libfs_errno := FAILURE\<rparr>) \<and>
    connected (Suc k) (asked w t) a"
proof -
  have ans: "answer stack heap (Rename old new) a = Ret (FAILURE, [], a)" for stack heap
    using assms(7,8) by (simp add: a_rename_def)
  have sf: "seq_free w" using seqs_left_Suc(1) [of 0 w] assms(3) by simp
  have ok: "call_ok (Rename old new)" "call_safe (Rename old new) a" using assms(4-6) by simp_all
  obtain t w' where t: "after_call k w a t"
    "ask (serve_world junk) (call_type (Rename old new)) (call_args (Rename old new)) w = Ret (next_seq w, w')"
    "\<forall>b. receive_short b (next_seq w) w' = Ret (FAILURE, asked w t)"
    by (rule ask_status [OF assms(1,2) sf ok ans], rule that)
  from t(2,3) have "libfs_rename (serve_world junk) old new w = Ret (FAILURE, (asked w t)\<lparr>libfs_errno := FAILURE\<rparr>)"
    by (simp add: libfs_rename_def set_errno_def)
  with t(1) show ?thesis by (auto simp: after_call_def)
qed

theorem rename_taken_end_to_end_witness:
  "\<exists>t. libfs_rename (serve_world (\<lambda>_. 0)) [90] [65] (demo_world one_fs) =
    Ret (FAILURE, (asked (demo_world one_fs) t)\<lparr>libfs_errno := FAILURE\<rparr>)"
  using rename_taken_end_to_end [OF demo_connected [OF one_rel one_fs_ok] _ demo_seqs, of "[90]" "[65]" "\<lambda>_. 0"] one_numbers
  by (auto simp: str_ok_def one_afs_def one_name_def a_start_def blank_disk_def)

text \<open> C37. Unlinking a long name: \<open>libfs_unlink\<close> sends its request in one message whatever the length. With
  a name of 4056 bytes or more, up to the limit of the message queue, the message does not fit the
  buffer of the service, which breaks on it, and the client waits for ever. \<close>

theorem unlink_long_name_hangs:
  assumes "connected k w a" and "seqs_left 1 w" and "4056 \<le> length name" and "length name + 33 \<le> msgmax w"
    and "length name < 4294967287"
  shows "libfs_unlink (serve_world junk) name w = Diverge"
proof -
  let ?args = "put_u32 (cl_uid w) @ put_u32 (cl_gid w) @ put_str name" and ?seq = "next_seq w"
  let ?n = "of_nat (length ?args) :: u32"
  let ?m = "\<lparr>rq_seq = ?seq, rq_type = UNLINK, rq_multipart = 0, rq_data_size = ?n, rq_data_offset = 0,
    rq_part_size = ?n, rq_data = ?args\<rparr>"
  have len: "length ?args = length name + 9" by (simp add: put_str_def)
  have sf: "seq_free w" using seqs_left_Suc(1) [of 0 w] assms(2) by simp
  then have pos: "0 < sint ?seq" using next_seq_pos by (auto simp: seq_free_def)
  obtain rb where rb: "working (peer w)" "worker (peer w) = Idle" "server_buf (peer w) = Some rb" "rb_ok rb" "rb_queue rb = []"
    and w: "mq_ok w" "req_queue w = []" "queue_ok (tables (peer w))"
    using assms(1) by (auto simp: connected_def idle_after_def)
  let ?w2 = "w\<lparr>seq_counter := seq_counter w + 1, req_queue := [?m]\<rparr>"
  let ?s = "to_service ?w2"
  have "service_run junk ?s [Receive, Take, Serve] Undef"
    by (rule serve_oversized [of ?s rb ?m "[]"]) (use rb w assms(3) len in \<open>simp_all add: to_service_def\<close>)
  then have "run_turns junk [Receive, Take, Serve] ?s = None" by (rule run_turns_fails) simp
  then have sw: "serve_world junk ?w2 = ?w2" by (simp add: serve_world_def serve_turns_def)
  have "ask_whole (serve_world junk) UNLINK ?args w = Ret (?seq, ?w2)"
    using w pos len assms(4,5) sw
    by (simp add: ask_whole_def next_seq_def get_seq_def Let_def msgsnd_request_def del: append_assoc)
  moreover have "take_msg ?seq (resp_queue ?w2) = None" using assms(2) by (simp add: seqs_left_def)
  ultimately show ?thesis by (simp add: libfs_unlink_def receive_status_def msgrcv_response_def)
qed

theorem unlink_long_name_hangs_witness:
  "libfs_unlink (serve_world (\<lambda>_. 0)) (replicate 5000 65) (demo_world one_fs) = Diverge"
  by (rule unlink_long_name_hangs [OF demo_connected [OF one_rel one_fs_ok] demo_seqs]) (simp_all add: demo_world_def)

end
