(* ===== verification/Responses.thy ===== *)
theory Responses
  imports Server
begin

text \<open>
  The form of the responses: whatever bytes a request holds and whatever state the tables are in, a
  handler that returns has sent at least one message, and all its messages are well-formed.
\<close>

subsection \<open>Well-formed responses\<close>

definition response_ok :: "response_t \<Rightarrow> bool" where
  "response_ok r \<longleftrightarrow> 0 < sint (rs_seq r) \<and> length (rs_data r) = unat (rs_part_size r) \<and>
     unat (rs_part_size r) \<le> MAX_MSG_DATA_SIZE \<and>
     unat (rs_data_offset r) + unat (rs_part_size r) \<le> unat (rs_data_size r) \<and>
     (rs_multipart r = 0 \<longrightarrow> rs_data_offset r = 0 \<and> rs_part_size r = rs_data_size r)"

text \<open>A handler run that answers the sequence number \<open>q\<close>.\<close>

definition answered :: "u64 \<Rightarrow> server \<Rightarrow> (status \<times> server) outcome \<Rightarrow> bool" where
  "answered q s m \<longleftrightarrow> (\<forall>st s'. m = Ret (st, s') \<longrightarrow>
     (\<exists>rs. sent s' = sent s @ rs \<and> rs \<noteq> [] \<and> (\<forall>r\<in>set rs. rs_seq r = q \<and> response_ok r)))"

lemma answered_bind: "(\<And>x. m = Ret x \<Longrightarrow> answered q s (f x)) \<Longrightarrow> answered q s (obind m f)"
  by (cases m) (auto simp: answered_def)

lemma answered_queue: "answered q s m \<Longrightarrow> answered q s (with_queue s m)"
  by (simp add: answered_def with_queue_def)

lemma answered_stuck [simp]: "answered q s Undef" "answered q s Exit" "answered q s Diverge"
  by (simp_all add: answered_def)

lemma answered_sent: "answered q t m \<Longrightarrow> sent t = sent s \<Longrightarrow> answered q s m"
  by (simp add: answered_def)

lemma msgsnd_Ret: "msgsnd r s = Ret s' \<longleftrightarrow> 0 < sint (rs_seq r) \<and> s' = s\<lparr>sent := sent s @ [r]\<rparr>"
  by (auto simp: msgsnd_def)

fun_cases send_all_ConsE: "send_all (r # rs) s = Ret s'"

lemma send_all_Ret: "send_all rs s = Ret s' \<Longrightarrow> sent s' = sent s @ rs \<and> (\<forall>r\<in>set rs. 0 < sint (rs_seq r))"
  by (induction rs arbitrary: s) (auto simp: obind_Ret_iff msgsnd_Ret elim!: send_all_ConsE)

lemma answered_reply: "sent t = sent s \<Longrightarrow> answered q s (reply q st t)"
  by (auto simp: answered_def reply_def obind_Ret_iff msgsnd_Ret plain_response_def response_ok_def)

lemma answered_msgsnd:
  "rs_seq r = q \<Longrightarrow> (0 < sint q \<Longrightarrow> response_ok r) \<Longrightarrow> sent t = sent s \<Longrightarrow>
   answered q s (obind (msgsnd r t) (\<lambda>s'. Ret (st, s')))"
  by (auto simp: answered_def obind_Ret_iff msgsnd_Ret)

lemma response_parts_ok:
  assumes "length data < 4294967296" "0 < sint q" "r \<in> set (response_parts q st data)"
  shows "response_ok r"
proof -
  let ?n = "of_nat (length data) :: u32"
  have u: "unat ?n = length data" using assms(1) by (rule unat_of_nat_u32)
  from assms(3) obtain j where j: "j < nparts (length data)" and
    r: "r = \<lparr>rs_seq = q, rs_status = st, rs_multipart = multipart_flag ?n, rs_data_size = ?n,
      rs_data_offset = of_nat (j * 4064), rs_part_size = of_nat (min (length data - j * 4064) 4064),
      rs_data = part_bytes data (of_nat (j * 4064), of_nat (min (length data - j * 4064) 4064))\<rparr>"
    by (auto simp: response_parts_def Let_def message_parts_list u)
  have jl: "j * 4064 \<le> length data"
    using nparts_less [OF j] j by (cases "length data = 0") (auto simp: nparts_def)
  have p: "unat (of_nat (min (length data - j * 4064) 4064) :: u32) = min (length data - j * 4064) 4064"
    "unat (of_nat (j * 4064) :: u32) = j * 4064"
    using jl assms(1) by (auto intro!: unat_of_nat_u32 simp del: of_nat_mult)
  have "multipart_flag ?n = 0 \<Longrightarrow> length data \<le> 4064"
    using unat_num_of_parts [of ?n] one_part_iff [of "length data"] nparts_bounds(2) [of "length data"]
    by (auto simp: multipart_flag_def u split: if_splits)
  then have "multipart_flag ?n = 0 \<Longrightarrow> j = 0 \<and> min (length data - j * 4064) 4064 = length data"
    using j one_part_iff [of "length data"] by simp
  then show ?thesis using assms(2) jl p u
    by (auto simp: r response_ok_def part_bytes_def MAX_MSG_DATA_SIZE_def simp del: of_nat_mult)
qed

lemma parts_carry_seq: "r \<in> set (response_parts q st data) \<Longrightarrow> rs_seq r = q"
  by (auto simp: response_parts_def Let_def)

lemma response_parts_some: "response_parts q st data \<noteq> []"
  using nparts_bounds(2) by (simp add: response_parts_def message_parts_list Let_def)

lemma answered_parts:
  assumes "length data < 4294967296" "sent t = sent s"
  shows "answered q s (obind (send_all (response_parts q st data) t) (\<lambda>s'. Ret (st', s')))"
proof -
  have "sent s' = sent s @ response_parts q st data \<and> (\<forall>r\<in>set (response_parts q st data). response_ok r)"
    if "send_all (response_parts q st data) t = Ret s'" for s'
  proof -
    note sd = send_all_Ret [OF that]
    obtain r0 where "r0 \<in> set (response_parts q st data)"
      using response_parts_some [of q st data] by (cases "response_parts q st data") auto
    then have "0 < sint q" using sd by (auto dest: parts_carry_seq)
    with sd assms response_parts_ok show ?thesis by metis
  qed
  then show ?thesis using response_parts_some [of q st data] parts_carry_seq [of _ q st data]
    by (fastforce simp: answered_def obind_Ret_iff)
qed

subsection \<open>The handlers\<close>

lemma length_read_slot: "read_block_table_slot b buf pos off n d = Ret (st, buf') \<Longrightarrow> length buf' = length buf"
  by (auto simp: read_block_table_slot_def libfs_path_def fread_at_def overwrite_def Let_def
      split: if_splits option.splits)

lemma length_read_loop:
  "read_loop read_block_table_slot bl n co off cb buf d = Ret (st, buf', off') \<Longrightarrow> length buf' = length buf"
proof (induction "read_block_table_slot" bl n co off cb buf d rule: read_loop.induct)
  case (1 bl n co off cb buf d)
  define room where "room = 4096 - off mod 4096"
  define m where "m = (if room < n then room else n)"
  define k where "k = (if 4096 < m then 4096 else m)"
  note IH = 1(1) [OF _ room_def m_def k_def _ _ refl]
  show ?case
    using 1(2) unfolding read_loop.simps [of _ _ n] Let_def room_def [symmetric] m_def [symmetric] k_def [symmetric]
    by (auto simp: obind_Ret_iff split: if_splits) (metis IH length_read_slot)+
qed

lemma length_read_inode: "read_inode n buf off sz d = Ret (st, buf', off') \<Longrightarrow> length buf' = length buf"
  by (auto simp: read_inode_def split: if_splits dest: length_read_loop)

lemma length_read_inode_fd: "read_inode_fd hp fd buf sz s = Ret (st, buf', s') \<Longrightarrow> length buf' = length buf"
  by (auto simp: read_inode_fd_def obind_Ret_iff Let_def clock_gettime_def split: option.splits dest!: length_read_inode)

lemma create_answered: "answered (sr_seq req) s (service_create req s)"
  unfolding service_create_def
  by (rule answered_queue) (rule answered_parts answered_bind | clarsimp)+

lemma read_answered: "answered (sr_seq req) s (service_read req s)"
  unfolding service_read_def
  by (rule answered_queue)
    (rule answered_parts answered_bind | clarsimp simp: unat_lt_u32 dest!: length_read_inode_fd
      split del: if_split | simp add: unat_lt_u32)+

lemma length_put_stat [simp]: "length (put_stat t) = 56"
  by (simp add: put_stat_def put_timespec_def)

lemma stat_answered: "answered (sr_seq req) s (service_stat req s)"
  unfolding service_stat_def Let_def
  by (rule answered_queue)
    (rule answered_parts answered_bind conjI impI | clarsimp simp: obind_Ret_iff split: option.splits)+

lemma open_answered: "answered (sr_seq req) s (service_open req s)"
  unfolding service_open_def Let_def
  by (rule answered_queue)
    (rule answered_msgsnd answered_bind conjI impI | clarsimp simp: obind_Ret_iff
      | simp add: plain_response_def response_ok_def MAX_MSG_DATA_SIZE_def)+

lemma rename_answered: "answered (sr_seq req) s (service_rename req s)"
  unfolding service_rename_def
  by (rule answered_queue)
    (rule answered_msgsnd answered_bind conjI impI | clarsimp
      | simp add: plain_response_def response_ok_def)+

lemmas status_handlers = service_chmode_def service_link_def service_symlink_def service_close_def service_write_def
  service_seek_def service_unlink_def

lemma status_answered:
  "answered (sr_seq req) s (service_chmode req s)" "answered (sr_seq req) s (service_link req s)"
  "answered (sr_seq req) s (service_symlink req s)" "answered (sr_seq req) s (service_close req s)"
  "answered (sr_seq req) s (service_write req s)" "answered (sr_seq req) s (service_seek req s)"
  "answered (sr_seq req) s (service_unlink req s)"
  unfolding status_handlers Let_def on_fs_def
  by (rule answered_queue answered_reply answered_bind conjI impI | clarsimp simp: obind_Ret_iff)+

lemma dispatch_answered: "answered (sr_seq req) s (dispatch req s)"
  by (cases "sr_type req") (simp_all add: dispatch_def create_answered read_answered stat_answered open_answered
      rename_answered status_answered)

subsection \<open>Every response is well-formed\<close>

text \<open> C19. Responses: a handler that returns, for any request bytes and any tables, has added at least one
  message to the response queue and removed none; every message carries the sequence number of the
  request, holds as many bytes as it says, at most 4064, lies inside the announced data, and is the
  whole data when it is not marked as a part. \<close>

theorem responses_well_formed:
  assumes "dispatch req s = Ret (st, s')"
  shows "\<exists>rs. sent s' = sent s @ rs \<and> rs \<noteq> [] \<and> (\<forall>r\<in>set rs. rs_seq r = sr_seq req \<and> response_ok r)"
  using dispatch_answered [of req s] assms by (simp add: answered_def)

text \<open>Closing a descriptor that does not exist.\<close>

definition demo_req :: service_req_t where
  "demo_req = \<lparr>sr_seq = 5, sr_type = CLOSE, sr_status = READY, sr_data_size = 12, sr_data_offset = 0,
     sr_data = Some (put_u32 0 @ put_u32 0 @ put_u32 0)\<rparr>"

definition demo_server :: server where
  "demo_server = \<lparr>sv_fs = fs_start ''/r'' noon, sent = [], queue_ok = True, stack_junk = (\<lambda>_. 0), heap_junk = (\<lambda>_. 0)\<rparr>"

lemma demo_close_dispatch:
  "dispatch demo_req demo_server = Ret (FAILURE, demo_server\<lparr>sent := [plain_response 5 FAILURE]\<rparr>)"
  using u32.dec_enc [of 0 "put_u32 0 @ put_u32 0"] u32.dec_enc [of 0 "put_u32 0"] u32.dec_enc [of 0 "[]"]
  by (simp add: dispatch_def demo_req_def demo_server_def service_close_def with_queue_def req_data_def on_fs_def
      close_inode_def remove_descriptor_def fs_start_def empty_table_def reply_def msgsnd_def plain_response_def)

theorem responses_well_formed_witness:
  "\<exists>rs. sent (demo_server\<lparr>sent := [plain_response 5 FAILURE]\<rparr>) = sent demo_server @ rs \<and> rs \<noteq> [] \<and>
    (\<forall>r\<in>set rs. rs_seq r = sr_seq demo_req \<and> response_ok r)"
  by (rule responses_well_formed [OF demo_close_dispatch])

end
