(* ===== verification/Client_Calls.thy ===== *)
theory Client_Calls
  imports Client_Props Responses
begin

text \<open>
  The whole system from the outside: any sequence of calls of \<^verbatim>\<open>lib/libfs.c\<close>, with the service behind the
  queues, gives what the specification says, on every call and every status.
\<close>

subsection \<open>Calls of the library\<close>

datatype lib_call =
    L_Create "byte list" u64
  | L_Rename "byte list" "byte list"
  | L_Chmode "byte list" u64
  | L_Stat "byte list"
  | L_Link "byte list" "byte list"
  | L_Symlink "byte list" "byte list" u64
  | L_Open "byte list" u32
  | L_Close u32
  | L_Write u32 "byte list" u32
  | L_Read u32 "byte list" u32
  | L_Seek u32 u32
  | L_Unlink "byte list"

datatype lib_result =
    R_Number u32
  | R_Int int
  | R_Status status
  | R_Read status "byte list"
  | R_Stat status "byte list option"

text \<open>A call with its result.\<close>

definition as_result :: "('a \<Rightarrow> lib_result) \<Rightarrow> ('a \<times> 'w) outcome \<Rightarrow> (lib_result \<times> 'w) outcome" where
  "as_result f m = obind m (\<lambda>(x, w). Ret (f x, w))"

fun lib :: "('w world \<Rightarrow> 'w world) \<Rightarrow> lib_call \<Rightarrow> 'w world \<Rightarrow> (lib_result \<times> 'w world) outcome" where
  "lib serve (L_Create name md) w = as_result R_Number (libfs_create serve name md w)"
| "lib serve (L_Rename old new) w = as_result R_Status (libfs_rename serve old new w)"
| "lib serve (L_Chmode name md) w = as_result R_Status (libfs_chmode serve name md w)"
| "lib serve (L_Stat name) w = obind (libfs_stat serve name w) (\<lambda>(st, t, w'). Ret (R_Stat st t, w'))"
| "lib serve (L_Link old new) w = as_result R_Status (libfs_link serve old new w)"
| "lib serve (L_Symlink old new md) w = as_result R_Status (libfs_symlink serve old new md w)"
| "lib serve (L_Open name flags) w = as_result R_Number (libfs_open serve name flags w)"
| "lib serve (L_Close fd) w = as_result R_Int (libfs_close serve fd w)"
| "lib serve (L_Write fd buf n) w = as_result R_Int (libfs_write serve fd buf n w)"
| "lib serve (L_Read fd buf n) w = obind (libfs_read serve fd buf n w) (\<lambda>(st, b, w'). Ret (R_Read st b, w'))"
| "lib serve (L_Seek fd off) w = as_result R_Status (libfs_seek serve fd off w)"
| "lib serve (L_Unlink name) w = as_result R_Status (libfs_unlink serve name w)"

subsection \<open>What the specification says\<close>

text \<open>The request of the call, what the caller gets for an answer, and the errors the call tells apart.\<close>

fun lib_request :: "u32 \<Rightarrow> u32 \<Rightarrow> lib_call \<Rightarrow> call" where
  "lib_request uid gid (L_Create name md) = Create uid gid md name"
| "lib_request uid gid (L_Rename old new) = Rename old new"
| "lib_request uid gid (L_Chmode name md) = Chmode uid gid md name"
| "lib_request uid gid (L_Stat name) = Stat uid gid name"
| "lib_request uid gid (L_Link old new) = Link uid gid old new"
| "lib_request uid gid (L_Symlink old new md) = Symlink uid gid md old new"
| "lib_request uid gid (L_Open name flags) = Open uid gid name flags"
| "lib_request uid gid (L_Close fd) = Close uid gid fd"
| "lib_request uid gid (L_Write fd buf n) = Write uid gid fd (take (unat n) buf)"
| "lib_request uid gid (L_Read fd buf n) = Read uid gid fd n"
| "lib_request uid gid (L_Seek fd off) = Seek uid gid fd off"
| "lib_request uid gid (L_Unlink name) = Unlink uid gid name"

fun lib_view :: "lib_call \<Rightarrow> status \<Rightarrow> byte list \<Rightarrow> lib_result" where
  "lib_view (L_Create name md) st p = R_Number (of_nat (le_val (take 4 p)))"
| "lib_view (L_Stat name) st p = R_Stat st (if st = SUCCESS then Some (take 56 p) else None)"
| "lib_view (L_Open name flags) st p = R_Number (if st = SUCCESS then scast (hd p) else -1)"
| "lib_view (L_Close fd) st p = R_Int (if st = SUCCESS then 0 else -1)"
| "lib_view (L_Write fd buf n) st p = R_Int (if st = SUCCESS then 0 else -1)"
| "lib_view (L_Read fd buf n) st p = R_Read st (if st = SUCCESS then overwrite 0 p buf else buf)"
| "lib_view c st p = R_Status st"

fun lib_errors :: "lib_call \<Rightarrow> status list" where
  "lib_errors (L_Create name md) = [FILENAME_TAKEN]"
| "lib_errors (L_Rename old new) = [FILENAME_TAKEN]"
| "lib_errors (L_Link old new) = [FILENAME_TAKEN, FILE_NOT_FOUND]"
| "lib_errors (L_Symlink old new md) = [FILENAME_TAKEN, FILE_NOT_FOUND]"
| "lib_errors (L_Open name flags) = [FILE_NOT_FOUND, INSUFFICIENT_PERMS, DOUBLE_WRITE]"
| "lib_errors c = [FILE_NOT_FOUND]"

text \<open>The buffers of the caller have the size it says; names fit the buffers of the service.\<close>

fun lib_ok :: "lib_call \<Rightarrow> bool" where
  "lib_ok (L_Write fd buf n) = (unat n \<le> length buf \<and> unat n \<le> 4294800000)"
| "lib_ok (L_Read fd buf n) = (unat n \<le> length buf)"
| "lib_ok c = call_ok (lib_request 0 0 c)"

text \<open>
  The state of the specification: the tables, \<open>libfs_errno\<close>, the number of calls the client may still
  make (one slot of the ring and one sequence number each), its identity, and uninitialised memory.
\<close>

record client_spec =
  cs_fs :: afs
  cs_errno :: status
  cs_left :: nat
  cs_uid :: u32
  cs_gid :: u32
  cs_stack :: "nat \<Rightarrow> byte"
  cs_heap :: "nat \<Rightarrow> byte"

definition spec_answer :: "lib_call \<Rightarrow> client_spec \<Rightarrow> (status \<times> byte list \<times> afs) outcome" where
  "spec_answer c S = answer (cs_stack S) (cs_heap S) (lib_request (cs_uid S) (cs_gid S) c) (cs_fs S)"

definition new_errno :: "status list \<Rightarrow> status \<Rightarrow> status \<Rightarrow> status" where
  "new_errno known st e = (if st = SUCCESS then e else if st \<in> set known then st else FAILURE)"

definition spec_lib :: "lib_call \<Rightarrow> client_spec \<Rightarrow> (lib_result \<times> client_spec) outcome" where
  "spec_lib c S = obind (spec_answer c S) (\<lambda>(st, p, a'). Ret (lib_view c st p,
     S\<lparr>cs_fs := a', cs_errno := new_errno (lib_errors c) st (cs_errno S), cs_left := cs_left S - 1\<rparr>))"

text \<open>The calls that are covered: the specification has an answer.\<close>

definition lib_guard :: "lib_call \<Rightarrow> client_spec \<Rightarrow> bool" where
  "lib_guard c S \<longleftrightarrow> 0 < cs_left S \<and> lib_ok c \<and> call_safe (lib_request (cs_uid S) (cs_gid S) c) (cs_fs S) \<and>
     (case spec_answer c S of Ret x \<Rightarrow> True | _ \<Rightarrow> False)"

definition client_rel :: "service world \<Rightarrow> client_spec \<Rightarrow> bool" where
  "client_rel w S \<longleftrightarrow> (\<exists>k. connected k w (cs_fs S) \<and> k + cs_left S \<le> 255) \<and> seqs_left (cs_left S) w \<and>
     libfs_errno w = cs_errno S \<and> cl_uid w = cs_uid S \<and> cl_gid w = cs_gid S \<and>
     stack_junk (tables (peer w)) = cs_stack S \<and> heap_junk (tables (peer w)) = cs_heap S"

subsection \<open>Every call\<close>

lemma set_errno_eq: "set_errno known st w = w\<lparr>libfs_errno := new_errno known st (libfs_errno w)\<rparr>"
  by (cases w) (auto simp: set_errno_def new_errno_def)

lemma length_a_read: "a_read fd buf n a = Ret (st, buf', a') \<Longrightarrow> length buf' = length buf"
  by (auto simp: a_read_def obind_Ret_iff split: option.splits dest!: length_read_inode)

lemma le_val_put_u32 [simp]: "of_nat (le_val (put_u32 v)) = v"
  using u32.dec_exact [of v] by (simp add: get_u32_def)

text \<open>The data of an answer has a form that the library can take.\<close>

fun data_ok :: "lib_call \<Rightarrow> status \<Rightarrow> byte list \<Rightarrow> bool" where
  "data_ok (L_Create name md) st p = (length p = 4)"
| "data_ok (L_Stat name) st p = (length p \<le> 56 \<and> (st = SUCCESS \<longrightarrow> length p = 56))"
| "data_ok (L_Open name flags) st p = (length p = 4)"
| "data_ok (L_Read fd buf n) st p = (length p \<le> length buf \<and> length p < 4294967296)"
| "data_ok c st p = (p = [])"

lemma length_put_u32 [simp]: "length (put_u32 v) = 4"
  by (simp add: put_u32_def)

lemma answer_data_ok:
  assumes "answer stack heap (lib_request uid gid c) a = Ret (st, p, a')" "lib_ok c"
  shows "data_ok c st p"
proof (cases c)
  case (L_Read fd buf n)
  with assms show ?thesis
    by (auto simp: obind_Ret_iff unat_lt_u32 split: if_splits dest!: length_a_read)
next
  case (L_Stat name)
  then show ?thesis using assms
    by (auto simp: checked_def obind_Ret_iff a_stat_def Let_def split: if_splits option.splits)
qed (use assms in \<open>auto simp: checked_def no_data_def obind_Ret_iff split: if_splits\<close>)

lemma lib_ok_call_ok: "lib_ok c \<Longrightarrow> call_ok (lib_request uid gid c)"
  by (cases c) auto

lemma data_ok_length: "data_ok c st p \<Longrightarrow> length p \<le> 4294967295"
  by (cases c) auto

text \<open>What the response is read with: the status alone, or the data too.\<close>

lemma take_all' [simp]: "length xs = n \<Longrightarrow> take n xs = xs"
  by simp

lemma lib_call_answered:
  assumes "connected k w a" "k < 255" "seq_free w" "lib_ok c" "call_safe (lib_request (cl_uid w) (cl_gid w) c) a"
    and "answer (stack_junk (tables (peer w))) (heap_junk (tables (peer w))) (lib_request (cl_uid w) (cl_gid w) c) a = Ret (st, p, a')"
  obtains t where "after_call k w a' t"
    "lib (serve_world junk) c w = Ret (lib_view c st p, set_errno (lib_errors c) st (asked w t))"
proof -
  let ?c = "lib_request (cl_uid w) (cl_gid w) c"
  have d: "data_ok c st p" by (rule answer_data_ok [OF assms(6,4)])
  note ok = lib_ok_call_ok [OF assms(4)]
  have r: "\<exists>t w'. after_call k w a' t \<and> ask (serve_world junk) (call_type ?c) (call_args ?c) w = Ret (next_seq w, w') \<and>
      receive_response lim (next_seq w) w' = Ret (st, p, asked w t)" if "4088 \<le> lim" for lim
    by (rule ask_receive [OF assms(1-3) ok assms(5,6) data_ok_length [OF d] that]) blast
  have s: "\<exists>t w'. after_call k w a' t \<and> ask (serve_world junk) (call_type ?c) (call_args ?c) w = Ret (next_seq w, w') \<and>
      receive_status (next_seq w) w' = Ret (st, asked w t) \<and> (\<forall>b. receive_short b (next_seq w) w' = Ret (st, asked w t))" if "p = []"
    by (rule ask_status [OF assms(1-3) ok assms(5) assms(6) [unfolded that]]) blast
  show thesis
  proof (cases c)
    case (L_Create name md)
    with r [of 4096] d show thesis by (auto simp: libfs_create_def as_result_def intro: that)
  next
    case (L_Rename old new)
    with s d show thesis by (auto simp: libfs_rename_def as_result_def intro: that)
  next
    case (L_Chmode name md)
    with s d show thesis by (auto simp: libfs_chmode_def as_result_def intro: that)
  next
    case (L_Stat name)
    with r [of 4096] d show thesis by (auto simp: libfs_stat_def set_errno_def intro: that split: if_splits)
  next
    case (L_Link old new)
    with r [of 4096] d show thesis by (auto simp: libfs_link_def as_result_def intro: that)
  next
    case (L_Symlink old new md)
    with r [of 4096] d show thesis by (auto simp: libfs_symlink_def as_result_def intro: that)
  next
    case (L_Open name flags)
    with d have "p \<noteq> []" by auto
    with L_Open r [of 4096] show thesis
      by (cases p) (auto simp: libfs_open_def as_result_def set_errno_def intro: that split: if_splits)
  next
    case (L_Close fd)
    with r [of 4096] d show thesis by (auto simp: libfs_close_def as_result_def intro: that)
  next
    case (L_Write fd buf n)
    with assms(4) have "unat n \<le> length buf" "length (take (unat n) buf) = unat n" by simp_all
    with L_Write s d show thesis by (auto simp: libfs_write_def as_result_def simp del: length_take intro: that)
  next
    case (L_Read fd buf n)
    with r [of 4088] d show thesis by (auto simp: libfs_read_def set_errno_def intro: that split: if_splits)
  next
    case (L_Seek fd off)
    with s d show thesis by (auto simp: libfs_seek_def ask_whole_ask as_result_def intro: that)
  next
    case (L_Unlink name)
    with s d assms(4) show thesis by (auto simp: libfs_unlink_def ask_whole_ask as_result_def str_ok_def put_str_def intro: that)
  qed
qed

subsection \<open>Sequences of calls\<close>

definition client_inv :: "client_spec \<Rightarrow> bool" where
  "client_inv S \<longleftrightarrow> fs_ok (cs_fs S)"

lemma connected_errno [simp]: "connected k (w\<lparr>libfs_errno := e\<rparr>) a = connected k w a"
  "seqs_left n (w\<lparr>libfs_errno := e\<rparr>) = seqs_left n w"
  by (simp_all add: connected_def seqs_left_def)

lemma lib_simulates:
  assumes "client_rel w S" "lib_guard c S"
  shows "\<exists>r w' S'. lib (serve_world junk) c w = Ret (r, w') \<and> spec_lib c S = Ret (r, S') \<and> client_rel w' S'"
proof -
  obtain k where k: "connected k w (cs_fs S)" "k + cs_left S \<le> 255" and sl: "seqs_left (cs_left S) w"
    and eq: "libfs_errno w = cs_errno S" "cl_uid w = cs_uid S" "cl_gid w = cs_gid S"
      "stack_junk (tables (peer w)) = cs_stack S" "heap_junk (tables (peer w)) = cs_heap S"
    using assms(1) by (auto simp: client_rel_def)
  obtain left where left: "cs_left S = Suc left" using assms(2) by (cases "cs_left S") (auto simp: lib_guard_def)
  have g: "lib_ok c" "call_safe (lib_request (cl_uid w) (cl_gid w) c) (cs_fs S)"
    using assms(2) eq by (simp_all add: lib_guard_def)
  obtain st p a' where ans: "spec_answer c S = Ret (st, p, a')"
    using assms(2) by (cases "spec_answer c S") (auto simp: lib_guard_def)
  have kk: "k < 255" using k(2) left by simp
  have sf: "seq_free w" by (rule seqs_left_Suc(1) [OF sl [unfolded left]])
  from ans eq have an: "answer (stack_junk (tables (peer w))) (heap_junk (tables (peer w)))
      (lib_request (cl_uid w) (cl_gid w) c) (cs_fs S) = Ret (st, p, a')" by (simp add: spec_answer_def)
  obtain t where t: "after_call k w a' t"
    "lib (serve_world junk) c w = Ret (lib_view c st p, set_errno (lib_errors c) st (asked w t))"
    by (rule lib_call_answered [OF k(1) kk sf g an])
  let ?S = "S\<lparr>cs_fs := a', cs_errno := new_errno (lib_errors c) st (cs_errno S), cs_left := left\<rparr>"
  have "connected (Suc k) (asked w t) a'" "seqs_left left (asked w t)"
    using t(1) seqs_left_Suc(2) [OF sl [unfolded left]] by (simp_all add: after_call_def)
  moreover have "libfs_errno (asked w t) = libfs_errno w" by (simp add: asked_def)
  ultimately have "client_rel (set_errno (lib_errors c) st (asked w t)) ?S"
    unfolding client_rel_def using k(2) left eq t(1)
    by (intro conjI exI [of _ "Suc k"]) (simp_all add: set_errno_eq after_call_def)
  moreover have "spec_lib c S = Ret (lib_view c st p, ?S)" using ans left by (simp add: spec_lib_def)
  ultimately show ?thesis using t(2) by blast
qed

interpretation clients: machine_refinement spec_lib lib_guard client_inv "lib (serve_world junk)" client_rel for junk
proof
  fix S c r S' assume "client_inv S" "lib_guard c S" "spec_lib c S = Ret (r, S')"
  then show "client_inv S'"
    by (auto simp: client_inv_def lib_guard_def spec_lib_def spec_answer_def obind_Ret_iff intro: answer_ok)
next
  fix w S c assume "client_rel w S" "lib_guard c S"
  from lib_simulates [OF this, of junk] show "rel_outcome (rel_prod (=) client_rel) (lib (serve_world junk) c w) (spec_lib c S)"
    by auto
qed

text \<open>A guarded run has a result.\<close>

lemma guarded_runs: "guarded spec_lib lib_guard cs S \<Longrightarrow> \<exists>rs S'. run_ops spec_lib cs S = Ret (rs, S')"
proof (induction cs arbitrary: S)
  case (Cons c cs)
  then obtain x where "spec_answer c S = Ret x" by (auto simp: lib_guard_def split: outcome.splits)
  then obtain r T where "spec_lib c S = Ret (r, T)" by (cases x) (simp add: spec_lib_def)
  with Cons show ?case by fastforce
qed simp

text \<open> C1. The whole system implements its specification: any sequence of calls of the library by a client, of any of the
  twelve kinds, through messages, ring buffer, threads, handlers, pointer tables and the data file, gives the results
  (return values, buffers, \<^verbatim>\<open>libfs_errno\<close>) the specification gives, one call after the other, as long as
  the guards hold: the specification has an answer, names and buffers have the sizes the caller says, no first cell of a
  list is freed, and at most 255 calls are made in the life of the service. \<close>

theorem client_implements_spec:
  assumes "client_rel w S" and "fs_ok (cs_fs S)" and "guarded spec_lib lib_guard cs S"
  shows "\<exists>rs w' S'. run_ops (lib (serve_world junk)) cs w = Ret (rs, w') \<and> run_ops spec_lib cs S = Ret (rs, S') \<and>
    client_rel w' S' \<and> fs_ok (cs_fs S')"
proof -
  have inv: "client_inv S" using assms(2) by (simp add: client_inv_def)
  obtain rs S' where S': "run_ops spec_lib cs S = Ret (rs, S')" using guarded_runs [OF assms(3)] by blast
  moreover from clients.run_refines [OF assms(1) inv assms(3), of junk] S' obtain w' where
    "run_ops (lib (serve_world junk)) cs w = Ret (rs, w')" "client_rel w' S'"
    by (cases "run_ops (lib (serve_world junk)) cs w") auto
  moreover have "client_inv S'" by (rule clients.run_inv [OF inv assms(3) S'])
  ultimately show ?thesis by (auto simp: client_inv_def)
qed

text \<open>A client that has made no call yet, of a service with the file "A".\<close>

definition demo_spec :: "afs \<Rightarrow> client_spec" where
  "demo_spec a = \<lparr>cs_fs = a, cs_errno = SUCCESS, cs_left = 100, cs_uid = 0, cs_gid = 0, cs_stack = \<lambda>_. 0, cs_heap = \<lambda>_. 0\<rparr>"

lemma demo_client_rel: "fs_rel f a \<Longrightarrow> fs_ok a \<Longrightarrow> client_rel (demo_world f) (demo_spec a)"
  using demo_connected [of f a] demo_seqs [of 100 f]
  by (auto simp: client_rel_def demo_spec_def intro!: exI [of _ 0])
    (simp_all add: demo_world_def service_start_def one_server_def)

definition demo_calls :: "lib_call list" where
  "demo_calls = [L_Create [66] 420, L_Create [66] 420, L_Link [66] [67], L_Rename [67] [65], L_Chmode [67] 384]"

theorem client_implements_spec_witness:
  "\<exists>w'. run_ops (lib (serve_world (\<lambda>_. 0))) demo_calls (demo_world one_fs) =
      Ret ([R_Number 1, R_Number 0, R_Status SUCCESS, R_Status FAILURE, R_Status SUCCESS], w') \<and> libfs_errno w' = FAILURE"
proof -
  note defs = demo_calls_def demo_spec_def one_afs_def a_start_def one_name_def blank_inode_def new_inode_def
    lib_guard_def spec_answer_def spec_lib_def str_ok_def numbers_left_def a_create_def Let_def next_index_def a_defs
    a_check_def read_check_def write_check_def read_refused_def write_refused_def a_link_def checked_def no_data_def
    a_rename_def a_chmod_def target_def lookup_name_def new_errno_def blank_disk_def set_atim_def set_ctim_def
  have g: "guarded spec_lib lib_guard demo_calls (demo_spec one_afs)"
    by (simp add: defs)
  have "\<exists>S'. run_ops spec_lib demo_calls (demo_spec one_afs) =
      Ret ([R_Number 1, R_Number 0, R_Status SUCCESS, R_Status FAILURE, R_Status SUCCESS], S') \<and> cs_errno S' = FAILURE"
    by (simp add: defs)
  with client_implements_spec [OF demo_client_rel [OF one_rel one_fs_ok] _ g, of "\<lambda>_. 0"] one_fs_ok show ?thesis
    by (auto simp: client_rel_def demo_spec_def)
qed

end
