(* ===== verification/Programs.thy ===== *)
theory Programs
  imports Client_Calls
begin

text \<open>
  Programs that use the library: \<^verbatim>\<open>lib/presentation.c\<close> and \<^verbatim>\<open>lib/presentation_from_backup.c\<close>, as trees of library
  calls. The same program runs on the library with the service behind it and on the specification.
\<close>

subsection \<open>Programs over library calls\<close>

text \<open>\<open>Stuck\<close> is undefined behaviour of the program itself.\<close>

datatype 'a prog = Return 'a | Stuck | Call lib_call "lib_result \<Rightarrow> 'a prog"

primrec run :: "(lib_call \<Rightarrow> 's \<Rightarrow> (lib_result \<times> 's) outcome) \<Rightarrow> 'a prog \<Rightarrow> 's \<Rightarrow> ('a \<times> 's) outcome" where
  "run exec (Return x) s = Ret (x, s)"
| "run exec Stuck s = Undef"
| "run exec (Call c f) s = obind (exec c s) (\<lambda>(r, s'). run exec (f r) s')"

text \<open>The results of the calls, each of its own kind.\<close>

fun number :: "lib_result \<Rightarrow> u32" where
  "number (R_Number n) = n"
| "number _ = 0"

fun read_bytes :: "lib_result \<Rightarrow> byte list" where
  "read_bytes (R_Read st buf) = buf"
| "read_bytes _ = []"

definition c_bytes :: "string \<Rightarrow> byte list" where
  "c_bytes s = map of_char s"

subsection \<open>The programs\<close>

text \<open>
  What a run leaves: the value of \<^verbatim>\<open>main\<close>, the content of \<^verbatim>\<open>lib/received_file.txt\<close> if it was written, whether
  the line on the writer lock was printed, and the text of the last line.
\<close>

record demo_result =
  returned :: int
  received :: "byte list option"
  lock_works :: bool
  seek_text :: "byte list"

definition history :: "byte list" where "history = c_bytes ''history_text.txt''"
definition hardlink :: "byte list" where "hardlink = c_bytes ''hardlink_history_text.txt''"
definition symlink :: "byte list" where "symlink = c_bytes ''symlink_history_text.txt''"
definition changed :: "byte list" where "changed = c_bytes ''changed_name.txt''"
definition corrupted :: "byte list" where "corrupted = c_bytes ''corrupted_file.txt''"

text \<open>
  \<open>send_file\<close> is the content of \<^verbatim>\<open>lib/send_file.txt\<close>, \<open>can_write\<close> tells that \<^verbatim>\<open>lib/received_file.txt\<close> can be
  opened; the streams are used without a test. An array needs at least one element.
\<close>

definition presentation :: "byte list option \<Rightarrow> bool \<Rightarrow> demo_result prog" where
  "presentation send_file can_write = (case send_file of None \<Rightarrow> Stuck | Some send_buffer \<Rightarrow>
     if send_buffer = [] then Stuck
     else let send_file_size = of_nat (length send_buffer); read_buf = replicate (length send_buffer) 0 in
     Call (L_Create history 128) (\<lambda>_.
     Call (L_Open history WRITE_ONLY) (\<lambda>r. let write_fd = number r in
     if write_fd = -1 then Return \<lparr>returned = -1, received = None, lock_works = False, seek_text = []\<rparr>
     else
     Call (L_Write write_fd send_buffer send_file_size) (\<lambda>_.
     Call (L_Create history 511) (\<lambda>_.
     Call (L_Open history WRITE_ONLY) (\<lambda>r. let second_writer_fd = number r in
     (\<lambda>rest. if second_writer_fd = -1 then rest True else Call (L_Close second_writer_fd) (\<lambda>_. rest False)) (\<lambda>lck.
     Call (L_Close write_fd) (\<lambda>_.
     Call (L_Open history READ_ONLY) (\<lambda>r.
     (\<lambda>rest. if number r = -1 then Call (L_Chmode history 432) (\<lambda>_. rest) else rest) (
     Call (L_Link history hardlink) (\<lambda>_.
     Call (L_Symlink hardlink symlink 256) (\<lambda>_.
     Call (L_Open symlink READ_ONLY) (\<lambda>r. let read_fd = number r in
     if read_fd = -1 then Return \<lparr>returned = -1, received = None, lock_works = lck, seek_text = []\<rparr>
     else
     Call (L_Read read_fd read_buf send_file_size) (\<lambda>r. let read_buf = read_bytes r in
     Call (L_Close read_fd) (\<lambda>_.
     if \<not> can_write then Stuck
     else
     Call (L_Stat history) (\<lambda>_.
     Call (L_Stat symlink) (\<lambda>_.
     Call (L_Open hardlink READ_ONLY) (\<lambda>r. let seek_fd = number r in
     Call (L_Seek seek_fd 10) (\<lambda>_.
     Call (L_Read seek_fd (replicate 11 0) 10) (\<lambda>r. let seek_buf = read_bytes r in
     Call (L_Close seek_fd) (\<lambda>_.
     Return \<lparr>returned = 0, received = Some read_buf, lock_works = lck,
       seek_text = takeWhile (\<lambda>b. b \<noteq> 0) seek_buf\<rparr>)))))))))))))))))))))"

definition presentation_from_backup :: "byte list option \<Rightarrow> bool \<Rightarrow> demo_result prog" where
  "presentation_from_backup send_file can_write = (case send_file of None \<Rightarrow> Stuck | Some send_buffer \<Rightarrow>
     if send_buffer = [] then Stuck
     else let send_file_size = of_nat (length send_buffer); read_buf = replicate (length send_buffer) 0 in
     Call (L_Rename history changed) (\<lambda>_.
     Call (L_Open changed READ_ONLY) (\<lambda>r. let read_fd = number r in
     if read_fd = -1 then Return \<lparr>returned = 0, received = None, lock_works = False, seek_text = []\<rparr>
     else
     Call (L_Read read_fd read_buf send_file_size) (\<lambda>r. let read_buf = read_bytes r in
     Call (L_Close read_fd) (\<lambda>_.
     if \<not> can_write then Stuck
     else
     Call (L_Unlink hardlink) (\<lambda>_.
     Call (L_Unlink symlink) (\<lambda>_.
     Call (L_Unlink corrupted) (\<lambda>_.
     Return \<lparr>returned = 0, received = Some read_buf, lock_works = False, seek_text = []\<rparr>))))))))"

subsection \<open>Running a program on the specification\<close>

text \<open>Every call is covered by the specification, and the end satisfies \<open>Q\<close>.\<close>

primrec goes :: "'a prog \<Rightarrow> client_spec \<Rightarrow> ('a \<Rightarrow> client_spec \<Rightarrow> bool) \<Rightarrow> bool" where
  "goes (Return x) S Q = Q x S"
| "goes Stuck S Q = False"
| "goes (Call c f) S Q = (lib_guard c S \<and> (case spec_lib c S of Ret (r, S') \<Rightarrow> goes (f r) S' Q | _ \<Rightarrow> False))"

text \<open>Then it does on the library, with the same end.\<close>

lemma goes_lib:
  assumes "goes p S Q" "client_rel w S" "client_inv S"
  shows "\<exists>x w' S'. run (lib (serve_world junk)) p w = Ret (x, w') \<and> client_rel w' S' \<and> client_inv S' \<and> Q x S'"
  using assms
proof (induction p arbitrary: S w)
  case (Call c f)
  from Call.prems have g: "lib_guard c S" by simp
  from lib_simulates [OF Call.prems(2) g, of junk] obtain r w1 S1 where
    s: "lib (serve_world junk) c w = Ret (r, w1)" "spec_lib c S = Ret (r, S1)" "client_rel w1 S1" by blast
  have "client_inv S1" by (rule clients.step_inv [OF Call.prems(3) g s(2)])
  with Call.IH [of "f r" S1 w1] Call.prems(1) s show ?case by auto
qed auto

end
