(* ===== verification/Program_View.thy ===== *)
theory Program_View
  imports Programs
begin

text \<open>
  What a program sees of the service: names, files without their times, open descriptors, the disk. One rule per
  library call says how it changes the view; with them a program is run by rewriting.
\<close>

subsection \<open>The view\<close>

record file_info =
  fi_no :: u32
  fi_owner :: u32
  fi_group :: u32
  fi_mode :: u64
  fi_refs :: u32
  fi_size :: u64
  fi_blocks :: "u32 list"

definition info :: "inode_t \<Rightarrow> file_info" where
  "info n = \<lparr>fi_no = index n, fi_owner = owner n, fi_group = owner_group n, fi_mode = mode n, fi_refs = ref_count n,
     fi_size = st_size (stat n), fi_blocks = data_blocks n\<rparr>"

record view =
  v_names :: "(byte list \<times> u32) list"
  v_files :: "file_info list"
  v_descs :: "descriptor_t list"
  v_disk :: disk

definition view_of :: "afs \<Rightarrow> view" where
  "view_of a = \<lparr>v_names = map (\<lambda>e. (filename e, node_index e)) (a_names a), v_files = map info (a_inodes a),
     v_descs = a_descs a, v_disk = a_disk a\<rparr>"

abbreviation file_no :: "view \<Rightarrow> u32 \<Rightarrow> file_info option" where
  "file_no V i \<equiv> find (\<lambda>x. fi_no x = i) (v_files V)"

definition set_file :: "u32 \<Rightarrow> (file_info \<Rightarrow> file_info) \<Rightarrow> view \<Rightarrow> view" where
  "set_file i g V = V\<lparr>v_files := upd_first (\<lambda>x. fi_no x = i) g (v_files V)\<rparr>"

lemma info_simps [simp]: "fi_no (info n) = index n" "fi_owner (info n) = owner n" "fi_group (info n) = owner_group n"
  "fi_mode (info n) = mode n" "fi_refs (info n) = ref_count n" "fi_size (info n) = st_size (stat n)"
  "fi_blocks (info n) = data_blocks n"
  by (simp_all add: info_def)

lemma info_stamp [simp]: "info (set_atim t n) = info n" "info (set_mtim t n) = info n" "info (set_ctim t n) = info n"
  by (simp_all add: info_def set_atim_def set_mtim_def set_ctim_def)

lemma view_of_simps [simp]: "v_descs (view_of a) = a_descs a" "v_disk (view_of a) = a_disk a"
  "v_names (view_of (a_tick a)) = v_names (view_of a)" "v_files (view_of (a_tick a)) = v_files (view_of a)"
  "view_of (a_tick a) = view_of a"
  by (simp_all add: view_of_def a_tick_def)

lemma view_name_in: "name_in (a_names a) name \<longleftrightarrow> name \<in> fst ` set (v_names (view_of a))"
  by (force simp: view_of_def)

lemma lookup_map_of: "lookup_name xs name = map_of (map (\<lambda>e. (filename e, node_index e)) xs) name"
  by (induction xs) (auto simp: lookup_name_def)

lemma view_lookup: "lookup_name (a_names a) name = map_of (v_names (view_of a)) name"
  by (simp add: view_of_def lookup_map_of)

lemma find_info: "find (\<lambda>x. fi_no x = i) (map info xs) = map_option info (find (\<lambda>n. index n = i) xs)"
  by (induction xs) auto

lemma view_file: "file_no (view_of a) i = map_option info (inode_no a i)"
  by (simp add: view_of_def find_info)

lemma upd_info: "(\<And>n. index n = i \<Longrightarrow> info (f n) = g (info n)) \<Longrightarrow>
  map info (upd_first (\<lambda>n. index n = i) f xs) = upd_first (\<lambda>x. fi_no x = i) g (map info xs)"
  by (induction xs) auto

lemma view_upd: "(\<And>n. index n = i \<Longrightarrow> info (f n) = g (info n)) \<Longrightarrow> view_of (a_upd_inode i f a) = set_file i g (view_of a)"
  by (simp add: view_of_def a_upd_inode_def set_file_def upd_info)

lemma set_file_id: "set_file i (\<lambda>x. x) V = V"
proof -
  have "upd_first P (\<lambda>x. x) xs = xs" for P and xs :: "file_info list" by (induction xs) auto
  then show ?thesis by (simp add: set_file_def)
qed

lemma view_stamp [simp]: "view_of (a_upd_inode i (set_atim t) a) = view_of a"
  using view_upd [of i "set_atim t" "\<lambda>x. x" a] by (simp add: set_file_id)

lemma view_upd_desc [simp]: "view_of (a_upd_desc fd f a) = (view_of a)\<lparr>v_descs := upd_first (\<lambda>d. desc d = fd) f (a_descs a)\<rparr>"
  by (simp add: view_of_def a_upd_desc_def)

lemma a_descs_upd [simp]: "a_descs (a_upd_inode i f a) = a_descs a" "a_disk (a_upd_inode i f a) = a_disk a"
  by (simp_all add: a_upd_inode_def)

text \<open>Numbers are left.\<close>

definition view_room :: "view \<Rightarrow> bool" where
  "view_room V \<longleftrightarrow> (v_files V = [] \<or> fi_no (last (v_files V)) \<noteq> -1) \<and> (v_descs V = [] \<or> desc (last (v_descs V)) \<noteq> -1) \<and>
     length (v_names V) < 4294967295"

lemma numbers_left_view: "numbers_left a = view_room (view_of a)"
  by (auto simp: numbers_left_def view_room_def view_of_def last_map)

definition next_no :: "view \<Rightarrow> u32" where
  "next_no V = (if v_files V = [] then 0 else fi_no (last (v_files V)) + 1)"

lemma next_index_view: "next_index (a_inodes a) = next_no (view_of a)"
  by (simp add: next_index_def next_no_def view_of_def last_map)

subsection \<open>Permissions\<close>

definition may_read :: "u32 \<Rightarrow> u32 \<Rightarrow> file_info \<Rightarrow> bool" where
  "may_read uid gid x \<longleftrightarrow> \<not> read_refused uid gid (fi_owner x) (fi_group x) (fi_mode x)"

definition may_write :: "u32 \<Rightarrow> u32 \<Rightarrow> file_info \<Rightarrow> bool" where
  "may_write uid gid x \<longleftrightarrow> \<not> write_refused uid gid (fi_owner x) (fi_group x) (fi_mode x)"

text \<open>The named file.\<close>

definition named :: "view \<Rightarrow> byte list \<Rightarrow> file_info option" where
  "named V name = Option.bind (map_of (v_names V) name) (file_no V)"

lemma named_inode:
  assumes "named (view_of a) name = Some x"
  obtains i n where "lookup_name (a_names a) name = Some i" "target a name = i" "inode_no a i = Some n" "info n = x"
    "map_of (v_names (view_of a)) name = Some i" "fi_no x = i"
proof -
  obtain i n where i: "map_of (v_names (view_of a)) name = Some i" "inode_no a i = Some n" "info n = x"
    using assms by (auto simp: named_def view_file split: Option.bind_splits)
  then have "index n = i" by (auto simp: find_Some_iff)
  with i show thesis by (intro that [of i n]) (auto simp: view_lookup target_def)
qed

lemma check_named:
  assumes "named (view_of a) name = Some x"
  shows "a_check chk name a = chk (fi_owner x) (fi_group x) (fi_mode x) SUCCESS"
proof (rule named_inode [OF assms])
  fix i n assume "target a name = i" "inode_no a i = Some n" "info n = x"
  then show ?thesis by (auto simp: a_check_def)
qed

subsection \<open>Contents\<close>

text \<open>The file \<open>x\<close> has the content \<open>c\<close>, on a disk with \<open>k\<close> blocks in use.\<close>

definition holds :: "disk \<Rightarrow> nat \<Rightarrow> file_info \<Rightarrow> byte list \<Rightarrow> bool" where
  "holds d k x c \<longleftrightarrow> blocks_ok (fi_blocks x) k \<and> length c \<le> 409600 \<and> fi_size x = of_nat (length c) \<and>
     (\<forall>p<length c. mapped (fi_blocks x) p \<and> file_byte d (fi_blocks x) p = c ! p)"

lemma size_u32: "length c \<le> 409600 \<Longrightarrow> unat (of_nat (length c) :: u32) = length c"
  by (intro unat_of_nat_u32) simp

lemma size_u64: "length c \<le> 409600 \<Longrightarrow> unat (of_nat (length c) :: u64) = length c"
  by (simp add: unat_of_nat take_bit_nat_eq_self)

lemma read_holds:
  assumes "disk_ok d k" "holds d k (info n) c" "unat off + unat sz \<le> length c" "unat sz \<le> length buf"
  shows "read_inode n buf off sz d = Ret (SUCCESS, overwrite 0 (take (unat sz) (drop (unat off) c)) buf, off + sz)"
proof -
  have "map (file_byte d (data_blocks n)) [unat off..<unat off + unat sz] = take (unat sz) (drop (unat off) c)"
    using assms(2,3) by (intro nth_equalityI) (auto simp: holds_def)
  with read_inode_ok [of d k n off sz buf] assms show ?thesis by (auto simp: holds_def)
qed

lemma fresh_write:
  assumes "disk_ok d k" "k + 100 \<le> NUM_OF_DATA_BLOCKS" "data_blocks n = no_blocks" "length c \<le> 409600"
  obtains bl d' k' where "write_inode n c 0 (of_nat (length c)) d = Ret (SUCCESS,
      n\<lparr>data_blocks := bl, stat := (stat n)\<lparr>st_size := of_nat (length c)\<rparr>\<rparr>, of_nat (length c), d')"
    "disk_ok d' k'" "k' \<le> k + 100" "holds d' k' ((info n)\<lparr>fi_size := of_nat (length c), fi_blocks := bl\<rparr>) c"
    "\<And>y e. holds d k y e \<Longrightarrow> holds d' k' y e"
proof -
  let ?sz = "of_nat (length c) :: u32"
  have u: "unat ?sz = length c" by (rule size_u32 [OF assms(4)])
  have nb: "nblocks (length c) \<le> 100" using assms(4) by (simp add: nblocks_le)
  have f0: "first_fresh no_blocks 0 = 0" by (simp add: first_fresh_def no_blocks_def)
  have w: "writable n 0 ?sz k" using assms(2-4) u nb by (simp add: writable_def f0)
  have bo: "blocks_ok (data_blocks n) k" using assms(3) blocks_ok_no_blocks by simp
  have sz: "unat ?sz \<le> length c" using u by simp
  have uc: "ucast ?sz = (of_nat (length c) :: u64)"
    by (rule word_unat_eq_iff [THEN iffD2]) (use u size_u64 [OF assms(4)] unat_lt_u32 [of ?sz] in \<open>simp add: unsigned_ucast_eq take_bit_nat_eq_self\<close>)
  show thesis
  proof (rule write_inode_ok [OF assms(1) bo w sz])
    fix bl d'
    let ?k = "k + (nblocks (unat (0 :: u32) + unat ?sz) - first_fresh (data_blocks n) (unat (0 :: u32)))"
    assume W: "write_inode n c 0 ?sz d = Ret (SUCCESS,
        n\<lparr>data_blocks := bl, stat := (stat n)\<lparr>st_size := ucast (0 + ?sz)\<rparr>\<rparr>, 0 + ?sz, d')"
      and D: "disk_ok d' ?k" "blocks_ok bl ?k"
      and B1: "\<And>i. i < first_fresh (data_blocks n) (unat (0 :: u32)) \<or> nblocks (unat (0 :: u32) + unat ?sz) \<le> i \<Longrightarrow> bl ! i = data_blocks n ! i"
      and B2: "\<And>i. first_fresh (data_blocks n) (unat (0 :: u32)) \<le> i \<Longrightarrow> i < nblocks (unat (0 :: u32) + unat ?sz) \<Longrightarrow> k < unat (bl ! i)"
      and F: "\<And>b. b < k \<Longrightarrow> \<not> mapped (data_blocks n) (unat (0 :: u32)) \<or>
          b \<noteq> unat (data_blocks n ! (unat (0 :: u32) div DATA_BLOCK_ALLOC_SIZE)) - 1 \<Longrightarrow> block_at d' b = block_at d b"
      and N: "\<And>p. unat (0 :: u32) \<le> p \<Longrightarrow> p < unat (0 :: u32) + unat ?sz \<Longrightarrow> file_byte d' bl p = c ! (p - unat (0 :: u32))"
    have k: "?k = k + nblocks (length c)" using u assms(3) f0 by simp
    have m: "mapped bl p" if "p < length c" for p
    proof -
      have "p div DATA_BLOCK_ALLOC_SIZE < nblocks (length c)"
        using that nblocks_bounds(1) [of "length c"] by (simp add: div_less_iff_less_mult)
      then have "k < unat (bl ! (p div DATA_BLOCK_ALLOC_SIZE))" "p div DATA_BLOCK_ALLOC_SIZE < FILE_MAX_BLOCKS"
        using B2 [of "p div DATA_BLOCK_ALLOC_SIZE"] u assms(3) f0 nb by simp_all
      then show ?thesis by (auto simp: mapped_def)
    qed
    have old: "block_at d' b = block_at d b" if "b < k" for b
      using F [OF that] assms(3) by (simp add: mapped_def no_blocks_def)
    have "holds d' (k + nblocks (length c)) y e" if y: "holds d k y e" for y e
    proof -
      have "file_byte d' (fi_blocks y) p = file_byte d (fi_blocks y) p" if "p < length e" for p
        using mapped_slot [of "fi_blocks y" p k] old y that by (simp add: holds_def byte_at_def)
      then show ?thesis using y by (auto simp: holds_def blocks_ok_def intro: order_trans)
    qed
    moreover have "holds d' (k + nblocks (length c)) ((info n)\<lparr>fi_size := of_nat (length c), fi_blocks := bl\<rparr>) c"
      using D(2) k m N u assms(4) by (simp add: holds_def)
    ultimately show thesis using W D(1) k nb uc by (intro that [of bl d' "k + nblocks (length c)"]) simp_all
  qed
qed

subsection \<open>What a call does to the view\<close>

text \<open>On tables with the view \<open>V\<close> the answer to the call gives a result and a view with \<open>R\<close>.\<close>

definition steps :: "u32 \<Rightarrow> u32 \<Rightarrow> lib_call \<Rightarrow> view \<Rightarrow> (lib_result \<Rightarrow> view \<Rightarrow> bool) \<Rightarrow> bool" where
  "steps u g c V R \<longleftrightarrow> (\<forall>a stack heap. view_of a = V \<longrightarrow>
     (\<exists>st p a'. answer stack heap (lib_request u g c) a = Ret (st, p, a') \<and> R (lib_view c st p) (view_of a')))"

text \<open>The exact result.\<close>

abbreviation gives :: "u32 \<Rightarrow> u32 \<Rightarrow> lib_call \<Rightarrow> view \<Rightarrow> lib_result \<Rightarrow> view \<Rightarrow> bool" where
  "gives u g c V r V' \<equiv> steps u g c V (\<lambda>x W. x = r \<and> W = V')"

lemma create_new:
  "name \<notin> fst ` set (v_names V) \<Longrightarrow> length name < 256 \<Longrightarrow>
   gives u g (L_Create name md) V (R_Number (next_no V)) (V\<lparr>v_names := v_names V @ [(name, next_no V)],
     v_files := v_files V @ [\<lparr>fi_no = next_no V, fi_owner = u, fi_group = g, fi_mode = md, fi_refs = 1, fi_size = 0,
       fi_blocks = no_blocks\<rparr>]\<rparr>)"
  by (auto simp: steps_def a_create_def Let_def view_name_in next_index_view)
    (simp_all add: view_of_def a_tick_def info_def new_inode_def)

lemma create_taken: "name \<in> fst ` set (v_names V) \<Longrightarrow> gives u g (L_Create name md) V (R_Number 0) V"
  by (auto simp: steps_def a_create_def Let_def view_name_in)

lemma put_u32_char: "unat fd < 128 \<Longrightarrow> scast (hd (put_u32 fd)) = fd"
proof -
  assume fd: "unat fd < 128"
  have "put_u32 fd = le_bytes (Suc 3) (unat fd)" by (simp add: put_u32_def)
  then have "hd (put_u32 fd) = ucast fd" by (simp only: le_bytes.simps(2) of_nat_unat list.sel)
  with as_char_small [OF fd] show ?thesis by (simp add: as_char_def)
qed

lemma open_named:
  assumes "named V name = Some x" "unat (next_desc (v_descs V)) < 128"
    and "flags = READ_ONLY \<and> may_read u g x \<or> flags = WRITE_ONLY \<and> may_write u g x"
  shows "gives u g (L_Open name flags) V
    (R_Number (if writer_open (v_descs V) (fi_no x) then -1 else next_desc (v_descs V)))
    (if writer_open (v_descs V) (fi_no x) then V
     else V\<lparr>v_descs := v_descs V @ [desc_entry (next_desc (v_descs V)) (fi_no x) flags 0]\<rparr>)"
  unfolding steps_def
proof (intro allI impI)
  fix a stack heap assume a: "view_of a = V"
  have x: "named (view_of a) name = Some x" using assms(1) a by simp
  have c: "a_check (open_check flags u g) name a = SUCCESS"
    using assms(3) check_named [OF x] by (auto simp: open_check_def may_read_def may_write_def)
  note fd = put_u32_char
  show "\<exists>st p a'. answer stack heap (lib_request u g (L_Open name flags)) a = Ret (st, p, a') \<and>
     lib_view (L_Open name flags) st p = R_Number (if writer_open (v_descs V) (fi_no x) then -1 else next_desc (v_descs V)) \<and>
     view_of a' = (if writer_open (v_descs V) (fi_no x) then V
       else V\<lparr>v_descs := v_descs V @ [desc_entry (next_desc (v_descs V)) (fi_no x) flags 0]\<rparr>)"
  proof (rule named_inode [OF x])
    fix i n assume i: "target a name = i" "inode_no a i = Some n" "fi_no x = i"
    show ?thesis
      using assms(2) i c fd [of "next_desc (v_descs V)"] a [symmetric]
      by (auto simp: checked_def a_open_def Let_def) (simp add: view_of_def)
  qed
qed

lemma open_refused:
  assumes "named V name = Some x" "\<not> may_read u g x"
  shows "gives u g (L_Open name READ_ONLY) V (R_Number (-1)) V"
  using assms by (auto simp: steps_def check_named open_check_def may_read_def checked_def)

lemma close_open: "fd \<in> desc ` set (v_descs V) \<Longrightarrow>
  gives u g (L_Close fd) V (R_Int 0) (V\<lparr>v_descs := del_first (\<lambda>d. desc d = fd) (v_descs V)\<rparr>)"
  by (auto simp: steps_def no_data_def a_close_def view_of_def)

lemma chmode_named:
  assumes "named V name = Some x" "may_write u g x"
  shows "gives u g (L_Chmode name md) V (R_Status SUCCESS) (set_file (fi_no x) (\<lambda>y. y\<lparr>fi_mode := ucast (ucast md :: u32)\<rparr>) V)"
  unfolding steps_def
proof (intro allI impI)
  fix a stack heap assume a: "view_of a = V"
  have x: "named (view_of a) name = Some x" using assms(1) a by simp
  have "info (n\<lparr>mode := m\<rparr>) = (info n)\<lparr>fi_mode := m\<rparr>" for n m by (simp add: info_def)
  with assms(2) show "\<exists>st p a'. answer stack heap (lib_request u g (L_Chmode name md)) a = Ret (st, p, a') \<and>
      lib_view (L_Chmode name md) st p = R_Status SUCCESS \<and>
      view_of a' = set_file (fi_no x) (\<lambda>y. y\<lparr>fi_mode := ucast (ucast md :: u32)\<rparr>) V"
    by (rule_tac named_inode [OF x])
      (auto simp: checked_def no_data_def a_chmod_def check_named [OF x] write_check_def may_write_def a intro!: view_upd [THEN trans])
qed

text \<open>An answer with plain status, and the proof of an exact step.\<close>

lemma givesI:
  assumes "\<And>a stack heap. view_of a = V \<Longrightarrow>
    \<exists>st p a'. answer stack heap (lib_request u g c) a = Ret (st, p, a') \<and> lib_view c st p = r \<and> view_of a' = V'"
  shows "gives u g c V r V'"
  using assms by (auto simp: steps_def)

lemma stat_named:
  assumes "named V name = Some x"
  shows "steps u g (L_Stat name) V (\<lambda>r W. W = V)"
  unfolding steps_def
proof (intro allI impI)
  fix a stack heap assume a: "view_of a = V"
  have x: "named (view_of a) name = Some x" using assms a by simp
  show "\<exists>st p a'. answer stack heap (lib_request u g (L_Stat name)) a = Ret (st, p, a') \<and> view_of a' = V"
    by (rule named_inode [OF x]) (auto simp: checked_def a_stat_def Let_def a)
qed

lemma link_named:
  assumes "named V name = Some x" "may_read u g x" "new \<notin> fst ` set (v_names V)" "length new < 256"
  shows "gives u g (L_Link name new) V (R_Status SUCCESS)
    ((set_file (fi_no x) (\<lambda>y. y\<lparr>fi_refs := fi_refs y + 1\<rparr>) V)\<lparr>v_names := v_names V @ [(new, fi_no x)]\<rparr>)"
proof (rule givesI)
  fix a stack heap assume a: "view_of a = V"
  have x: "named (view_of a) name = Some x" using assms(1) a by simp
  have n: "\<not> name_in (a_names a) new" using assms(3) a by (simp add: view_name_in)
  have f: "info (n\<lparr>ref_count := r\<rparr>) = (info n)\<lparr>fi_refs := r\<rparr>" for n r by (simp add: info_def)
  have c: "a_check (read_check u g) name a = SUCCESS"
    using assms(2) by (simp add: check_named [OF x] read_check_def may_read_def)
  have v: "view_of (a_upd_inode (fi_no x) (\<lambda>n. set_ctim t (set_atim t (n\<lparr>ref_count := ref_count n + 1\<rparr>)))
      (a_tick (a\<lparr>a_names := a_names a @ [name_entry new (fi_no x)]\<rparr>))) =
      (set_file (fi_no x) (\<lambda>y. y\<lparr>fi_refs := fi_refs y + 1\<rparr>) V)\<lparr>v_names := v_names V @ [(new, fi_no x)]\<rparr>" for t
    by (subst view_upd [where g = "\<lambda>y. y\<lparr>fi_refs := fi_refs y + 1\<rparr>"]) (simp_all add: f, simp add: view_of_def set_file_def a [symmetric])
  show "\<exists>st p a'. answer stack heap (lib_request u g (L_Link name new)) a = Ret (st, p, a') \<and>
      lib_view (L_Link name new) st p = R_Status SUCCESS \<and>
      view_of a' = (set_file (fi_no x) (\<lambda>y. y\<lparr>fi_refs := fi_refs y + 1\<rparr>) V)\<lparr>v_names := v_names V @ [(new, fi_no x)]\<rparr>"
  proof (rule named_inode [OF x])
    fix i m assume "target a name = i" "inode_no a i = Some m" "fi_no x = i"
    with n assms(4) have "a_link name new a = Ret (SUCCESS, a_upd_inode (fi_no x)
        (\<lambda>n. set_ctim (a_now a) (set_atim (a_now a) (n\<lparr>ref_count := ref_count n + 1\<rparr>)))
        (a_tick (a\<lparr>a_names := a_names a @ [name_entry new (fi_no x)]\<rparr>)))"
      by (simp add: a_link_def Let_def)
    with c v show ?thesis by (simp add: checked_def no_data_def)
  qed
qed

lemma desc_file:
  assumes "find (\<lambda>d. desc d = fd) (v_descs (view_of a)) = Some d" "file_no (view_of a) (d_node_index d) = Some x"
  obtains n where "desc_no a fd = Some d" "inode_no a (d_node_index d) = Some n" "info n = x"
  using assms that by (auto simp: view_file)

lemma seek_open:
  assumes "find (\<lambda>d. desc d = fd) (v_descs V) = Some d" "file_no V (d_node_index d) = Some x" "uint off \<le> sint (fi_size x)"
  shows "gives u g (L_Seek fd off) V (R_Status SUCCESS)
    (V\<lparr>v_descs := upd_first (\<lambda>d. desc d = fd) (\<lambda>d. d\<lparr>d_offset := off\<rparr>) (v_descs V)\<rparr>)"
proof (rule givesI)
  fix a stack heap assume a: "view_of a = V"
  obtain n where "desc_no a fd = Some d" "inode_no a (d_node_index d) = Some n" "info n = x"
    by (rule desc_file [of fd a d x]) (use assms a in auto)
  then show "\<exists>st p a'. answer stack heap (lib_request u g (L_Seek fd off)) a = Ret (st, p, a') \<and>
      lib_view (L_Seek fd off) st p = R_Status SUCCESS \<and>
      view_of a' = V\<lparr>v_descs := upd_first (\<lambda>d. desc d = fd) (\<lambda>d. d\<lparr>d_offset := off\<rparr>) (v_descs V)\<rparr>"
    using assms(3) a [symmetric] by (auto simp: no_data_def a_seek_def)
qed

lemma read_open:
  assumes "find (\<lambda>d. desc d = fd) (v_descs V) = Some d" "file_no V (d_node_index d) = Some x"
    and "disk_ok (v_disk V) k" "holds (v_disk V) k x c" "unat (d_offset d) + unat n \<le> length c"
  shows "gives u g (L_Read fd buf n) V (R_Read SUCCESS (overwrite 0 (take (unat n) (drop (unat (d_offset d)) c)) buf))
    (V\<lparr>v_descs := upd_first (\<lambda>d. desc d = fd) (\<lambda>e. e\<lparr>d_offset := d_offset d + n\<rparr>) (v_descs V)\<rparr>)"
proof (rule givesI)
  fix a stack heap assume a: "view_of a = V"
  obtain m where m: "desc_no a fd = Some d" "inode_no a (d_node_index d) = Some m" "info m = x"
    by (rule desc_file [of fd a d x]) (use assms a in auto)
  have "read_inode m (map heap [0..<unat n]) (d_offset d) n (a_disk a) =
      Ret (SUCCESS, overwrite 0 (take (unat n) (drop (unat (d_offset d)) c)) (map heap [0..<unat n]), d_offset d + n)"
    using assms(3-5) m(3) a by (intro read_holds [of _ k]) auto
  moreover have "overwrite 0 (take (unat n) (drop (unat (d_offset d)) c)) (map heap [0..<unat n]) = take (unat n) (drop (unat (d_offset d)) c)"
    using assms(5) by (simp add: overwrite_full)
  ultimately show "\<exists>st p a'. answer stack heap (lib_request u g (L_Read fd buf n)) a = Ret (st, p, a') \<and>
      lib_view (L_Read fd buf n) st p = R_Read SUCCESS (overwrite 0 (take (unat n) (drop (unat (d_offset d)) c)) buf) \<and>
      view_of a' = V\<lparr>v_descs := upd_first (\<lambda>d. desc d = fd) (\<lambda>e. e\<lparr>d_offset := d_offset d + n\<rparr>) (v_descs V)\<rparr>"
    using m a [symmetric] by (auto simp: a_read_def)
qed

text \<open>What writing does: the disk grows by at most 100 blocks, and the other files are kept.\<close>

definition grown :: "disk \<Rightarrow> nat \<Rightarrow> disk \<Rightarrow> nat \<Rightarrow> bool" where
  "grown d k d' k' \<longleftrightarrow> disk_ok d' k' \<and> k' \<le> k + 100 \<and> (\<forall>y e. holds d k y e \<longrightarrow> holds d' k' y e)"

lemma write_fresh_file:
  assumes "find (\<lambda>d. desc d = fd) (v_descs V) = Some d" "d_mode d \<noteq> READ_ONLY" "d_offset d = 0"
    and "file_no V (d_node_index d) = Some x" "fi_blocks x = no_blocks"
    and "disk_ok (v_disk V) k" "k + 100 \<le> NUM_OF_DATA_BLOCKS" "length c \<le> 409600"
  shows "steps u g (L_Write fd c (of_nat (length c))) V (\<lambda>r W. r = R_Int 0 \<and> (\<exists>bl d' k'.
    let x' = x\<lparr>fi_size := of_nat (length c), fi_blocks := bl\<rparr>
    in W = (set_file (d_node_index d) (\<lambda>_. x') V)\<lparr>v_disk := d', v_descs := upd_first (\<lambda>d. desc d = fd)
        (\<lambda>d. d\<lparr>d_offset := of_nat (length c)\<rparr>) (v_descs V)\<rparr> \<and> grown (v_disk V) k d' k' \<and> holds d' k' x' c))"
  unfolding steps_def
proof (intro allI impI)
  fix a stack heap assume a: "view_of a = V"
  obtain m where m: "desc_no a fd = Some d" "inode_no a (d_node_index d) = Some m" "info m = x"
    by (rule desc_file [of fd a d x]) (use assms a in auto)
  have u: "unat (of_nat (length c) :: u32) = length c" by (rule size_u32 [OF assms(8)])
  let ?m = "set_mtim (a_now a) (set_atim (a_now a) m)"
  have "disk_ok (a_disk a) k" "data_blocks ?m = no_blocks" using assms(5,6) m(3) a by (auto simp: set_mtim_def set_atim_def)
  from fresh_write [OF this(1) assms(7) this(2) assms(8)] obtain bl d' k' where
    W: "write_inode ?m c 0 (of_nat (length c)) (a_disk a) = Ret (SUCCESS,
      ?m\<lparr>data_blocks := bl, stat := (stat ?m)\<lparr>st_size := of_nat (length c)\<rparr>\<rparr>, of_nat (length c), d')"
      "disk_ok d' k'" "k' \<le> k + 100" "holds d' k' ((info ?m)\<lparr>fi_size := of_nat (length c), fi_blocks := bl\<rparr>) c"
      "\<And>y e. holds (a_disk a) k y e \<Longrightarrow> holds d' k' y e" by metis
  let ?m' = "?m\<lparr>data_blocks := bl, stat := (stat ?m)\<lparr>st_size := of_nat (length c)\<rparr>\<rparr>"
  let ?x = "x\<lparr>fi_size := of_nat (length c), fi_blocks := bl\<rparr>"
  have i: "info ?m' = ?x" using m(3) by (auto simp: info_def set_mtim_def set_atim_def)
  have g: "grown (v_disk V) k d' k'" "holds d' k' ?x c" using W m(3) a by (auto simp: grown_def)
  have ix: "index m = d_node_index d" using m(2) by (auto simp: find_Some_iff)
  have "view_of (a_upd_inode (d_node_index d) (\<lambda>_. ?m') ((a_tick a)\<lparr>a_disk := d'\<rparr>)) = (set_file (d_node_index d) (\<lambda>_. ?x) V)\<lparr>v_disk := d'\<rparr>"
    by (subst view_upd [where g = "\<lambda>_. ?x"]) (simp_all add: i, simp add: view_of_def set_file_def a [symmetric] a_tick_def)
  then have v: "view_of (a_upd_desc fd (\<lambda>d. d\<lparr>d_offset := of_nat (length c)\<rparr>)
      (a_upd_inode (d_node_index d) (\<lambda>_. ?m') ((a_tick a)\<lparr>a_disk := d'\<rparr>))) =
    (set_file (d_node_index d) (\<lambda>_. ?x) V)\<lparr>v_disk := d', v_descs := upd_first (\<lambda>d. desc d = fd)
        (\<lambda>d. d\<lparr>d_offset := of_nat (length c)\<rparr>) (v_descs V)\<rparr>"
    using a [symmetric] by simp
  have "answer stack heap (lib_request u g (L_Write fd c (of_nat (length c)))) a = Ret (SUCCESS, [],
      a_upd_desc fd (\<lambda>d. d\<lparr>d_offset := of_nat (length c)\<rparr>) (a_upd_inode (d_node_index d) (\<lambda>_. ?m') ((a_tick a)\<lparr>a_disk := d'\<rparr>)))"
    using u m W(1) assms(2,3) by (simp add: no_data_def a_write_def)
  with v g show "\<exists>st p a'. answer stack heap (lib_request u g (L_Write fd c (of_nat (length c)))) a = Ret (st, p, a') \<and>
      lib_view (L_Write fd c (of_nat (length c))) st p = R_Int 0 \<and> (\<exists>bl d' k'.
        let x' = x\<lparr>fi_size := of_nat (length c), fi_blocks := bl\<rparr>
        in view_of a' = (set_file (d_node_index d) (\<lambda>_. x') V)\<lparr>v_disk := d', v_descs := upd_first (\<lambda>d. desc d = fd)
            (\<lambda>d. d\<lparr>d_offset := of_nat (length c)\<rparr>) (v_descs V)\<rparr> \<and> grown (v_disk V) k d' k' \<and> holds d' k' x' c)"
    by (intro exI [of _ SUCCESS] exI [of _ "[]"] exI conjI) (auto simp: Let_def)
qed

lemma symlink_named:
  assumes "named V name = Some x" "may_read u g x" "new \<notin> fst ` set (v_names V)" "length new < 256"
    and "\<forall>y\<in>set (v_files V). fi_no y \<noteq> next_no V"
    and "disk_ok (v_disk V) k" "k + 100 \<le> NUM_OF_DATA_BLOCKS" "holds (v_disk V) k x c"
  shows "steps u g (L_Symlink name new md) V (\<lambda>r W. r = R_Status SUCCESS \<and> (\<exists>bl d' k'.
    let x' = \<lparr>fi_no = next_no V, fi_owner = u, fi_group = g, fi_mode = md, fi_refs = 1, fi_size = of_nat (length c), fi_blocks = bl\<rparr>
    in W = V\<lparr>v_names := v_names V @ [(new, next_no V)], v_files := v_files V @ [x'], v_disk := d'\<rparr> \<and>
      grown (v_disk V) k d' k' \<and> holds d' k' x' c))"
  unfolding steps_def
proof (intro allI impI)
  fix a stack heap assume a: "view_of a = V"
  have x: "named (view_of a) name = Some x" using assms(1) a by simp
  have n: "\<not> name_in (a_names a) new" using assms(3) a by (simp add: view_name_in)
  have chk: "a_check (read_check u g) name a = SUCCESS"
    using assms(2) by (simp add: check_named [OF x] read_check_def may_read_def)
  have len: "length c \<le> 409600" using assms(8) by (simp add: holds_def)
  note u = size_u32 [OF len] size_u64 [OF len]
  have "length c < 9223372036854775808" using len by linarith
  then have s: "0 \<le> sint (of_nat (length c) :: u64)" using sint_small_u64 [OF u(2)] by simp
  have uc: "ucast (of_nat (length c) :: u64) = (of_nat (length c) :: u32)"
    by (rule word_unat_eq_iff [THEN iffD2]) (use u len in \<open>simp add: unsigned_ucast_eq take_bit_nat_eq_self\<close>)
  let ?j = "next_no V" and ?t = "a_now a"
  let ?m = "new_inode ?j F_SYMLINK u g 1 md 0 ?t ?t ?t"
  have dk: "disk_ok (a_disk a) k" "data_blocks ?m = no_blocks" using assms(6) a by (auto simp: new_inode_def)
  from fresh_write [OF dk(1) assms(7) dk(2) len] obtain bl d' k' where
    W: "write_inode ?m c 0 (of_nat (length c)) (a_disk a) = Ret (SUCCESS,
      ?m\<lparr>data_blocks := bl, stat := (stat ?m)\<lparr>st_size := of_nat (length c)\<rparr>\<rparr>, of_nat (length c), d')"
      "disk_ok d' k'" "k' \<le> k + 100" "holds d' k' ((info ?m)\<lparr>fi_size := of_nat (length c), fi_blocks := bl\<rparr>) c"
      "\<And>y e. holds (a_disk a) k y e \<Longrightarrow> holds d' k' y e" by metis
  let ?m' = "?m\<lparr>data_blocks := bl, stat := (stat ?m)\<lparr>st_size := of_nat (length c)\<rparr>\<rparr>"
  let ?x = "\<lparr>fi_no = ?j, fi_owner = u, fi_group = g, fi_mode = md, fi_refs = 1, fi_size = of_nat (length c), fi_blocks = bl\<rparr>"
  have i: "info ?m' = ?x" "(info ?m)\<lparr>fi_size := of_nat (length c), fi_blocks := bl\<rparr> = ?x" by (simp_all add: info_def new_inode_def)
  have g: "grown (v_disk V) k d' k'" "holds d' k' ?x c" using W i(2) a by (auto simp: grown_def)
  show "\<exists>st p a'. answer stack heap (lib_request u g (L_Symlink name new md)) a = Ret (st, p, a') \<and>
      lib_view (L_Symlink name new md) st p = R_Status SUCCESS \<and> (\<exists>bl d' k'.
        let x' = \<lparr>fi_no = ?j, fi_owner = u, fi_group = g, fi_mode = md, fi_refs = 1, fi_size = of_nat (length c), fi_blocks = bl\<rparr>
        in view_of a' = V\<lparr>v_names := v_names V @ [(new, ?j)], v_files := v_files V @ [x'], v_disk := d'\<rparr> \<and>
          grown (v_disk V) k d' k' \<and> holds d' k' x' c)"
  proof (rule named_inode [OF x])
    fix i0 pn assume p: "lookup_name (a_names a) name = Some i0" "inode_no a i0 = Some pn" "info pn = x"
    let ?a3 = "(a_tick a)\<lparr>a_inodes := a_inodes a @ [?m], a_names := a_names a @ [name_entry new ?j]\<rparr>"
    let ?a4 = "a_upd_inode i0 (set_atim (a_now ?a3)) (a_tick ?a3)"
    have sz: "st_size (stat pn) = of_nat (length c)" using assms(8) p(3) by (auto simp: holds_def)
    have "read_inode pn (replicate (length c) 0) 0 (of_nat (length c)) (a_disk a) =
        Ret (SUCCESS, overwrite 0 (take (length c) (drop 0 c)) (replicate (length c) 0), 0 + of_nat (length c))"
      using read_holds [of "a_disk a" k pn c 0 "of_nat (length c)" "replicate (length c) 0"] assms(8) p(3) dk(1) a u(1) by auto
    then have rd: "read_inode pn (replicate (length c) 0) 0 (of_nat (length c)) (a_disk a) = Ret (SUCCESS, c, of_nat (length c))"
      by (simp add: overwrite_full)
    have ans: "a_symlink name new u g md a = Ret (SUCCESS, a_upd_inode ?j (\<lambda>_. ?m') (?a4\<lparr>a_disk := d'\<rparr>))"
      using p n assms(4) s sz u uc rd W(1) a by (simp add: a_symlink_def Let_def next_index_view)
    have fn: "upd_first (\<lambda>x. fi_no x = ?j) (\<lambda>_. ?x) (v_files V @ [info ?m]) = v_files V @ [?x]"
      using assms(5) by (subst upd_first_append) (auto simp: new_inode_def)
    have "view_of (a_upd_inode ?j (\<lambda>_. ?m') (?a4\<lparr>a_disk := d'\<rparr>)) = set_file ?j (\<lambda>_. ?x) (view_of (?a4\<lparr>a_disk := d'\<rparr>))"
      by (rule view_upd) (simp add: i)
    also have "view_of (?a4\<lparr>a_disk := d'\<rparr>) = (view_of ?a4)\<lparr>v_disk := d'\<rparr>" by (simp add: view_of_def)
    also have "view_of ?a4 = V\<lparr>v_names := v_names V @ [(new, ?j)], v_files := v_files V @ [info ?m]\<rparr>"
      by (simp add: a [symmetric]) (simp add: view_of_def a_tick_def)
    finally have "view_of (a_upd_inode ?j (\<lambda>_. ?m') (?a4\<lparr>a_disk := d'\<rparr>)) =
        V\<lparr>v_names := v_names V @ [(new, ?j)], v_files := v_files V @ [?x], v_disk := d'\<rparr>"
      using fn by (simp add: set_file_def)
    with ans chk g show ?thesis
      by (intro exI [of _ SUCCESS] exI [of _ "[]"] exI conjI) (auto simp: Let_def checked_def no_data_def)
  qed
qed

lemma map_upd_first: "(\<And>x. P x = P' (h x)) \<Longrightarrow> (\<And>x. h (f x) = f' (h x)) \<Longrightarrow> map h (upd_first P f xs) = upd_first P' f' (map h xs)"
  by (induction xs) auto

lemma map_del_first': "(\<And>x. P x = P' (h x)) \<Longrightarrow> map h (del_first P xs) = del_first P' (map h xs)"
  by (induction xs) auto

lemma rename_named:
  assumes "old \<in> fst ` set (v_names V)" "new \<notin> fst ` set (v_names V)" "length new < 256" "disk_ok (v_disk V) k"
  shows "gives u g (L_Rename old new) V (R_Status SUCCESS)
    (V\<lparr>v_names := upd_first (\<lambda>e. fst e = old) (\<lambda>e. (new, snd e)) (v_names V)\<rparr>)"
proof (rule givesI)
  fix a stack heap assume a: "view_of a = V"
  have n: "name_in (a_names a) old" "\<not> name_in (a_names a) new" using assms(1,2) a by (simp_all add: view_name_in)
  have "pw_dir (host (a_disk a)) \<noteq> None" using assms(4) a by (auto simp: disk_ok_def)
  moreover have "map (\<lambda>e. (filename e, node_index e)) (upd_first (\<lambda>x. filename x = old) (\<lambda>x. x\<lparr>filename := new\<rparr>) (a_names a)) =
      upd_first (\<lambda>e. fst e = old) (\<lambda>e. (new, snd e)) (v_names V)"
    unfolding a [symmetric] view_of_def by (simp add: map_upd_first [where P' = "\<lambda>e. fst e = old" and f' = "\<lambda>e. (new, snd e)"])
  ultimately show "\<exists>st p a'. answer stack heap (lib_request u g (L_Rename old new)) a = Ret (st, p, a') \<and>
      lib_view (L_Rename old new) st p = R_Status SUCCESS \<and>
      view_of a' = V\<lparr>v_names := upd_first (\<lambda>e. fst e = old) (\<lambda>e. (new, snd e)) (v_names V)\<rparr>"
    using n assms(3) a [symmetric] by (auto simp: a_rename_def) (simp add: view_of_def)
qed

text \<open>Unlinking: a missing name, one of several names, the last one.\<close>

lemma unlink_missing: "name \<notin> fst ` set (v_names V) \<Longrightarrow> gives u g (L_Unlink name) V (R_Status FILE_NOT_FOUND) V"
  by (auto simp: steps_def no_data_def a_unlink_def view_lookup map_of_eq_None_iff [THEN iffD2])

lemma unlink_names: "map (\<lambda>e. (filename e, node_index e)) (del_first (\<lambda>x. filename x = name) (a_names a)) =
    del_first (\<lambda>e. fst e = name) (v_names (view_of a))"
  by (simp add: view_of_def map_del_first' [where P' = "\<lambda>e. fst e = name"])

lemma unlink_one:
  assumes "named V name = Some x" "fi_refs x \<noteq> 1"
  shows "gives u g (L_Unlink name) V (R_Status SUCCESS)
    ((set_file (fi_no x) (\<lambda>y. y\<lparr>fi_refs := fi_refs y - 1\<rparr>) V)\<lparr>v_names := del_first (\<lambda>e. fst e = name) (v_names V)\<rparr>)"
proof (rule givesI)
  fix a stack heap assume a: "view_of a = V"
  have x: "named (view_of a) name = Some x" using assms(1) a by simp
  have f: "info (release t n) = (info n)\<lparr>fi_refs := fi_refs (info n) - 1\<rparr>" for t n
    by (simp add: info_def set_atim_def set_ctim_def)
  let ?rest = "del_first (\<lambda>x. filename x = name) (a_names a)"
  have "view_of (a_upd_inode (fi_no x) (release t) (a_tick a)) = set_file (fi_no x) (\<lambda>y. y\<lparr>fi_refs := fi_refs y - 1\<rparr>) V" for t
    by (subst view_upd [where g = "\<lambda>y. y\<lparr>fi_refs := fi_refs y - 1\<rparr>"]) (simp_all add: f a)
  moreover have "view_of (b\<lparr>a_names := ?rest\<rparr>) = (view_of b)\<lparr>v_names := del_first (\<lambda>e. fst e = name) (v_names V)\<rparr>" for b
    using unlink_names [of name a, unfolded a] by (simp add: view_of_def)
  ultimately have v: "view_of ((a_upd_inode (fi_no x) (release t) (a_tick a))\<lparr>a_names := ?rest\<rparr>) =
      (set_file (fi_no x) (\<lambda>y. y\<lparr>fi_refs := fi_refs y - 1\<rparr>) V)\<lparr>v_names := del_first (\<lambda>e. fst e = name) (v_names V)\<rparr>" for t
    by simp
  show "\<exists>st p a'. answer stack heap (lib_request u g (L_Unlink name)) a = Ret (st, p, a') \<and>
      lib_view (L_Unlink name) st p = R_Status SUCCESS \<and> view_of a' =
      (set_file (fi_no x) (\<lambda>y. y\<lparr>fi_refs := fi_refs y - 1\<rparr>) V)\<lparr>v_names := del_first (\<lambda>e. fst e = name) (v_names V)\<rparr>"
  proof (rule named_inode [OF x])
    fix i n assume "lookup_name (a_names a) name = Some i" "inode_no a i = Some n" "info n = x" "fi_no x = i"
    moreover from this(3) assms(2) have "ref_count n \<noteq> 1" by auto
    ultimately have "a_unlink name a = Ret (SUCCESS, (a_upd_inode (fi_no x) (release (a_now a)) (a_tick a))\<lparr>a_names := ?rest\<rparr>)"
      by (simp add: a_unlink_def Let_def)
    with v show ?thesis by (simp add: no_data_def)
  qed
qed

lemma free_blocks_runs: "\<forall>b\<in>set bl. unat b \<le> length t \<Longrightarrow> \<exists>t'. free_blocks bl t = Ret t'"
proof (induction bl arbitrary: t)
  case (Cons b bl)
  show ?case
  proof (cases "b = 0")
    case False
    then have "0 < unat b" by (simp add: unat_gt_0)
    then have "unat (b - 1) < length t" using Cons.prems by (subst unat_minus_u32) (simp_all, linarith)
    with Cons False show ?thesis by (simp add: word_gt_0)
  qed simp
qed simp

lemma unlink_last:
  assumes "named V name = Some x" "fi_refs x = 1" "disk_ok (v_disk V) k" "holds (v_disk V) k x c"
  shows "steps u g (L_Unlink name) V (\<lambda>r W. r = R_Status SUCCESS \<and> (\<exists>t.
    W = V\<lparr>v_names := del_first (\<lambda>e. fst e = name) (v_names V), v_files := del_first (\<lambda>y. fi_no y = fi_no x) (v_files V),
      v_disk := (v_disk V)\<lparr>data_block_table := t\<rparr>\<rparr>))"
  unfolding steps_def
proof (intro allI impI)
  fix a stack heap assume a: "view_of a = V"
  have x: "named (view_of a) name = Some x" using assms(1) a by simp
  have "\<forall>b\<in>set (fi_blocks x). unat b \<le> length (data_block_table (v_disk V))"
    using assms(3,4) by (force simp: holds_def blocks_ok_def disk_ok_def in_set_conv_nth)
  then obtain t where t: "free_blocks (fi_blocks x) (data_block_table (a_disk a)) = Ret t"
    using free_blocks_runs [of "fi_blocks x" "data_block_table (a_disk a)"] a by auto
  show "\<exists>st p a'. answer stack heap (lib_request u g (L_Unlink name)) a = Ret (st, p, a') \<and>
      lib_view (L_Unlink name) st p = R_Status SUCCESS \<and> (\<exists>t. view_of a' =
      V\<lparr>v_names := del_first (\<lambda>e. fst e = name) (v_names V), v_files := del_first (\<lambda>y. fi_no y = fi_no x) (v_files V),
        v_disk := (v_disk V)\<lparr>data_block_table := t\<rparr>\<rparr>)"
  proof (rule named_inode [OF x])
    fix i n assume n: "lookup_name (a_names a) name = Some i" "inode_no a i = Some n" "info n = x" "fi_no x = i"
    let ?a = "(a_tick a)\<lparr>a_names := del_first (\<lambda>x. filename x = name) (a_names a),
      a_inodes := del_first (\<lambda>n. index n = i) (a_inodes a), a_disk := (a_disk a)\<lparr>data_block_table := t\<rparr>\<rparr>"
    have "ref_count n = 1" "data_blocks n = fi_blocks x" using n(3) assms(2) by auto
    with n t have "a_unlink name a = Ret (SUCCESS, ?a)" by (simp add: a_unlink_def Let_def)
    moreover have "view_of ?a = V\<lparr>v_names := del_first (\<lambda>e. fst e = name) (v_names V),
        v_files := del_first (\<lambda>y. fi_no y = fi_no x) (v_files V), v_disk := (v_disk V)\<lparr>data_block_table := t\<rparr>\<rparr>"
      using unlink_names [of name a] n(4)
      by (simp add: a [symmetric]) (simp add: view_of_def map_del_first' [where P' = "\<lambda>y. fi_no y = i"])
    ultimately show ?thesis by (intro exI [of _ SUCCESS] exI [of _ "[]"] exI [of _ ?a]) (auto simp: no_data_def)
  qed
qed

subsection \<open>Running programs\<close>

definition sees :: "client_spec \<Rightarrow> u32 \<Rightarrow> u32 \<Rightarrow> view \<Rightarrow> nat \<Rightarrow> bool" where
  "sees S u g V l \<longleftrightarrow> view_of (cs_fs S) = V \<and> cs_left S = l \<and> cs_uid S = u \<and> cs_gid S = g"

text \<open>No first cell of a list is freed.\<close>

definition view_safe :: "lib_call \<Rightarrow> view \<Rightarrow> bool" where
  "view_safe c V \<longleftrightarrow> (case c of L_Unlink name \<Rightarrow> (v_names V \<noteq> [] \<longrightarrow> fst (hd (v_names V)) \<noteq> name) \<and>
     (case named V name of None \<Rightarrow> True | Some x \<Rightarrow> fi_refs x = 1 \<longrightarrow> fi_no (hd (v_files V)) \<noteq> fi_no x) | _ \<Rightarrow> True)"

lemma unlink_safe_view: "view_safe (L_Unlink name) (view_of a) \<Longrightarrow> unlink_safe name a"
  unfolding unlink_safe_def
proof (intro conjI impI)
  assume v: "view_safe (L_Unlink name) (view_of a)"
  show "filename (hd (a_names a)) \<noteq> name" if "a_names a \<noteq> []"
    using v that by (simp add: view_safe_def view_of_def hd_map)
  have "index (hd (a_inodes a)) \<noteq> i" if "lookup_name (a_names a) name = Some i" "inode_no a i = Some n" "ref_count n = 1" for i n
  proof -
    have "named (view_of a) name = Some (info n)" using that by (simp add: named_def view_lookup [symmetric] view_file)
    moreover have "a_inodes a \<noteq> []" "index n = i" using that(2) by (auto simp: find_Some_iff)
    ultimately show ?thesis using v that(3) by (simp add: view_safe_def view_of_def hd_map)
  qed
  then show "case lookup_name (a_names a) name of None \<Rightarrow> True | Some i \<Rightarrow> (case inode_no a i of None \<Rightarrow> True
      | Some n \<Rightarrow> ref_count n = 1 \<longrightarrow> index (hd (a_inodes a)) \<noteq> i)"
    by (simp split: option.split)
qed

lemma goes_step:
  assumes "sees S u g V l" "0 < l" "view_room V" "lib_ok c" "view_safe c V" "steps u g c V R"
    and "\<And>S' r W. sees S' u g W (l - 1) \<Longrightarrow> R r W \<Longrightarrow> goes (f r) S' Q"
  shows "goes (Call c f) S Q"
proof -
  from assms(1) have S: "view_of (cs_fs S) = V" "cs_left S = l" "cs_uid S = u" "cs_gid S = g" by (simp_all add: sees_def)
  from assms(6) S obtain st p a' where ans: "spec_answer c S = Ret (st, p, a')" "R (lib_view c st p) (view_of a')"
    unfolding steps_def spec_answer_def by blast
  have "numbers_left (cs_fs S)" using assms(3) S(1) by (simp add: numbers_left_view)
  moreover have "unlink_safe name (cs_fs S)" if "c = L_Unlink name" for name
    using assms(5) S(1) that unlink_safe_view by simp
  ultimately have "call_safe (lib_request u g c) (cs_fs S)" by (cases c) auto
  with ans(1) assms(2,4) S have "lib_guard c S" by (simp add: lib_guard_def)
  moreover have "goes (f (lib_view c st p)) (S\<lparr>cs_fs := a', cs_errno := new_errno (lib_errors c) st (cs_errno S),
      cs_left := cs_left S - 1\<rparr>) Q"
    by (rule assms(7) [of _ "view_of a'"]) (use S ans(2) in \<open>simp_all add: sees_def\<close>)
  ultimately show ?thesis using ans(1) by (simp add: spec_lib_def)
qed

lemma goes_exact:
  assumes "sees S u g V l" "gives u g c V r V'" "0 < l" "view_room V" "lib_ok c" "view_safe c V"
    and "\<And>S'. sees S' u g V' (l - 1) \<Longrightarrow> goes (f r) S' Q"
  shows "goes (Call c f) S Q"
  by (rule goes_step [OF assms(1,3-6,2)]) (use assms(7) in auto)

end
