(* ===== verification/Text_Format.thy ===== *)
theory Text_Format
  imports Marshal
begin

text \<open>
  The text the tables are stored in, and the C library the code reads and writes it with: the
  conversions \<^verbatim>\<open>%d\<close> and \<^verbatim>\<open>%ld\<close>, \<^verbatim>\<open>atoi\<close>, \<^verbatim>\<open>fgets\<close> into a cleared line of 4096 bytes, \<^verbatim>\<open>strtok\<close> with one
  delimiter. The fields of a line are codecs, in the sense of the locale of \<open>Marshal\<close>.
\<close>

subsection \<open>Numbers\<close>

fun dec_digits :: "nat \<Rightarrow> byte list" where
  "dec_digits n = (if n < 10 then [of_nat (48 + n)] else dec_digits (n div 10) @ [of_nat (48 + n mod 10)])"

declare dec_digits.simps [simp del]

definition dec :: "int \<Rightarrow> byte list" where
  "dec i = (if i < 0 then 45 # dec_digits (nat (- i)) else dec_digits (nat i))"

definition is_digit :: "byte \<Rightarrow> bool" where
  "is_digit b \<longleftrightarrow> 48 \<le> b \<and> b \<le> 57"

definition is_space :: "byte \<Rightarrow> bool" where
  "is_space b \<longleftrightarrow> 9 \<le> b \<and> b \<le> 13 \<or> b = 32"

definition digits_val :: "byte list \<Rightarrow> nat" where
  "digits_val ds = foldl (\<lambda>v b. 10 * v + (unat b - 48)) 0 ds"

text \<open>Space, a sign, digits; a value that is not an \<^verbatim>\<open>int\<close> is undefined. The result is the bits of the \<^verbatim>\<open>int\<close>.\<close>

definition atoi :: "byte list \<Rightarrow> u32 outcome" where
  "atoi s =
     (let r = dropWhile is_space s;
          (neg, ds) = (case r of [] \<Rightarrow> (False, []) | b # bs \<Rightarrow>
             if b = 45 then (True, bs) else if b = 43 then (False, bs) else (False, r));
          n = int (digits_val (takeWhile is_digit ds));
          v = (if neg then - n else n)
      in if - 2147483648 \<le> v \<and> v < 2147483648 then Ret (of_int v) else Undef)"

lemma digit_unat: "k < 10 \<Longrightarrow> unat (of_nat (48 + k) :: byte) = 48 + k"
  by (simp add: unat_of_nat del: of_nat_add)

lemma is_digit_unat: "is_digit b \<longleftrightarrow> 48 \<le> unat b \<and> unat b \<le> 57"
  by (simp add: is_digit_def word_le_nat_alt)

lemma digits_are_digits: "b \<in> set (dec_digits n) \<Longrightarrow> is_digit b"
proof (induction n rule: dec_digits.induct)
  case (1 n)
  have d: "is_digit (of_nat (48 + k))" if "k < 10" for k
    using that by (simp add: is_digit_unat digit_unat del: of_nat_add)
  show ?case
  proof (cases "n < 10")
    case True
    with 1 d [of n] show ?thesis by (simp add: dec_digits.simps [of n] del: of_nat_add)
  next
    case False
    with 1 d [of "n mod 10"] show ?thesis by (auto simp: dec_digits.simps [of n] simp del: of_nat_add)
  qed
qed

lemma digits_not_Nil [simp]: "dec_digits n \<noteq> []"
  by (simp add: dec_digits.simps [of n])

lemma digits_val_snoc: "digits_val (ds @ [b]) = 10 * digits_val ds + (unat b - 48)"
  by (simp add: digits_val_def)

lemma digits_val_digits [simp]: "digits_val (dec_digits n) = n"
proof (induction n rule: dec_digits.induct)
  case (1 n)
  show ?case
  proof (cases "n < 10")
    case True
    then show ?thesis
      using digit_unat [of n] by (simp add: dec_digits.simps [of n] digits_val_def del: of_nat_add)
  next
    case False
    then show ?thesis
      using 1 digit_unat [of "n mod 10"] by (simp add: dec_digits.simps [of n] digits_val_snoc del: of_nat_add)
  qed
qed

definition ends_number :: "byte list \<Rightarrow> bool" where
  "ends_number rest \<longleftrightarrow> takeWhile is_digit rest = []"

lemma ends_number [simp]: "ends_number []" "ends_number (10 # r)" "ends_number (44 # r)"
  by (simp_all add: ends_number_def is_digit_def)

lemma takeWhile_digits: "ends_number rest \<Longrightarrow> takeWhile is_digit (dec_digits n @ rest) = dec_digits n"
  using digits_are_digits [of _ n] by (simp add: ends_number_def)

lemma digits_first: "\<exists>b bs. dec_digits n = b # bs \<and> is_digit b"
  using digits_are_digits [of _ n] by (cases "dec_digits n") auto

lemma atoi_dec:
  assumes "- 2147483648 \<le> i" "i < 2147483648" "ends_number rest"
  shows "atoi (dec i @ rest) = Ret (of_int i)"
proof (cases "i < 0")
  case True
  with assms show ?thesis
    by (simp add: atoi_def dec_def is_space_def takeWhile_digits Let_def)
next
  case False
  from digits_first [of "nat i"] obtain b bs where d: "dec_digits (nat i) = b # bs" "is_digit b" by blast
  then have "\<not> is_space b" "b \<noteq> 45" "b \<noteq> 43"
    by (auto simp: is_digit_unat is_space_def word_le_nat_alt)
  moreover have "takeWhile is_digit (b # bs @ rest) = dec_digits (nat i)"
    using takeWhile_digits [OF assms(3), of "nat i"] d by simp
  moreover have "digits_val (b # bs) = nat i" using digits_val_digits [of "nat i"] d by simp
  ultimately show ?thesis using assms d False
    by (simp add: atoi_def dec_def Let_def del: takeWhile.simps)
qed


text \<open>What the two integer types are printed as.\<close>

definition dec32 :: "u32 \<Rightarrow> byte list" where
  "dec32 w = dec (sint w)"

definition dec64 :: "u64 \<Rightarrow> byte list" where
  "dec64 w = dec (sint w)"

definition int_range :: "u64 \<Rightarrow> bool" where
  "int_range w \<longleftrightarrow> - 2147483648 \<le> sint w \<and> sint w < 2147483648"

lemma atoi_dec32 [simp]: "ends_number rest \<Longrightarrow> atoi (dec32 w @ rest) = Ret w"
  using sint_range_size [of w] by (simp add: dec32_def atoi_dec word_size)

lemma of_int_sint32: "(of_int (sint (w :: u64)) :: u32) = ucast w"
  by (rule bit_word_eqI) (simp add: bit_signed_iff bit_unsigned_iff min_def)

lemma atoi_dec64: "int_range w \<Longrightarrow> ends_number rest \<Longrightarrow> atoi (dec64 w @ rest) = Ret (ucast w)"
  using of_int_sint32 [of w] by (simp add: dec64_def int_range_def atoi_dec)

lemma int_range_back:
  assumes "int_range w"
  shows "scast (ucast w :: u32) = w"
proof -
  have "sint (ucast w :: u32) = signed_take_bit 31 (sint w)"
    unfolding of_int_sint32 [symmetric] by (subst signed_of_int) simp
  also have "\<dots> = sint w" using assms by (intro signed_take_bit_int_eq_self) (auto simp: int_range_def)
  finally have "(of_int (sint (ucast w :: u32)) :: u64) = of_int (sint w)" by simp
  then show ?thesis by simp
qed

lemma dec_bytes: "b \<in> set (dec i) \<Longrightarrow> is_digit b \<or> b = 45"
  using digits_are_digits by (auto simp: dec_def split: if_splits)

lemma dec_clean [simp]: "0 \<notin> set (dec i)" "44 \<notin> set (dec i)" "10 \<notin> set (dec i)" "dec i \<noteq> []"
  using dec_bytes [of 0 i] dec_bytes [of 44 i] dec_bytes [of 10 i] by (auto simp: is_digit_unat) (simp add: dec_def split: if_splits)

subsection \<open>Lines\<close>

text \<open>\<^verbatim>\<open>fgets(line, size, file)\<close>: up to a newline, which is kept, but at most \<^verbatim>\<open>size - 1\<close> bytes; with the rest of the file.\<close>

definition fgets :: "nat \<Rightarrow> byte list \<Rightarrow> (byte list \<times> byte list) option" where
  "fgets n bs = (if bs = [] then None
     else let k = min (n - 1) (Suc (length (takeWhile (\<lambda>b. b \<noteq> 10) bs))) in Some (take k bs, drop k bs))"

lemma fgets_shorter: "fgets 4096 bs = Some (l, r) \<Longrightarrow> length r < length bs"
  by (cases bs) (auto simp: fgets_def Let_def)

text \<open>The lines that repeated calls give until the end of the file.\<close>

function file_lines :: "byte list \<Rightarrow> byte list list" where
  "file_lines bs = (case fgets 4096 bs of None \<Rightarrow> [] | Some (l, r) \<Rightarrow> l # file_lines r)"
  by pat_completeness auto
termination by (relation "measure length") (auto dest: fgets_shorter)

declare file_lines.simps [simp del]

text \<open>The array \<^verbatim>\<open>char line[4096]\<close>, cleared before every call.\<close>

definition line_buffer :: "byte list \<Rightarrow> byte list" where
  "line_buffer l = l @ replicate (4096 - length l) 0"

definition is_line :: "byte list \<Rightarrow> bool" where
  "is_line l \<longleftrightarrow> (\<exists>t. l = t @ [10] \<and> 10 \<notin> set t \<and> length t < 4095)"

lemma fgets_line: "is_line l \<Longrightarrow> fgets 4096 (l @ rest) = Some (l, rest)"
proof -
  assume "is_line l"
  then obtain t where t: "l = t @ [10]" "10 \<notin> set t" "length t < 4095" by (auto simp: is_line_def)
  then have "takeWhile (\<lambda>b. b \<noteq> 10) (t @ 10 # rest) = t" by (subst takeWhile_append2) auto
  with t show ?thesis by (simp add: fgets_def Let_def)
qed

lemma file_lines_step [simp]: "is_line l \<Longrightarrow> file_lines (l @ rest) = l # file_lines rest"
  by (subst file_lines.simps) (simp add: fgets_line)

lemma file_lines_Nil [simp]: "file_lines [] = []"
  by (simp add: file_lines.simps fgets_def)

lemma file_lines_concat: "\<forall>l\<in>set ls. is_line l \<Longrightarrow> file_lines (concat ls) = ls"
  by (induction ls) auto

subsection \<open>Tokens\<close>

text \<open>
  \<^verbatim>\<open>strtok(p, d)\<close> for a pointer into an array, given by the bytes from there to the end of the array:
  the delimiters in front are skipped, the token ends at a delimiter, which is overwritten, or at a NUL.
\<close>

definition strtok :: "byte \<Rightarrow> byte list \<Rightarrow> (byte list \<times> byte list) option outcome" where
  "strtok d bs =
     (let k = length (takeWhile (\<lambda>b. b = d) bs); tok = takeWhile (\<lambda>b. b \<noteq> 0 \<and> b \<noteq> d) (drop k bs)
      in if length bs \<le> k + length tok then Undef
         else if tok = [] then Ret None
         else Ret (Some (tok, bs[k + length tok := 0])))"

text \<open>
  \<^verbatim>\<open>token = strtok(line + copy_off, d); copy_off += strlen(token) + 1\<close>; without a token the pointer is
  NULL. The bytes from the new offset on are returned.
\<close>

definition next_token :: "byte \<Rightarrow> byte list \<Rightarrow> (byte list \<times> byte list) outcome" where
  "next_token d bs = obind (strtok d bs) (\<lambda>x.
     case x of None \<Rightarrow> Undef | Some (tok, bs') \<Rightarrow> Ret (tok, drop (Suc (length tok)) bs'))"

definition next_int :: "byte \<Rightarrow> byte list \<Rightarrow> (u32 \<times> byte list) outcome" where
  "next_int d bs = obind (next_token d bs) (\<lambda>(tok, r). obind (atoi tok) (\<lambda>v. Ret (v, r)))"

text \<open>An \<^verbatim>\<open>int\<close> that is stored into a \<^verbatim>\<open>long\<close>.\<close>

definition next_long :: "byte \<Rightarrow> byte list \<Rightarrow> (u64 \<times> byte list) outcome" where
  "next_long d bs = obind (next_int d bs) (\<lambda>(v, r). Ret (scast v, r))"

fun next_ints :: "nat \<Rightarrow> byte list \<Rightarrow> (u32 list \<times> byte list) outcome" where
  "next_ints 0 bs = Ret ([], bs)"
| "next_ints (Suc k) bs = obind (next_int 44 bs) (\<lambda>(v, r). obind (next_ints k r) (\<lambda>(vs, r'). Ret (v # vs, r')))"

lemma next_token_clean:
  assumes "tok \<noteq> []" "0 \<notin> set tok" "d \<notin> set tok" "d \<noteq> 0" "e = d \<or> e = 0"
  shows "next_token d (tok @ e # rest) = Ret (tok, rest)"
proof -
  have "takeWhile (\<lambda>b. b = d) (tok @ e # rest) = []" using assms(1,3) by (cases tok) auto
  moreover have "takeWhile (\<lambda>b. b \<noteq> 0 \<and> b \<noteq> d) (tok @ e # rest) = tok"
    using assms(2,3,5) by (subst takeWhile_append2) auto
  ultimately show ?thesis using assms(1) by (simp add: next_token_def strtok_def)
qed

interpretation int_field: codec "\<lambda>_. True" "\<lambda>w. dec32 w @ [44]" "next_int 44"
proof
  fix w rest
  have "next_token 44 (dec32 w @ 44 # rest) = Ret (dec32 w, rest)"
    by (rule next_token_clean) (simp_all add: dec32_def)
  then show "next_int 44 ((dec32 w @ [44]) @ rest) = Ret (w, rest)"
    using atoi_dec32 [of "[]" w] by (simp add: next_int_def)
qed

interpretation long_field: codec int_range "\<lambda>w. dec64 w @ [44]" "next_long 44"
proof
  fix w :: u64 and rest
  assume r: "int_range w"
  have "next_token 44 (dec64 w @ 44 # rest) = Ret (dec64 w, rest)"
    by (rule next_token_clean) (simp_all add: dec64_def)
  then show "next_long 44 ((dec64 w @ [44]) @ rest) = Ret (w, rest)"
    using atoi_dec64 [OF r, of "[]"] by (simp add: next_long_def next_int_def int_range_back [OF r])
qed

text \<open>The last field of a line, and a last field read up to a comma that does not come.\<close>

lemma next_int_last: "next_int 10 (dec32 w @ 10 # rest) = Ret (w, rest)"
proof -
  have "next_token 10 (dec32 w @ 10 # rest) = Ret (dec32 w, rest)"
    by (rule next_token_clean) (simp_all add: dec32_def)
  then show ?thesis using atoi_dec32 [of "[]" w] by (simp add: next_int_def)
qed

lemma next_int_newline: "next_int 44 (dec32 w @ 10 # 0 # rest) = Ret (w, rest)"
proof -
  have "next_token 44 ((dec32 w @ [10]) @ 0 # rest) = Ret (dec32 w @ [10], rest)"
    by (rule next_token_clean) (simp_all add: dec32_def)
  then show ?thesis using atoi_dec32 [of "[10]" w] by (simp add: next_int_def)
qed

definition int_fields :: "u32 list \<Rightarrow> byte list" where
  "int_fields ws = concat (map (\<lambda>w. dec32 w @ [44]) ws)"

lemma next_ints_fields: "next_ints (length ws) (int_fields ws @ rest) = Ret (ws, rest)"
proof (induction ws)
  case Nil
  then show ?case by (simp add: int_fields_def)
next
  case (Cons w ws)
  then show ?case
    using int_field.dec_enc [of w "int_fields ws @ rest"] by (simp add: int_fields_def)
qed

text \<open>The length of a printed number, for the lines to fit the buffer.\<close>

lemma length_digits: "n < 10 ^ k \<Longrightarrow> 0 < k \<Longrightarrow> length (dec_digits n) \<le> k"
proof (induction n arbitrary: k rule: dec_digits.induct)
  case (1 n)
  show ?case
  proof (cases "n < 10")
    case True
    with 1(3) show ?thesis by (simp add: dec_digits.simps [of n])
  next
    case False
    with 1(2) obtain j where j: "k = Suc j" "0 < j"
      by (cases k; cases "k - 1") auto
    with 1(2) have "n div 10 < 10 ^ j" by (simp add: less_mult_imp_div_less mult.commute)
    from 1(1) [OF False this j(2)] show ?thesis using j False by (simp add: dec_digits.simps [of n])
  qed
qed

lemma length_dec: "\<bar>i\<bar> < 10 ^ k \<Longrightarrow> 0 < k \<Longrightarrow> length (dec i) \<le> Suc k"
  using length_digits [of "nat i" k] length_digits [of "nat (- i)" k]
  by (cases "i < 0") (auto simp: dec_def nat_less_iff)

lemma length_dec32: "length (dec32 w) \<le> 11"
proof -
  have "\<bar>sint w\<bar> < 10 ^ 10" using sint_range_size [of w] by (auto simp: word_size)
  then show ?thesis using length_dec [of "sint w" 10] by (simp add: dec32_def)
qed

lemma length_dec64: "length (dec64 w) \<le> 20"
proof -
  have "\<bar>sint w\<bar> < 10 ^ 19" using sint_range_size [of w] by (auto simp: word_size)
  then show ?thesis using length_dec [of "sint w" 19] by (simp add: dec64_def)
qed

lemma length_int_fields: "length (int_fields ws) \<le> 12 * length ws"
proof (induction ws)
  case (Cons w ws)
  then show ?case using length_dec32 [of w] by (simp add: int_fields_def)
qed (simp add: int_fields_def)

end
