(* ===== verification/Persist.thy ===== *)
theory Persist
  imports Text_Format Fs_System
begin

text \<open>
  The tables on disk: at its start the service reads the inode table, the block table and the name
  table from text files under \<^verbatim>\<open>~/libfs\<close>, at its end it writes them back and frees the lists (the
  functions \<^verbatim>\<open>open_...\<close> and \<^verbatim>\<open>close_...\<close> of \<^verbatim>\<open>service/inode.c\<close>, called by \<^verbatim>\<open>main\<close>). Reading does not change
  the files. The line format and its parser are in \<open>Text_Format\<close>.
\<close>

subsection \<open>Writing a list and freeing it\<close>

text \<open>\<^verbatim>\<open>while (node) { fprintf(...); prev = node; node = node->next; free(prev); }\<close>\<close>

partial_function (option) dump_loop ::
  "('z node_scheme \<Rightarrow> byte list) \<Rightarrow> 'z heap \<Rightarrow> ptr \<Rightarrow> byte list \<Rightarrow> (byte list \<times> 'z heap) outcome option" where
  "dump_loop fmt h p out =
     (case p of None \<Rightarrow> Some (Ret (out, h))
      | Some a \<Rightarrow> (case h a of None \<Rightarrow> Some Undef
         | Some n \<Rightarrow> dump_loop fmt (h(a := None)) (nxt n) (out @ fmt n)))"

definition dump_list :: "('z node_scheme \<Rightarrow> byte list) \<Rightarrow> 'z heap \<Rightarrow> ptr \<Rightarrow> (byte list \<times> 'z heap) outcome" where
  "dump_list fmt h p = (case dump_loop fmt h p [] of None \<Rightarrow> Diverge | Some r \<Rightarrow> r)"

lemma dump_loop_path:
  "dpath h pr p as None \<Longrightarrow> distinct as \<Longrightarrow>
   \<exists>h'. dump_loop fmt h p out = Some (Ret (out @ concat (map (\<lambda>a. fmt (the (h a))) as), h'))"
proof (induction as arbitrary: h pr p out)
  case Nil
  then show ?case by (simp add: dump_loop.simps)
next
  case (Cons a as)
  then obtain n where n: "p = Some a" "h a = Some n" "dpath h (Some a) (nxt n) as None"
    by (auto split: option.splits)
  have "dpath (h(a := None)) (Some a) (nxt n) as None" using n(3) Cons.prems(2) by simp
  moreover have "distinct as" using Cons.prems(2) by simp
  ultimately obtain h' where
    h': "dump_loop fmt (h(a := None)) (nxt n) (out @ fmt n) =
      Some (Ret ((out @ fmt n) @ concat (map (\<lambda>b. fmt (the ((h(a := None)) b))) as), h'))"
    using Cons.IH by blast
  moreover have "map (\<lambda>b. fmt (the ((h(a := None)) b))) as = map (\<lambda>b. fmt (the (h b))) as"
    using Cons.prems(2) by (intro map_cong) auto
  ultimately show ?case using n by (subst dump_loop.simps) (simp del: map_eq_conv fun_upd_apply)
qed

lemma dump_list_is [c_spec]:
  assumes tab: "table_is t xs" and fmt: "\<And>n. fmt (strip n) = fmt n"
  shows "\<exists>h. dump_list fmt (cells t) (head t) = Ret (concat (map fmt xs), h)"
proof -
  from tab obtain as where wf: "table_wf t as" and xs: "xs = view (cells t) as" by (auto simp: table_is_def)
  from wf have "dpath (cells t) None (head t) as None" "distinct as" by (auto simp: table_wf_def)
  from dump_loop_path [OF this, of fmt "[]"] show ?thesis
    by (auto simp: dump_list_def xs view_def fmt comp_def)
qed

text \<open>A list whose head was freed cannot be written.\<close>

lemma dump_list_freed: "h a = None \<Longrightarrow> dump_list fmt h (Some a) = Undef"
  by (simp add: dump_list_def dump_loop.simps)

subsection \<open>The inode table\<close>

definition inode_line :: "inode_t \<Rightarrow> byte list" where
  "inode_line n =
     int_fields [index n, ftype n, owner n, owner_group n, ref_count n] @
     dec64 (mode n) @ [44] @ dec64 (st_size (stat n)) @ [44] @ dec64 (tv_sec (st_atim (stat n))) @ [44] @
     dec64 (tv_sec (st_mtim (stat n))) @ [44] @ dec64 (tv_sec (st_ctim (stat n))) @ [44] @
     int_fields (take 99 (data_blocks n)) @ dec32 (data_blocks n ! 99) @ [10]"

definition close_inode_table :: "inode_table_t \<Rightarrow> host \<Rightarrow> (status \<times> host) outcome" where
  "close_inode_table t h = obind (libfs_path h ''/inodes'') (\<lambda>p.
     case fopen h p F_w of None \<Rightarrow> Exit
     | Some h1 \<Rightarrow> obind (dump_list inode_line (cells t) (head t)) (\<lambda>(out, _).
         Ret (SUCCESS, fwrite_at h1 p 0 out)))"

text \<open>
  Only the seconds of a time are stored. The nanoseconds are computed from the same token, by
  \<^verbatim>\<open>atoi(token) * 1000000\<close> in an \<^verbatim>\<open>int\<close>: for a time after the first 2147 seconds of 1970 the product
  overflows, and is taken to wrap around, as compiled code does.
\<close>

definition loaded_time :: "u32 \<Rightarrow> timespec" where
  "loaded_time v = \<lparr>tv_sec = scast v, tv_nsec = scast (v * 1000000)\<rparr>"

definition scan_inode :: "byte list \<Rightarrow> inode_t outcome" where
  "scan_inode l =
     obind (next_int 44 l) (\<lambda>(i, l1).
     obind (next_int 44 l1) (\<lambda>(ty, l2).
     obind (next_int 44 l2) (\<lambda>(own, l3).
     obind (next_int 44 l3) (\<lambda>(grp, l4).
     obind (next_int 44 l4) (\<lambda>(refs, l5).
     obind (next_long 44 l5) (\<lambda>(md, l6).
     obind (next_long 44 l6) (\<lambda>(sz, l7).
     obind (next_int 44 l7) (\<lambda>(atim, l8).
     obind (next_int 44 l8) (\<lambda>(mtim, l9).
     obind (next_int 44 l9) (\<lambda>(ctim, l10).
     obind (next_ints 99 l10) (\<lambda>(bl, l11).
     obind (next_int 10 l11) (\<lambda>(b, _).
       Ret \<lparr>nxt = None, prv = None, index = i, ftype = ty,
         stat = \<lparr>st_size = sz, st_atim = loaded_time atim, st_mtim = loaded_time mtim, st_ctim = loaded_time ctim\<rparr>,
         mode = md, owner = own, owner_group = grp, ref_count = refs, data_blocks = bl @ [b]\<rparr>))))))))))))"

text \<open>The loop over the lines; every node is linked in behind the last one.\<close>

fun load_inodes :: "byte list list \<Rightarrow> inode_table_t \<Rightarrow> inode_table_t outcome" where
  "load_inodes [] t = Ret t"
| "load_inodes (l # ls) t = obind (scan_inode (line_buffer l)) (\<lambda>n.
     obind (append_cell (\<lambda>_. n) t) (\<lambda>(_, t'). load_inodes ls t'))"

definition open_inode_table :: "inode_table_t \<Rightarrow> host \<Rightarrow> (status \<times> inode_table_t) outcome" where
  "open_inode_table t h = obind (libfs_path h ''/inodes'') (\<lambda>p.
     case fopen h p F_r of None \<Rightarrow> Ret (SUCCESS, t)
     | Some h1 \<Rightarrow> obind (load_inodes (file_lines (contents h1 p)) t) (\<lambda>t'. Ret (SUCCESS, t')))"

subsection \<open>The block table\<close>

text \<open>\<^verbatim>\<open>fprintf(data_block_file, "%d,%d\n", ...)\<close>; a \<^verbatim>\<open>bool\<close> prints as 0 or 1.\<close>

definition block_line :: "data_block_t \<Rightarrow> byte list" where
  "block_line b = dec32 (if allocated b then 1 else 0) @ [44] @ dec32 (inode_index b) @ [10]"

definition close_data_block_table :: "data_block_t list \<Rightarrow> host \<Rightarrow> (status \<times> host) outcome" where
  "close_data_block_table t h = obind (libfs_path h ''/data-blocks'') (\<lambda>p.
     case fopen h p F_w of None \<Rightarrow> Exit
     | Some h1 \<Rightarrow> if length t < NUM_OF_DATA_BLOCKS then Undef
         else Ret (SUCCESS, fwrite_at h1 p 0 (concat (map block_line (take NUM_OF_DATA_BLOCKS t)))))"

text \<open>
  The second number of a line is read up to a comma that does not come; a third token is looked for and not
  used. The function fails as soon as 1000 lines have been read, which is what it wrote itself.
\<close>

fun load_blocks :: "nat \<Rightarrow> byte list list \<Rightarrow> data_block_t list \<Rightarrow> (status \<times> data_block_t list) outcome" where
  "load_blocks i [] t = Ret (SUCCESS, t)"
| "load_blocks i (l # ls) t =
     obind (next_int 44 (line_buffer l)) (\<lambda>(v, l1).
     obind (next_int 44 l1) (\<lambda>(w, l2).
     obind (strtok 44 l2) (\<lambda>_.
       let t' = t[i := \<lparr>allocated = (v \<noteq> 0), inode_index = w\<rparr>]
       in if NUM_OF_DATA_BLOCKS \<le> Suc i then Ret (FAILURE, t') else load_blocks (Suc i) ls t')))"

definition open_data_block_table :: "host \<Rightarrow> (status \<times> data_block_t list) outcome" where
  "open_data_block_table h =
     (let t = replicate NUM_OF_DATA_BLOCKS \<lparr>allocated = False, inode_index = 0\<rparr>
      in obind (libfs_path h ''/data-blocks'') (\<lambda>p.
         case fopen h p F_r of None \<Rightarrow> Ret (SUCCESS, t)
         | Some h1 \<Rightarrow> load_blocks 0 (file_lines (contents h1 p)) t))"

subsection \<open>The name table\<close>

definition name_line :: "filename_inode_t \<Rightarrow> byte list" where
  "name_line e = dec32 (node_index e) @ [44] @ filename e @ [10]"

definition close_filename_table :: "filename_table_t \<Rightarrow> host \<Rightarrow> (status \<times> host) outcome" where
  "close_filename_table t h = obind (libfs_path h ''/filenames'') (\<lambda>p.
     case fopen h p F_w of None \<Rightarrow> Exit
     | Some h1 \<Rightarrow> obind (dump_list name_line (cells t) (head t)) (\<lambda>(out, _).
         Ret (SUCCESS, fwrite_at h1 p 0 out)))"

definition scan_name :: "byte list \<Rightarrow> filename_inode_t outcome" where
  "scan_name l = obind (next_int 44 l) (\<lambda>(i, l1). obind (next_token 10 l1) (\<lambda>(name, _).
     if length name < MAX_FILENAME_LEN then Ret (name_entry name i) else Undef))"

fun load_names :: "byte list list \<Rightarrow> filename_table_t \<Rightarrow> filename_table_t outcome" where
  "load_names [] t = Ret t"
| "load_names (l # ls) t = obind (scan_name (line_buffer l)) (\<lambda>n.
     obind (append_cell (\<lambda>_. n) t) (\<lambda>(_, t'). load_names ls t'))"

definition open_filename_table :: "filename_table_t \<Rightarrow> host \<Rightarrow> (status \<times> filename_table_t) outcome" where
  "open_filename_table t h = obind (libfs_path h ''/filenames'') (\<lambda>p.
     case fopen h p F_r of None \<Rightarrow> Ret (SUCCESS, t)
     | Some h1 \<Rightarrow> obind (load_names (file_lines (contents h1 p)) t) (\<lambda>t'. Ret (SUCCESS, t')))"

subsection \<open>Start and end of the service\<close>

text \<open>Freeing the descriptors, which are not stored.\<close>

definition close_file_descriptors_table :: "descriptor_table_t \<Rightarrow> status outcome" where
  "close_file_descriptors_table t = obind (dump_list (\<lambda>_. []) (cells t) (head t)) (\<lambda>_. Ret SUCCESS)"

text \<open>The calls in \<^verbatim>\<open>main\<close>, which ignores the results. The process starts with empty lists.\<close>

definition start_tables :: "host \<Rightarrow> (nat \<Rightarrow> timespec) \<Rightarrow> fs outcome" where
  "start_tables h clk =
     obind (open_inode_table empty_table h) (\<lambda>(_, it).
     obind (open_data_block_table h) (\<lambda>(_, bt).
     obind (open_filename_table empty_table h) (\<lambda>(_, ft).
       Ret \<lparr>inode_table = it, descriptor_table = empty_table, filename_table = ft,
         data_disk = \<lparr>data_block_table = bt, host = h\<rparr>, clock = clk, ticks = 0\<rparr>)))"

definition end_tables :: "fs \<Rightarrow> host outcome" where
  "end_tables s =
     obind (close_inode_table (inode_table s) (host (data_disk s))) (\<lambda>(_, h1).
     obind (close_file_descriptors_table (descriptor_table s)) (\<lambda>_.
     obind (close_data_block_table (data_block_table (data_disk s)) h1) (\<lambda>(_, h2).
     obind (close_filename_table (filename_table s) h2) (\<lambda>(_, h3).
       Ret h3))))"

end
