(* ===== verification/Restart.thy ===== *)
theory Restart
  imports Persist
begin

text \<open>
  What the service finds after a restart: reading the files it wrote gives the tables back, except for
  the open descriptors and the nanoseconds of the times.
\<close>

subsection \<open>Reading a line back\<close>

definition reload_time :: "timespec \<Rightarrow> timespec" where
  "reload_time t = loaded_time (ucast (tv_sec t))"

definition reload_inode :: "inode_t \<Rightarrow> inode_t" where
  "reload_inode n = n\<lparr>nxt := None, prv := None, stat := \<lparr>st_size = st_size (stat n),
     st_atim = reload_time (st_atim (stat n)), st_mtim = reload_time (st_mtim (stat n)),
     st_ctim = reload_time (st_ctim (stat n))\<rparr>\<rparr>"

text \<open>What the text can hold: \<open>atoi\<close> reads an \<^verbatim>\<open>int\<close>, and a name is a non-empty token of one line.\<close>

definition inode_storable :: "inode_t \<Rightarrow> bool" where
  "inode_storable n \<longleftrightarrow> length (data_blocks n) = FILE_MAX_BLOCKS \<and> int_range (mode n) \<and>
     int_range (st_size (stat n)) \<and> int_range (tv_sec (st_atim (stat n))) \<and>
     int_range (tv_sec (st_mtim (stat n))) \<and> int_range (tv_sec (st_ctim (stat n)))"

definition name_storable :: "filename_inode_t \<Rightarrow> bool" where
  "name_storable e \<longleftrightarrow> filename e \<noteq> [] \<and> str_ok (filename e) \<and> 10 \<notin> set (filename e)"

text \<open>So for all the tables.\<close>

definition storable :: "afs \<Rightarrow> bool" where
  "storable a \<longleftrightarrow> (\<forall>n\<in>set (a_inodes a). inode_storable n) \<and> (\<forall>e\<in>set (a_names a). name_storable e)"

lemma next_int_field [simp]: "next_int 44 (dec32 w @ 44 # rest) = Ret (w, rest)"
  using int_field.dec_enc [of w rest] by simp

lemma next_long_field [simp]: "int_range w \<Longrightarrow> next_long 44 (dec64 w @ 44 # rest) = Ret (w, rest)"
  using long_field.dec_enc [of w rest] by simp

lemma next_int_seconds [simp]: "int_range w \<Longrightarrow> next_int 44 (dec64 w @ 44 # rest) = Ret (ucast w, rest)"
proof -
  assume r: "int_range w"
  have "next_token 44 (dec64 w @ 44 # rest) = Ret (dec64 w, rest)"
    by (rule next_token_clean) (simp_all add: dec64_def)
  then show ?thesis using atoi_dec64 [OF r, of "[]"] by (simp add: next_int_def)
qed

lemma int_fields_simps [simp]: "int_fields [] = []" "int_fields (w # ws) = dec32 w @ 44 # int_fields ws"
  by (simp_all add: int_fields_def)

lemma next_ints_99 [simp]: "length ws = 99 \<Longrightarrow> next_ints 99 (int_fields ws @ rest) = Ret (ws, rest)"
  using next_ints_fields [of ws rest] by simp

lemma scan_inode_line:
  assumes "inode_storable n"
  shows "scan_inode (line_buffer (inode_line n)) = Ret (reload_inode n)"
proof -
  let ?bl = "data_blocks n"
  have l: "length ?bl = 100" using assms by (simp add: inode_storable_def)
  then have "take 99 ?bl @ [?bl ! 99] = ?bl" using take_Suc_conv_app_nth [of 99 ?bl] by simp
  with assms l show ?thesis
    by (simp add: inode_storable_def scan_inode_def inode_line_def line_buffer_def next_int_last
        reload_inode_def reload_time_def)
qed

lemma int_fields_clean: "10 \<notin> set (int_fields ws)"
  by (induction ws) (simp_all add: dec32_def)

lemma inode_line_is_line:
  assumes "inode_storable n"
  shows "is_line (inode_line n)"
proof -
  let ?a = "int_fields [index n, ftype n, owner n, owner_group n, ref_count n]"
  let ?b = "dec64 (mode n) @ [44] @ dec64 (st_size (stat n)) @ [44] @ dec64 (tv_sec (st_atim (stat n))) @ [44] @
     dec64 (tv_sec (st_mtim (stat n))) @ [44] @ dec64 (tv_sec (st_ctim (stat n))) @ [44]"
  let ?c = "int_fields (take 99 (data_blocks n)) @ dec32 (data_blocks n ! 99)"
  have "length (?a @ ?b @ ?c) < 4095"
  proof -
    have "length ?a \<le> 60" using length_int_fields [of "[index n, ftype n, owner n, owner_group n, ref_count n]"]
      by (simp del: int_fields_simps)
    moreover have "length ?b \<le> 105" using length_dec64 [of "mode n"] length_dec64 [of "st_size (stat n)"]
      length_dec64 [of "tv_sec (st_atim (stat n))"] length_dec64 [of "tv_sec (st_mtim (stat n))"]
      length_dec64 [of "tv_sec (st_ctim (stat n))"] by simp
    moreover have "length ?c \<le> 1199"
      using length_int_fields [of "take 99 (data_blocks n)"] length_dec32 [of "data_blocks n ! 99"] by simp
    ultimately show ?thesis by (simp del: int_fields_simps)
  qed
  moreover have "10 \<notin> set (?a @ ?b @ ?c)"
    by (simp add: int_fields_clean dec32_def dec64_def)
  moreover have "inode_line n = (?a @ ?b @ ?c) @ [10]" by (simp add: inode_line_def)
  ultimately show ?thesis unfolding is_line_def by blast
qed

lemma scan_name_line:
  assumes "name_storable e"
  shows "scan_name (line_buffer (name_line e)) = Ret (name_entry (filename e) (node_index e))"
proof -
  have "next_token 10 (filename e @ 10 # rest) = Ret (filename e, rest)" for rest
    using assms by (intro next_token_clean) (auto simp: name_storable_def str_ok_def)
  then show ?thesis using assms
    by (simp add: scan_name_def name_line_def line_buffer_def name_storable_def str_ok_def)
qed

lemma name_line_is_line: "name_storable e \<Longrightarrow> is_line (name_line e)"
  unfolding is_line_def name_line_def using length_dec32 [of "node_index e"]
  by (intro exI [of _ "dec32 (node_index e) @ [44] @ filename e"])
    (auto simp: name_storable_def str_ok_def dec32_def)

lemma block_line_is_line: "is_line (block_line b)"
  unfolding is_line_def block_line_def
  using length_dec32 [of "inode_index b"] length_dec32 [of "if allocated b then 1 else 0"]
  by (intro exI [of _ "dec32 (if allocated b then 1 else 0) @ [44] @ dec32 (inode_index b)"])
    (auto simp: dec32_def)

subsection \<open>Loading the lists\<close>

lemma append_loaded:
  assumes "table_is t xs"
  obtains n' t' where "append_cell (\<lambda>_. n) t = Ret (n', t')" "table_is t' (xs @ [strip n])"
  using append_cell_is [OF assms, of "\<lambda>_. n"] by (auto simp: that)

lemma load_inodes_lines:
  "table_is t xs \<Longrightarrow> \<forall>n\<in>set is. inode_storable n \<Longrightarrow>
   \<exists>t'. load_inodes (map inode_line is) t = Ret t' \<and> table_is t' (xs @ map reload_inode is)"
proof (induction "is" arbitrary: t xs)
  case Nil
  then show ?case by simp
next
  case (Cons n "is")
  obtain n' t1 where t1: "append_cell (\<lambda>_. reload_inode n) t = Ret (n', t1)" "table_is t1 (xs @ [strip (reload_inode n)])"
    by (rule append_loaded [OF Cons.prems(1)])
  have "strip (reload_inode n) = reload_inode n" by (simp add: strip_def reload_inode_def)
  with Cons.IH [OF t1(2)] Cons.prems(2) t1(1) show ?case by (simp add: scan_inode_line)
qed

lemma load_names_lines:
  "table_is t xs \<Longrightarrow> \<forall>e\<in>set es. name_storable e \<Longrightarrow>
   \<exists>t'. load_names (map name_line es) t = Ret t' \<and>
     table_is t' (xs @ map (\<lambda>e. name_entry (filename e) (node_index e)) es)"
proof (induction es arbitrary: t xs)
  case Nil
  then show ?case by simp
next
  case (Cons e es)
  let ?e = "name_entry (filename e) (node_index e)"
  obtain n' t1 where t1: "append_cell (\<lambda>_. ?e) t = Ret (n', t1)" "table_is t1 (xs @ [strip ?e])"
    by (rule append_loaded [OF Cons.prems(1)])
  have "strip ?e = ?e" by (simp add: strip_def)
  with Cons.IH [OF t1(2)] Cons.prems(2) t1(1) show ?case by (simp add: scan_name_line)
qed

lemma block_eta: "x = allocated b \<Longrightarrow> \<lparr>allocated = x, inode_index = inode_index b\<rparr> = b"
  by simp

lemma load_block_line:
  "load_blocks i (block_line b # ls) t =
     (let t' = t[i := b]
      in if 1000 \<le> Suc i then Ret (FAILURE, t') else load_blocks (Suc i) ls t')"
proof -
  let ?w = "if allocated b then 1 else (0 :: u32)"
  let ?l = "block_line b"
  define k where "k = 4094 - length ?l"
  have "length ?l \<le> 24"
    using length_dec32 [of ?w] length_dec32 [of "inode_index b"] by (simp add: block_line_def)
  then have "4096 - length ?l = Suc (Suc k)" by (simp add: k_def)
  then have buf: "line_buffer ?l = dec32 ?w @ 44 # dec32 (inode_index b) @ 10 # 0 # 0 # replicate k 0"
    by (simp only: line_buffer_def replicate_Suc) (simp add: block_line_def)
  have "strtok 44 (0 # replicate k 0) = Ret None" by (simp add: strtok_def)
  then show ?thesis
    by (cases "allocated b") (simp_all add: buf next_int_newline NUM_OF_DATA_BLOCKS_def Let_def block_eta)
qed

lemma load_blocks_lines:
  "i + length bs = 1000 \<Longrightarrow> bs \<noteq> [] \<Longrightarrow> length t = 1000 \<Longrightarrow>
   load_blocks i (map block_line bs) t = Ret (FAILURE, take i t @ bs)"
proof (induction bs arbitrary: i t)
  case Nil
  then show ?case by simp
next
  case (Cons b bs)
  let ?t = "t[i := b]"
  have i: "i < 1000" using Cons.prems(1) by simp
  then have tk: "take (Suc i) ?t = take i t @ [b]" using Cons.prems(3) by (simp add: take_Suc_conv_app_nth)
  show ?case
  proof (cases "bs = []")
    case True
    then have "take (Suc i) ?t = ?t" using Cons.prems by simp
    with tk True Cons.prems show ?thesis by (simp add: load_block_line Let_def del: load_blocks.simps(2))
  next
    case False
    with Cons.prems have "\<not> 1000 \<le> Suc i" by (cases bs) auto
    with Cons.IH [of "Suc i" ?t] Cons.prems False tk show ?thesis
      by (simp add: load_block_line Let_def del: load_blocks.simps(2))
  qed
qed

subsection \<open>The files\<close>

definition table_files :: "string list" where
  "table_files = [''/inodes'', ''/data-blocks'', ''/filenames'']"

definition store_path :: "string \<Rightarrow> string \<Rightarrow> string" where
  "store_path dir f = dir @ ''/libfs'' @ f"

lemma store_path_eq [simp]: "store_path dir f = store_path dir g \<longleftrightarrow> f = g"
  by (simp add: store_path_def)

lemma libfs_store_path: "pw_dir h = Some dir \<Longrightarrow> libfs_path h f = Ret (store_path dir f)"
  by (simp add: libfs_path_def store_path_def)

text \<open>The service's files can be opened.\<close>

definition store_ok :: "string \<Rightarrow> host \<Rightarrow> bool" where
  "store_ok dir h \<longleftrightarrow> pw_dir h = Some dir \<and> (\<forall>f\<in>set table_files. can_open h (store_path dir f))"

definition store_file :: "string \<Rightarrow> string \<Rightarrow> byte list \<Rightarrow> host \<Rightarrow> host" where
  "store_file dir f out h = h\<lparr>files := (files h)(store_path dir f \<mapsto> out)\<rparr>"

lemma store_file_simps [simp]:
  "pw_dir (store_file dir f out h) = pw_dir h" "can_open (store_file dir f out h) = can_open h"
  "files (store_file dir f out h) (store_path dir g) = (if g = f then Some out else files h (store_path dir g))"
  "store_ok dir (store_file dir f out h) = store_ok dir h"
  by (simp_all add: store_file_def store_ok_def)

lemma write_file:
  "can_open h p \<Longrightarrow> \<exists>h1. fopen h p F_w = Some h1 \<and> fwrite_at h1 p 0 out = h\<lparr>files := (files h)(p \<mapsto> out)\<rparr>"
  by (simp add: fopen_def fwrite_at_def contents_def overwrite_def)

lemma close_inode_table_store:
  assumes "store_ok dir h" "table_is t is"
  shows "close_inode_table t h = Ret (SUCCESS, store_file dir ''/inodes'' (concat (map inode_line is)) h)"
proof -
  let ?p = "store_path dir ''/inodes''"
  have o: "pw_dir h = Some dir" "can_open h ?p" using assms(1) by (simp_all add: store_ok_def table_files_def)
  obtain h1 where "fopen h ?p F_w = Some h1"
    "fwrite_at h1 ?p 0 (concat (map inode_line is)) = h\<lparr>files := (files h)(?p \<mapsto> concat (map inode_line is))\<rparr>"
    using write_file [OF o(2)] by blast
  moreover have "inode_line (strip n) = inode_line n" for n by (simp add: inode_line_def strip_def)
  ultimately show ?thesis using dump_list_is [OF assms(2), of inode_line] o(1)
    by (auto simp: close_inode_table_def libfs_store_path store_file_def)
qed

lemma close_filename_table_store:
  assumes "store_ok dir h" "table_is t es"
  shows "close_filename_table t h = Ret (SUCCESS, store_file dir ''/filenames'' (concat (map name_line es)) h)"
proof -
  let ?p = "store_path dir ''/filenames''"
  have o: "pw_dir h = Some dir" "can_open h ?p" using assms(1) by (simp_all add: store_ok_def table_files_def)
  obtain h1 where "fopen h ?p F_w = Some h1"
    "fwrite_at h1 ?p 0 (concat (map name_line es)) = h\<lparr>files := (files h)(?p \<mapsto> concat (map name_line es))\<rparr>"
    using write_file [OF o(2)] by blast
  moreover have "name_line (strip n) = name_line n" for n by (simp add: name_line_def strip_def)
  ultimately show ?thesis using dump_list_is [OF assms(2), of name_line] o(1)
    by (auto simp: close_filename_table_def libfs_store_path store_file_def)
qed

lemma close_data_block_table_store:
  assumes "store_ok dir h" "length t = NUM_OF_DATA_BLOCKS"
  shows "close_data_block_table t h = Ret (SUCCESS, store_file dir ''/data-blocks'' (concat (map block_line t)) h)"
proof -
  let ?p = "store_path dir ''/data-blocks''"
  have o: "pw_dir h = Some dir" "can_open h ?p" using assms(1) by (simp_all add: store_ok_def table_files_def)
  obtain h1 where "fopen h ?p F_w = Some h1"
    "fwrite_at h1 ?p 0 (concat (map block_line t)) = h\<lparr>files := (files h)(?p \<mapsto> concat (map block_line t))\<rparr>"
    using write_file [OF o(2)] by blast
  then show ?thesis using o(1) assms(2)
    by (simp add: close_data_block_table_def libfs_store_path store_file_def)
qed

lemma close_descriptors: "table_is t ds \<Longrightarrow> close_file_descriptors_table t = Ret SUCCESS"
  using dump_list_is [of t ds "\<lambda>_. []"] by (auto simp: close_file_descriptors_table_def)

text \<open>What the end of the service leaves on the host.\<close>

definition stored :: "string \<Rightarrow> afs \<Rightarrow> host" where
  "stored dir a = store_file dir ''/filenames'' (concat (map name_line (a_names a)))
     (store_file dir ''/data-blocks'' (concat (map block_line (data_block_table (a_disk a))))
       (store_file dir ''/inodes'' (concat (map inode_line (a_inodes a))) (host (a_disk a))))"

lemma end_tables_stored:
  assumes "fs_rel s a" "store_ok dir (host (a_disk a))" "length (data_block_table (a_disk a)) = NUM_OF_DATA_BLOCKS"
  shows "end_tables s = Ret (stored dir a)"
proof -
  from assms(1) have t: "table_is (inode_table s) (a_inodes a)" "table_is (descriptor_table s) (a_descs a)"
    "table_is (filename_table s) (a_names a)" "data_disk s = a_disk a" by (simp_all add: fs_rel_def)
  show ?thesis using assms(2,3) t(4)
    by (simp add: end_tables_def close_inode_table_store [OF _ t(1)] close_descriptors [OF t(2)]
        close_data_block_table_store [where dir = dir] close_filename_table_store [where dir = dir, OF _ t(3)] stored_def)
qed

subsection \<open>Starting again\<close>

definition start_state :: "host \<Rightarrow> (nat \<Rightarrow> timespec) \<Rightarrow> afs \<Rightarrow> afs" where
  "start_state h clk a = \<lparr>a_names = map (\<lambda>e. name_entry (filename e) (node_index e)) (a_names a), a_descs = [],
     a_inodes = map reload_inode (a_inodes a),
     a_disk = \<lparr>data_block_table = data_block_table (a_disk a), host = h\<rparr>, a_clock = clk, a_ticks = 0\<rparr>"

lemma stored_simps [simp]:
  "files (stored dir a) (store_path dir ''/inodes'') = Some (concat (map inode_line (a_inodes a)))"
  "files (stored dir a) (store_path dir ''/data-blocks'') = Some (concat (map block_line (data_block_table (a_disk a))))"
  "files (stored dir a) (store_path dir ''/filenames'') = Some (concat (map name_line (a_names a)))"
  "g \<notin> set table_files \<Longrightarrow> files (stored dir a) (store_path dir g) = files (host (a_disk a)) (store_path dir g)"
  "pw_dir (stored dir a) = pw_dir (host (a_disk a))" "can_open (stored dir a) = can_open (host (a_disk a))"
  "store_ok dir (stored dir a) = store_ok dir (host (a_disk a))"
  by (simp_all add: stored_def table_files_def)

lemma open_stored:
  assumes "store_ok dir h" "f \<in> set table_files" "files h (store_path dir f) = Some c"
  shows "libfs_path h f = Ret (store_path dir f)" "fopen h (store_path dir f) F_r = Some h"
    "contents h (store_path dir f) = c"
  using assms by (simp_all add: store_ok_def libfs_store_path fopen_def contents_def)

lemma open_blocks_file:
  assumes "store_ok dir h" "files h (store_path dir ''/data-blocks'') = Some (concat (map block_line bt))"
    "length bt = NUM_OF_DATA_BLOCKS"
  shows "open_data_block_table h = Ret (FAILURE, bt)"
proof -
  have l: "length bt = 1000" using assms(3) by (simp add: NUM_OF_DATA_BLOCKS_def)
  then have "bt \<noteq> []" by auto
  have f: "''/data-blocks'' \<in> set table_files" by (simp add: table_files_def)
  have "file_lines (concat (map block_line bt)) = map block_line bt"
    by (rule file_lines_concat) (auto simp: block_line_is_line)
  then show ?thesis using open_stored [OF assms(1) f assms(2)] load_blocks_lines [of 0 bt] l \<open>bt \<noteq> []\<close>
    by (simp add: open_data_block_table_def NUM_OF_DATA_BLOCKS_def Let_def)
qed

lemma open_blocks_stored:
  assumes "store_ok dir (host (a_disk a))" "length (data_block_table (a_disk a)) = NUM_OF_DATA_BLOCKS"
  shows "open_data_block_table (stored dir a) = Ret (FAILURE, data_block_table (a_disk a))"
  using assms by (intro open_blocks_file [of dir]) simp_all

lemma open_inodes_stored:
  assumes "store_ok dir (host (a_disk a))" "\<forall>n\<in>set (a_inodes a). inode_storable n"
  shows "\<exists>t. open_inode_table empty_table (stored dir a) = Ret (SUCCESS, t) \<and> table_is t (map reload_inode (a_inodes a))"
proof -
  note o = open_stored [OF _ _ stored_simps(1), of dir a]
  have "file_lines (concat (map inode_line (a_inodes a))) = map inode_line (a_inodes a)"
    using assms(2) by (intro file_lines_concat) (auto simp: inode_line_is_line)
  then show ?thesis using o assms(1) load_inodes_lines [OF table_is_empty assms(2)]
    by (auto simp: open_inode_table_def table_files_def)
qed

lemma open_names_stored:
  assumes "store_ok dir (host (a_disk a))" "\<forall>e\<in>set (a_names a). name_storable e"
  shows "\<exists>t. open_filename_table empty_table (stored dir a) = Ret (SUCCESS, t) \<and>
    table_is t (map (\<lambda>e. name_entry (filename e) (node_index e)) (a_names a))"
proof -
  note o = open_stored [OF _ _ stored_simps(3), of dir a]
  have "file_lines (concat (map name_line (a_names a))) = map name_line (a_names a)"
    using assms(2) by (intro file_lines_concat) (auto simp: name_line_is_line)
  then show ?thesis using o assms(1) load_names_lines [OF table_is_empty assms(2)]
    by (auto simp: open_filename_table_def table_files_def)
qed

lemma start_tables_stored:
  assumes "store_ok dir (host (a_disk a))" "length (data_block_table (a_disk a)) = NUM_OF_DATA_BLOCKS"
    "\<forall>n\<in>set (a_inodes a). inode_storable n" "\<forall>e\<in>set (a_names a). name_storable e"
  shows "\<exists>s. start_tables (stored dir a) clk = Ret s \<and> fs_rel s (start_state (stored dir a) clk a)"
proof -
  obtain it where "open_inode_table empty_table (stored dir a) = Ret (SUCCESS, it)"
    "table_is it (map reload_inode (a_inodes a))" using open_inodes_stored [OF assms(1,3)] by blast
  moreover obtain ft where "open_filename_table empty_table (stored dir a) = Ret (SUCCESS, ft)"
    "table_is ft (map (\<lambda>e. name_entry (filename e) (node_index e)) (a_names a))"
    using open_names_stored [OF assms(1,4)] by blast
  ultimately show ?thesis
    by (simp add: start_tables_def open_blocks_stored [OF assms(1,2)] fs_rel_def start_state_def table_is_empty)
qed

subsection \<open>The contents of the files\<close>

text \<open>Reading depends on the data file and the passwd entry only.\<close>

lemma read_loop_cong:
  assumes "\<And>b buf pos off n. rd b buf pos off n d = rd b buf pos off n d'"
  shows "read_loop rd bl n co off cb buf d = read_loop rd bl n co off cb buf d'"
  using assms
proof (induction rd bl n co off cb buf d rule: read_loop.induct)
  case (1 rd bl n co off cb buf d)
  define room where "room = 4096 - off mod 4096"
  define m where "m = (if room < n then room else n)"
  define k where "k = (if 4096 < m then 4096 else m)"
  have "read_loop rd bl (n - k) (co + k) (off + k) (cb + 1) buf' d =
      read_loop rd bl (n - k) (co + k) (off + k) (cb + 1) buf' d'"
    if "n \<noteq> 0" "\<not> length bl \<le> unat cb"
      "rd (bl ! unat cb - 1) buf (unat co) (off mod 4096) k d' = Ret (SUCCESS, buf')" for buf'
    using 1(1) [OF that(1) room_def m_def k_def that(2) _ refl] that(3) 1(2) by simp
  then show ?case
    unfolding read_loop.simps [of _ _ n] Let_def room_def [symmetric] m_def [symmetric] k_def [symmetric] 1(2)
    by (auto intro!: obind_cong)
qed

definition same_data :: "disk \<Rightarrow> disk \<Rightarrow> bool" where
  "same_data d d' \<longleftrightarrow> pw_dir (host d') = pw_dir (host d) \<and> can_open (host d') = can_open (host d) \<and>
     (\<forall>p. libfs_path (host d) ''/data'' = Ret p \<longrightarrow> files (host d') p = files (host d) p)"

lemma read_slot_same: "same_data d d' \<Longrightarrow> read_block_table_slot b buf pos off n d = read_block_table_slot b buf pos off n d'"
  by (auto simp: same_data_def read_block_table_slot_def libfs_path_def fopen_def fread_at_def contents_def
      split: option.splits)

lemma read_inode_same: "same_data d d' \<Longrightarrow> read_inode n buf off sz d' = read_inode n buf off sz d"
  using read_loop_cong [of read_block_table_slot d d'] by (simp add: read_inode_def read_slot_same)

lemma stored_same_data:
  assumes "store_ok dir (host (a_disk a))"
  shows "same_data (a_disk a) (a_disk (start_state (stored dir a) clk a))"
  using assms by (auto simp: same_data_def start_state_def store_ok_def libfs_store_path table_files_def)

end
