(* ===== verification/Program_Props.thy ===== *)
theory Program_Props
  imports Program_View Restart
begin

text \<open>
  The demo programs: what they do to a fresh service and, after a restart, to the one they find.
\<close>

subsection \<open>Names\<close>

lemma demo_names_distinct [simp]: "history \<noteq> hardlink" "history \<noteq> symlink" "hardlink \<noteq> symlink" "changed \<noteq> hardlink"
  "changed \<noteq> symlink" "changed \<noteq> history" "corrupted \<noteq> history" "corrupted \<noteq> hardlink" "corrupted \<noteq> symlink" "corrupted \<noteq> changed"
  "hardlink \<noteq> history" "symlink \<noteq> history" "symlink \<noteq> hardlink" "hardlink \<noteq> changed" "symlink \<noteq> changed" "history \<noteq> changed"
  "changed \<noteq> corrupted" "history \<noteq> corrupted" "hardlink \<noteq> corrupted" "symlink \<noteq> corrupted"
  by (simp_all add: history_def hardlink_def symlink_def changed_def corrupted_def c_bytes_def)

lemma demo_names_ok [simp]: "str_ok history" "str_ok hardlink" "str_ok symlink" "str_ok changed" "str_ok corrupted"
  by (simp_all add: history_def hardlink_def symlink_def changed_def corrupted_def c_bytes_def str_ok_def)

lemma demo_names_length [simp]: "length history < 256" "length hardlink < 256" "length symlink < 256" "length changed < 256"
  using demo_names_ok by (simp_all add: str_ok_def)

lemma write_only_differs [simp]: "(1 :: u32) \<noteq> 0" by simp

subsection \<open>The parts of the first program\<close>

abbreviation a_file :: "u32 \<Rightarrow> u32 \<Rightarrow> u32 \<Rightarrow> u64 \<Rightarrow> u32 \<Rightarrow> byte list \<Rightarrow> u32 list \<Rightarrow> file_info" where
  "a_file i u g md refs c bl \<equiv> \<lparr>fi_no = i, fi_owner = u, fi_group = g, fi_mode = md, fi_refs = refs, fi_size = of_nat (length c), fi_blocks = bl\<rparr>"

abbreviation empty_file :: "u32 \<Rightarrow> u32 \<Rightarrow> file_info" where
  "empty_file u g \<equiv> \<lparr>fi_no = 0, fi_owner = u, fi_group = g, fi_mode = 128, fi_refs = 1, fi_size = 0, fi_blocks = no_blocks\<rparr>"

abbreviation a_view :: "(byte list \<times> u32) list \<Rightarrow> file_info list \<Rightarrow> descriptor_t list \<Rightarrow> disk \<Rightarrow> view" where
  "a_view ns fs ds d \<equiv> \<lparr>v_names = ns, v_files = fs, v_descs = ds, v_disk = d\<rparr>"

lemmas view_defs = view_room_def next_no_def next_desc_def named_def may_read_def may_write_def read_refused_def
  write_refused_def writer_open_def view_safe_def set_file_def

declare goes.simps(3) [simp del]

lemma goes_open_new:
  assumes "sees S u g (a_view [] [] [] d) l" "2 \<le> l"
    and "\<And>S'. sees S' u g (a_view [(history, 0)] [empty_file u g] [desc_entry 0 0 1 0] d) (l - 2) \<Longrightarrow>
      goes (f (R_Number 0)) S' Q"
  shows "goes (Call (L_Create history 128) (\<lambda>_. Call (L_Open history WRITE_ONLY) f)) S Q"
  apply (rule goes_exact [OF assms(1) create_new])
  using assms(2) apply (simp_all add: view_defs)
  apply (rule goes_exact, assumption, rule open_named [where x = "empty_file u g"])
          apply (simp_all add: view_defs)+
  apply (rule assms(3))
  apply (simp add: numeral_2_eq_2)
  done

lemma goes_write:
  assumes "sees S u g (a_view [(history, 0)] [empty_file u g] [desc_entry 0 0 1 0] d) l" "0 < l"
    and "disk_ok d k" "k + 100 \<le> NUM_OF_DATA_BLOCKS" "length c \<le> 409600"
    and "\<And>S' bl d' k'. sees S' u g (a_view [(history, 0)] [a_file 0 u g 128 1 c bl] [desc_entry 0 0 1 (of_nat (length c))] d') (l - 1) \<Longrightarrow>
      grown d k d' k' \<Longrightarrow> holds d' k' (a_file 0 u g 128 1 c bl) c \<Longrightarrow> goes (f (R_Int 0)) S' Q"
  shows "goes (Call (L_Write 0 c (of_nat (length c))) f) S Q"
  apply (rule goes_step [OF assms(1,2) _ _ _ write_fresh_file [where d = "desc_entry 0 0 1 0" and x = "empty_file u g"]])
  using assms(3-5) apply (simp_all add: view_defs Let_def size_u32)
  apply (elim exE conjE)
  apply (rule assms(6))
    apply simp_all
  done

lemma goes_lock:
  assumes "sees S u g (a_view [(history, 0)] [a_file 0 u g 128 1 c bl] [desc_entry 0 0 1 off] d) l" "5 \<le> l"
    and "\<And>S'. sees S' u g (a_view [(history, 0)] [a_file 0 u g 432 1 c bl] [] d) (l - 5) \<Longrightarrow> goes (f (R_Status SUCCESS)) S' Q"
  shows "goes (Call (L_Create history 511) (\<lambda>_. Call (L_Open history WRITE_ONLY) (\<lambda>r. if number r = -1
    then Call (L_Close 0) (\<lambda>_. Call (L_Open history READ_ONLY) (\<lambda>r. if number r = -1 then Call (L_Chmode history 432) f else h r))
    else h' r))) S Q"
  apply (rule goes_exact [OF assms(1) create_taken])
  using assms(2) apply (simp_all add: view_defs)
  apply (rule goes_exact, assumption, rule open_named [where x = "a_file 0 u g 128 1 c bl"])
          apply (simp_all add: view_defs)+
  apply (rule goes_exact, assumption, rule close_open)
       apply (simp_all add: view_defs)+
  apply (rule goes_exact, assumption, rule open_refused)
        apply (simp_all add: view_defs)+
  apply (rule goes_exact, assumption, rule chmode_named)
        apply (simp_all add: view_defs)+
  apply (rule assms(3))
  apply (simp add: eval_nat_numeral)
  done

lemma holds_length: "holds d k x c \<Longrightarrow> length c \<le> 409600"
  by (simp add: holds_def)

lemma size_s64: "length c \<le> 409600 \<Longrightarrow> sint (of_nat (length c) :: u64) = int (length c)"
  by (rule sint_small_u64) (simp_all add: size_u64)

lemma goes_links:
  assumes "sees S u g (a_view [(history, 0)] [a_file 0 u g 432 1 c bl] [] d) l" "2 \<le> l"
    and "disk_ok d k" "k + 100 \<le> NUM_OF_DATA_BLOCKS" "holds d k (a_file 0 u g 432 2 c bl) c"
    and "\<And>S' bl' d' k'. sees S' u g (a_view [(history, 0), (hardlink, 0), (symlink, 1)]
        [a_file 0 u g 432 2 c bl, a_file 1 u g 256 1 c bl'] [] d') (l - 2) \<Longrightarrow>
      disk_ok d' k' \<Longrightarrow> holds d' k' (a_file 0 u g 432 2 c bl) c \<Longrightarrow> holds d' k' (a_file 1 u g 256 1 c bl') c \<Longrightarrow>
      goes (f (R_Status SUCCESS)) S' Q"
  shows "goes (Call (L_Link history hardlink) (\<lambda>_. Call (L_Symlink hardlink symlink 256) f)) S Q"
  apply (rule goes_exact [OF assms(1) link_named [where x = "a_file 0 u g 432 1 c bl"]])
  using assms(2) apply (simp_all add: view_defs)
  apply (rule goes_step, assumption)
       prefer 5
       apply (rule symlink_named [where x = "a_file 0 u g 432 2 c bl" and k = k and c = c])
  using assms(3-5) apply (simp_all add: view_defs Let_def)
  apply (elim exE conjE)
  apply (rule assms(6))
     apply (simp_all add: grown_def eval_nat_numeral)
  done

lemma goes_copy:
  assumes "sees S u g (a_view [(history, 0), (hardlink, 0), (symlink, 1)]
        [a_file 0 u g 432 2 c bl, a_file 1 u g 256 1 c bl'] [] d) l" "3 \<le> l"
    and "disk_ok d k" "holds d k (a_file 1 u g 256 1 c bl') c"
    and "\<And>S'. sees S' u g (a_view [(history, 0), (hardlink, 0), (symlink, 1)]
        [a_file 0 u g 432 2 c bl, a_file 1 u g 256 1 c bl'] [] d) (l - 3) \<Longrightarrow> goes (f c (R_Int 0)) S' Q"
  shows "goes (Call (L_Open symlink READ_ONLY) (\<lambda>r. if number r = -1 then h r
    else Call (L_Read (number r) (replicate (length c) 0) (of_nat (length c))) (\<lambda>q. Call (L_Close (number r)) (f (read_bytes q))))) S Q"
  apply (rule goes_exact [OF assms(1) open_named [where x = "a_file 1 u g 256 1 c bl'"]])
  using assms(2) apply (simp_all add: view_defs)
  apply (rule goes_exact, assumption, rule read_open [where d = "desc_entry 0 1 0 0" and x = "a_file 1 u g 256 1 c bl'" and k = k and c = c])
  using assms(3,4) apply (simp_all add: view_defs size_u32 holds_length [OF assms(4)] overwrite_full)
  apply (rule goes_exact, assumption, rule close_open)
       apply (simp_all add: view_defs)
  apply (rule assms(5))
  apply (simp add: eval_nat_numeral)
  done

lemma goes_seek:
  assumes "sees S u g (a_view [(history, 0), (hardlink, 0), (symlink, 1)] 
        [a_file 0 u g 432 2 c bl, a_file 1 u g 256 1 c bl'] [] d) l" "6 \<le> l"
    and "disk_ok d k" "holds d k (a_file 0 u g 432 2 c bl) c" "20 \<le> length c"
    and "\<And>S'. sees S' u g (a_view [(history, 0), (hardlink, 0), (symlink, 1)]
        [a_file 0 u g 432 2 c bl, a_file 1 u g 256 1 c bl'] [] d) (l - 6) \<Longrightarrow> goes (f (take 10 (drop 10 c) @ [0]) (R_Int 0)) S' Q"
  shows "goes (Call (L_Stat history) (\<lambda>_. Call (L_Stat symlink) (\<lambda>_.
     Call (L_Open hardlink READ_ONLY) (\<lambda>r. Call (L_Seek (number r) 10) (\<lambda>_.
     Call (L_Read (number r) (replicate 11 0) 10) (\<lambda>q. Call (L_Close (number r)) (f (read_bytes q)))))))) S Q"
  apply (rule goes_step [OF assms(1) _ _ _ _ stat_named [where x = "a_file 0 u g 432 2 c bl"]])
  using assms(2) apply (simp_all add: view_defs)
  apply (rule goes_step, assumption)
      prefer 5
      apply (rule stat_named [where x = "a_file 1 u g 256 1 c bl'"])
      apply (simp_all add: view_defs)
  apply (rule goes_exact, assumption, rule open_named [where x = "a_file 0 u g 432 2 c bl"])
         apply (simp_all add: view_defs)
  apply (rule goes_exact, assumption, rule seek_open [where d = "desc_entry 0 0 0 0" and x = "a_file 0 u g 432 2 c bl"])
  using assms(5) size_s64 [OF holds_length [OF assms(4)]] apply (simp_all add: view_defs)
  apply (rule goes_exact, assumption, rule read_open [where d = "desc_entry 0 0 0 10" and x = "a_file 0 u g 432 2 c bl" and k = k and c = c])
  using assms(3,4) apply (simp_all add: view_defs)
  apply (rule goes_exact, assumption, rule close_open)
       apply (simp_all add: view_defs overwrite_def)
  apply (rule assms(6))
  apply (simp add: eval_nat_numeral)
  done

subsection \<open>The first program\<close>

text \<open>What it leaves: a file of the user with two names and the content \<open>c\<close>, a copy of it with the third name, and
  no open descriptor.\<close>

definition left_by_presentation :: "u32 \<Rightarrow> u32 \<Rightarrow> byte list \<Rightarrow> view \<Rightarrow> bool" where
  "left_by_presentation u g c V \<longleftrightarrow> (\<exists>bl bl' d k. V = a_view [(history, 0), (hardlink, 0), (symlink, 1)]
     [a_file 0 u g 432 2 c bl, a_file 1 u g 256 1 c bl'] [] d \<and> disk_ok d k \<and>
     holds d k (a_file 0 u g 432 2 c bl) c \<and> holds d k (a_file 1 u g 256 1 c bl') c)"

lemma grown_disk: "grown d k d' k' \<Longrightarrow> disk_ok d' k'"
  by (simp add: grown_def)

lemma holds_attrs: "holds d k (a_file i u g md r c bl) c \<Longrightarrow> holds d k (a_file i' u' g' md' r' c bl) c"
  by (simp add: holds_def)

lemma goes_presentation:
  assumes "sees S u g (a_view [] [] [] d) l" "19 \<le> l" "disk_ok d k" "k + 200 \<le> NUM_OF_DATA_BLOCKS"
    and "20 \<le> length c" "length c \<le> 409600"
  shows "goes (presentation (Some c) True) S (\<lambda>x S'. x = \<lparr>returned = 0, received = Some c, lock_works = True,
    seek_text = takeWhile (\<lambda>b. b \<noteq> 0) (take 10 (drop 10 c) @ [0])\<rparr> \<and> left_by_presentation u g c (view_of (cs_fs S')) \<and>
    cs_uid S' = u \<and> cs_gid S' = g)"
proof -
  have c: "c \<noteq> []" using assms(5) by auto
  show ?thesis
    unfolding presentation_def Let_def
    apply (simp add: c)
    apply (rule goes_open_new [OF assms(1)])
    using assms(2) apply simp
    apply simp
    apply (rule goes_write [OF _ _ assms(3) _ assms(6)], assumption)
    using assms(2,4) apply simp_all[2]
    apply (simp cong: if_cong)
    apply (rule goes_lock, assumption)
    using assms(2) apply simp
    apply (rule goes_links [OF _ _ grown_disk], assumption)
    using assms(2) apply simp
       apply assumption
    using assms(4) apply (simp add: grown_def)
     apply (erule holds_attrs)
    apply (rule goes_copy, assumption)
    using assms(2) apply simp
      apply assumption+
    apply simp
    apply (rule goes_seek, assumption)
    using assms(2) apply simp
       apply assumption+
     apply (rule assms(5))
    apply (simp add: sees_def left_by_presentation_def)
    apply blast
    done
qed

subsection \<open>The second program\<close>

text \<open>What it leaves: the file under its new name.\<close>

definition left_by_backup :: "u32 \<Rightarrow> u32 \<Rightarrow> byte list \<Rightarrow> view \<Rightarrow> bool" where
  "left_by_backup u g c V \<longleftrightarrow> (\<exists>bl. v_names V = [(changed, 0)] \<and> v_files V = [a_file 0 u g 432 1 c bl] \<and> v_descs V = [])"

lemma goes_read_back:
  assumes "sees S u g (a_view [(history, 0), (hardlink, 0), (symlink, 1)] [a_file 0 u g 432 2 c bl, x] [] d) l" "4 \<le> l"
    and "fi_no x = 1" "disk_ok d k" "holds d k (a_file 0 u g 432 2 c bl) c"
    and "\<And>S'. sees S' u g (a_view [(changed, 0), (hardlink, 0), (symlink, 1)] [a_file 0 u g 432 2 c bl, x] [] d) (l - 4) \<Longrightarrow>
      goes (f c (R_Int 0)) S' Q"
  shows "goes (Call (L_Rename history changed) (\<lambda>_. Call (L_Open changed READ_ONLY) (\<lambda>r. if number r = -1 then h r
    else Call (L_Read (number r) (replicate (length c) 0) (of_nat (length c))) (\<lambda>q. Call (L_Close (number r)) (f (read_bytes q)))))) S Q"
  apply (rule goes_exact [OF assms(1) rename_named])
  using assms(2-4) apply (simp_all add: view_defs)
  apply (rule goes_exact, assumption, rule open_named [where x = "a_file 0 u g 432 2 c bl"])
         apply (simp_all add: view_defs)
  apply (rule goes_exact, assumption, rule read_open [where d = "desc_entry 0 0 0 0" and x = "a_file 0 u g 432 2 c bl" and k = k and c = c])
  using assms(3-5) apply (simp_all add: view_defs size_u32 holds_length [OF assms(5)] overwrite_full)
  apply (rule goes_exact, assumption, rule close_open)
       apply (simp_all add: view_defs)
  apply (rule assms(6))
  apply (simp add: eval_nat_numeral)
  done

lemma goes_unlinks:
  assumes "sees S u g (a_view [(changed, 0), (hardlink, 0), (symlink, 1)] [a_file 0 u g 432 2 c bl, a_file 1 u g 256 1 c bl'] [] d) l"
    and "3 \<le> l" "disk_ok d k" "holds d k (a_file 1 u g 256 1 c bl') c"
    and "\<And>S' t. sees S' u g (a_view [(changed, 0)] [a_file 0 u g 432 1 c bl] [] (d\<lparr>data_block_table := t\<rparr>)) (l - 3) \<Longrightarrow>
      goes (f (R_Status FILE_NOT_FOUND)) S' Q"
  shows "goes (Call (L_Unlink hardlink) (\<lambda>_. Call (L_Unlink symlink) (\<lambda>_. Call (L_Unlink corrupted) f))) S Q"
  apply (rule goes_exact [OF assms(1) unlink_one [where x = "a_file 0 u g 432 2 c bl"]])
  using assms(2) apply (simp_all add: view_defs)
  apply (rule goes_step, assumption)
      prefer 5
      apply (rule unlink_last [where x = "a_file 1 u g 256 1 c bl'" and k = k and c = c])
  using assms(3,4) apply (simp_all add: view_defs)
  apply (elim exE conjE)
  apply (rule goes_exact, assumption, rule unlink_missing)
       apply (simp_all add: view_defs)
  apply (rule assms(5))
  apply (simp add: eval_nat_numeral)
  done

lemma goes_backup:
  assumes "left_by_presentation u g c (view_of (cs_fs S))" "cs_uid S = u" "cs_gid S = g" "7 \<le> cs_left S" "c \<noteq> []"
  shows "goes (presentation_from_backup (Some c) True) S (\<lambda>x S'.
    x = \<lparr>returned = 0, received = Some c, lock_works = False, seek_text = []\<rparr> \<and> left_by_backup u g c (view_of (cs_fs S')))"
proof -
  obtain bl bl' d k where V: "disk_ok d k" "holds d k (a_file 0 u g 432 2 c bl) c" "holds d k (a_file 1 u g 256 1 c bl') c"
    and S: "sees S u g (a_view [(history, 0), (hardlink, 0), (symlink, 1)] [a_file 0 u g 432 2 c bl, a_file 1 u g 256 1 c bl'] [] d)
      (cs_left S)"
    using assms(1-3) by (auto simp: left_by_presentation_def sees_def)
  show ?thesis
    unfolding presentation_from_backup_def Let_def
    apply (simp add: assms(5))
    apply (rule goes_read_back [OF S _ _ V(1,2)])
    using assms(4) apply simp
     apply simp
    apply simp
    apply (rule goes_unlinks [OF _ _ V(1,3)], assumption)
    using assms(4) apply simp
    apply (simp add: sees_def left_by_backup_def del: view_of_simps(1))
    done
qed

subsection \<open>Between the programs\<close>

lemma info_reload [simp]: "info (reload_inode n) = info n"
  by (simp add: info_def reload_inode_def)

lemma view_start_state: "view_of (start_state h clk a) =
    (view_of a)\<lparr>v_descs := [], v_disk := \<lparr>data_block_table = data_block_table (a_disk a), host = h\<rparr>\<rparr>"
  by (simp add: view_of_def start_state_def comp_def)

text \<open>The stored tables leave the data file as it is.\<close>

lemma holds_stored:
  assumes "store_ok dir (host d)" "host d = host (a_disk a)"
  shows "disk_ok d k \<Longrightarrow> disk_ok \<lparr>data_block_table = data_block_table d, host = stored dir a\<rparr> k"
    "holds d k x c \<Longrightarrow> holds \<lparr>data_block_table = data_block_table d, host = stored dir a\<rparr> k x c"
proof -
  let ?d = "\<lparr>data_block_table = data_block_table d, host = stored dir a\<rparr>"
  have p: "data_path d = store_path dir ''/data''" "data_path ?d = store_path dir ''/data''"
    using assms by (simp_all add: data_path_def store_ok_def store_path_def)
  moreover have "files (host ?d) (store_path dir ''/data'') = files (host d) (store_path dir ''/data'')"
    using assms(2) by (simp add: table_files_def)
  ultimately have b: "data_bytes ?d = data_bytes d" "files (host ?d) (data_path ?d) = files (host d) (data_path d)"
    by (simp_all add: data_bytes_def contents_def)
  then show "disk_ok d k \<Longrightarrow> disk_ok ?d k" using p assms(2) by (simp add: disk_ok_def)
  have "block_at ?d = block_at d" using b(1) by (auto simp: block_at_def)
  then show "holds d k x c \<Longrightarrow> holds ?d k x c" by (simp add: holds_def byte_at_def)
qed

lemma left_view:
  assumes "left_by_presentation u g c (view_of a)"
  obtains bl bl' k where "view_of a = a_view [(history, 0), (hardlink, 0), (symlink, 1)]
      [a_file 0 u g 432 2 c bl, a_file 1 u g 256 1 c bl'] [] (a_disk a)" "disk_ok (a_disk a) k"
    "holds (a_disk a) k (a_file 0 u g 432 2 c bl) c" "holds (a_disk a) k (a_file 1 u g 256 1 c bl') c"
  using assms unfolding left_by_presentation_def by (metis view.select_convs(4) view_of_simps(2))

lemma left_stored:
  assumes "left_by_presentation u g c (view_of a)" "store_ok dir (host (a_disk a))"
  shows "left_by_presentation u g c (view_of (start_state (stored dir a) clk a))"
proof (rule left_view [OF assms(1)])
  fix bl bl' k assume V: "view_of a = a_view [(history, 0), (hardlink, 0), (symlink, 1)]
      [a_file 0 u g 432 2 c bl, a_file 1 u g 256 1 c bl'] [] (a_disk a)" "disk_ok (a_disk a) k"
    "holds (a_disk a) k (a_file 0 u g 432 2 c bl) c" "holds (a_disk a) k (a_file 1 u g 256 1 c bl') c"
  note h = holds_stored [OF assms(2) refl]
  show ?thesis unfolding left_by_presentation_def view_start_state V(1)
    using h(1) [OF V(2)] h(2) [OF V(3)] h(2) [OF V(4)] by auto
qed

subsection \<open>The demonstration\<close>

text \<open> C7. The first demo program does what it shows: on a fresh service, for a file of 20 to 409600 bytes, it returns 0,
  the file it receives through the hard link and the symbolic link is the one it sent, the second writer was
  refused, and the last line shows the bytes 10 to 19 up to the first zero byte. Every call goes
  through the messages, the threads, the tables and the data file. \<close>

theorem presentation_works:
  assumes "client_rel w S" and "fs_ok (cs_fs S)" and "19 \<le> cs_left S"
    and "view_of (cs_fs S) = \<lparr>v_names = [], v_files = [], v_descs = [], v_disk = d\<rparr>"
    and "disk_ok d k" and "k + 200 \<le> NUM_OF_DATA_BLOCKS" and "20 \<le> length c" and "length c \<le> 409600"
  shows "\<exists>w' S'. run (lib (serve_world junk)) (presentation (Some c) True) w = Ret (\<lparr>returned = 0, received = Some c,
      lock_works = True, seek_text = takeWhile (\<lambda>b. b \<noteq> 0) (take 10 (drop 10 c))\<rparr>, w') \<and>
    client_rel w' S' \<and> left_by_presentation (cs_uid S) (cs_gid S) c (view_of (cs_fs S'))"
proof -
  have s: "sees S (cs_uid S) (cs_gid S) (a_view [] [] [] d) (cs_left S)" using assms(4) by (simp add: sees_def)
  have t: "takeWhile (\<lambda>b. b \<noteq> 0) (xs @ [0]) = takeWhile (\<lambda>b. b \<noteq> 0) xs" for xs :: "byte list"
    by (induction xs) auto
  have inv: "client_inv S" using assms(2) by (simp add: client_inv_def)
  from goes_lib [OF goes_presentation [OF s assms(3,5-8)] assms(1) inv, of junk] show ?thesis by (auto simp: t)
qed

theorem presentation_works_witness:
  "\<exists>w'. run (lib (serve_world (\<lambda>_. 0))) (presentation (Some (replicate 20 65)) True) (demo_world (fs_start ''/r'' noon)) =
    Ret (\<lparr>returned = 0, received = Some (replicate 20 65), lock_works = True, seek_text = replicate 10 65\<rparr>, w')"
proof -
  have w: "takeWhile (\<lambda>b. b \<noteq> 0) (take 10 (drop 10 (replicate 20 65))) = (replicate 10 65 :: byte list)"
    by (simp add: takeWhile_replicate)
  have v: "view_of (cs_fs (demo_spec (a_start ''/r'' noon))) = a_view [] [] [] (blank_disk ''/r'')"
    by (simp add: demo_spec_def view_of_def a_start_def)
  from presentation_works [OF demo_client_rel [OF start_rel start_ok] _ _ v blank_disk_ok, of "replicate 20 65" "\<lambda>_. 0"]
  show ?thesis by (auto simp: demo_spec_def start_ok NUM_OF_DATA_BLOCKS_def w)
qed

text \<open> C8. The second demo program does what it shows: when the service was stopped after the first program and started
  again, the program finds the file under its new name with the content it had, returns 0 and leaves the one
  file with the one name: the two links are gone, and the name that never existed does no harm. The
  stop writes the tables, and the start reads them back. \<close>

theorem presentation_survives_restart:
  assumes "left_by_presentation u g c (view_of a)" and "c \<noteq> []"
    and "fs_rel f a" and "store_ok dir (host (a_disk a))" and "storable a"
    and "client_rel w S" and "cs_fs S = start_state (stored dir a) clk a"
    and "cs_uid S = u" and "cs_gid S = g" and "7 \<le> cs_left S"
  shows "end_tables f = Ret (stored dir a) \<and> (\<exists>f'. start_tables (stored dir a) clk = Ret f' \<and> fs_rel f' (cs_fs S)) \<and>
    (\<exists>w' S'. run (lib (serve_world junk)) (presentation_from_backup (Some c) True) w =
        Ret (\<lparr>returned = 0, received = Some c, lock_works = False, seek_text = []\<rparr>, w') \<and>
      client_rel w' S' \<and> left_by_backup u g c (view_of (cs_fs S')))"
proof -
  have n: "length (data_block_table (a_disk a)) = NUM_OF_DATA_BLOCKS"
    by (rule left_view [OF assms(1)]) (simp add: disk_ok_def)
  have st: "\<forall>n\<in>set (a_inodes a). inode_storable n" "\<forall>e\<in>set (a_names a). name_storable e"
    using assms(5) by (simp_all add: storable_def)
  have L: "left_by_presentation u g c (view_of (cs_fs S))" using left_stored [OF assms(1,4)] assms(7) by simp
  obtain k where "connected k w (cs_fs S)" using assms(6) by (auto simp: client_rel_def)
  then have inv: "client_inv S" by (simp add: client_inv_def connected_def)
  from goes_lib [OF goes_backup [OF L assms(8-10,2)] assms(6) inv, of junk] end_tables_stored [OF assms(3,4) n]
    start_tables_stored [OF assms(4) n st, of clk] assms(7)
  show ?thesis by auto
qed

text \<open>The tables after the first program, for twenty letters.\<close>

definition shown_text :: "byte list" where
  "shown_text = replicate 20 65"

definition shown_disk :: disk where
  "shown_disk = \<lparr>data_block_table = replicate 2 \<lparr>allocated = True, inode_index = 0\<rparr> @
       replicate 998 \<lparr>allocated = False, inode_index = 0\<rparr>,
     host = \<lparr>pw_dir = Some ''/r'', can_open = (\<lambda>_. True), files = [store_path ''/r'' ''/data'' \<mapsto> replicate 8192 65]\<rparr>\<rparr>"

definition shown_afs :: afs where
  "shown_afs = \<lparr>a_names = [name_entry history 0, name_entry hardlink 0, name_entry symlink 1], a_descs = [],
     a_inodes = [(new_inode 0 F_REGULAR 0 0 2 432 20 (noon 1) (noon 2) (noon 3))\<lparr>data_blocks := no_blocks[0 := 1]\<rparr>,
       (new_inode 1 F_SYMLINK 0 0 1 256 20 (noon 1) (noon 2) (noon 3))\<lparr>data_blocks := no_blocks[0 := 2]\<rparr>],
     a_disk = shown_disk, a_clock = noon, a_ticks = 0\<rparr>"

lemma shown_disk_ok: "disk_ok shown_disk 2"
  by (auto simp: disk_ok_def shown_disk_def NUM_OF_DATA_BLOCKS_def nth_append data_path_def data_bytes_def contents_def store_path_def)

lemma shown_holds:
  assumes "b = 1 \<or> b = 2" "fi_blocks x = no_blocks[0 := b]" "fi_size x = 20"
  shows "holds shown_disk 2 x shown_text"
proof -
  have l: "length (no_blocks[0 := b]) = 100" by (simp add: no_blocks_def)
  have n: "no_blocks[0 := b] ! i = (if i = 0 then b else 0)" if "i < 100" for i
    using that by (cases i) (simp_all add: no_blocks_def)
  have d: "data_bytes shown_disk = replicate 8192 65"
    by (simp add: data_bytes_def contents_def data_path_def shown_disk_def store_path_def)
  have "unat b \<le> 2" "0 < unat b" "b \<noteq> 0" using assms(1) by auto
  then show ?thesis using l n d assms(2,3)
    by (auto simp: holds_def shown_text_def blocks_ok_def mapped_def byte_at_def block_at_def div_less_iff_less_mult)
qed

lemma table_exists: "\<exists>t. table_is t (map strip xs)"
proof (induction xs rule: rev_induct)
  case Nil
  show ?case using table_is_empty by auto
next
  case (snoc n xs)
  then obtain t where "table_is t (map strip xs)" by blast
  from append_cell_is [OF this, of "\<lambda>_. n"] show ?case by auto
qed

lemma shown_rel: "\<exists>f. fs_rel f shown_afs"
proof -
  obtain nt it where "table_is nt (map strip (a_names shown_afs))" "table_is it (map strip (a_inodes shown_afs))"
    using table_exists by metis
  then have "fs_rel \<lparr>inode_table = it, descriptor_table = empty_table, filename_table = nt, data_disk = shown_disk,
      clock = noon, ticks = 0\<rparr> shown_afs"
    by (simp add: fs_rel_def shown_afs_def strip_def new_inode_def table_is_empty)
  then show ?thesis by blast
qed

lemma shown_ok: "fs_ok shown_afs"
  by (simp add: shown_afs_def fs_ok_def names_ok_def descs_ok_def links_def new_inode_def nlinks_def)

lemma shown_storable: "storable shown_afs" "store_ok ''/r'' (host (a_disk shown_afs))"
  by (simp_all add: storable_def shown_afs_def inode_storable_def name_storable_def new_inode_def int_range_def no_blocks_def
      shown_disk_def store_ok_def) (simp_all add: history_def hardlink_def symlink_def c_bytes_def)

lemma shown_left: "left_by_presentation 0 0 shown_text (view_of shown_afs)"
proof -
  have "view_of shown_afs = a_view [(history, 0), (hardlink, 0), (symlink, 1)]
      [a_file 0 0 0 432 2 shown_text (no_blocks[0 := 1]), a_file 1 0 0 256 1 shown_text (no_blocks[0 := 2])] [] shown_disk"
    by (simp add: view_of_def shown_afs_def info_def new_inode_def shown_text_def)
  moreover have "holds shown_disk 2 (a_file i u g md r shown_text (no_blocks[0 := b])) shown_text" if "b = 1 \<or> b = 2" for i u g md r b
    by (rule shown_holds [OF that]) (simp_all add: shown_text_def)
  ultimately show ?thesis using shown_disk_ok unfolding left_by_presentation_def by blast
qed

lemma shown_start_ok: "fs_ok (start_state h clk shown_afs)"
  by (simp add: shown_afs_def start_state_def fs_ok_def names_ok_def descs_ok_def links_def new_inode_def nlinks_def reload_inode_def)

theorem presentation_survives_restart_witness:
  "\<exists>f h f' w'. fs_rel f shown_afs \<and> end_tables f = Ret h \<and> start_tables h noon = Ret f' \<and>
    run (lib (serve_world (\<lambda>_. 0))) (presentation_from_backup (Some shown_text) True) (demo_world f') =
      Ret (\<lparr>returned = 0, received = Some shown_text, lock_works = False, seek_text = []\<rparr>, w')"
proof -
  let ?h = "stored ''/r'' shown_afs"
  let ?S = "demo_spec (start_state ?h noon shown_afs)"
  have n: "length (data_block_table (a_disk shown_afs)) = NUM_OF_DATA_BLOCKS"
    using shown_disk_ok by (simp add: shown_afs_def disk_ok_def)
  have st: "\<forall>n\<in>set (a_inodes shown_afs). inode_storable n" "\<forall>e\<in>set (a_names shown_afs). name_storable e"
    using shown_storable(1) by (simp_all add: storable_def)
  obtain f where f: "fs_rel f shown_afs" using shown_rel by blast
  obtain f' where f': "start_tables ?h noon = Ret f'" "fs_rel f' (start_state ?h noon shown_afs)"
    using start_tables_stored [OF shown_storable(2) n st] by blast
  have S: "cs_fs ?S = start_state ?h noon shown_afs" "cs_uid ?S = 0" "cs_gid ?S = 0" "7 \<le> cs_left ?S" "shown_text \<noteq> []"
    by (simp_all add: demo_spec_def shown_text_def)
  from presentation_survives_restart [OF shown_left S(5) f shown_storable(2,1) demo_client_rel [OF f'(2) shown_start_ok] S(1-4),
    of "\<lambda>_. 0"] f f'(1)
  show ?thesis by blast
qed

end
