(* ===== verification/Fs_Termination.thy ===== *)
theory Fs_Termination
  imports Fs_Props
begin

text \<open>
  Every operation comes to an end: none of the loops over the lists, the blocks of a file and the
  slots of the block table runs for ever in a state the service reaches.
\<close>

lemma obind_Diverge: "obind m f = Diverge \<longleftrightarrow> m = Diverge \<or> (\<exists>x. m = Ret x \<and> f x = Diverge)"
  by (cases m) auto

lemma block_ops_end:
  "occupy_block_table_slot ino buf n a d \<noteq> Diverge" "update_block_table_slot b buf off n d \<noteq> Diverge"
  "read_block_table_slot b buf pos off n d \<noteq> Diverge"
  by (auto simp: occupy_block_table_slot_def update_block_table_slot_def read_block_table_slot_def libfs_path_def Let_def
      obind_Diverge split: option.splits if_splits)

lemma write_loop_ends:
  "write_loop occupy_block_table_slot update_block_table_slot ino buf off cb is co sz bl d \<noteq> Diverge"
  by (induction "is" arbitrary: co sz bl d) (auto simp: obind_Diverge block_ops_end Let_def split: if_splits)

lemma read_loop_ends: "read_loop read_block_table_slot bl n co off cb buf d \<noteq> Diverge"
proof (induction "read_block_table_slot" bl n co off cb buf d rule: read_loop.induct)
  case (1 bl n co off cb buf d)
  define room where "room = 4096 - off mod 4096"
  define m where "m = (if room < n then room else n)"
  define k where "k = (if 4096 < m then 4096 else m)"
  have "read_loop read_block_table_slot bl (n - k) (co + k) (off + k) (cb + 1) buf' d \<noteq> Diverge"
    if "n \<noteq> 0" "\<not> length bl \<le> unat cb"
      "read_block_table_slot (bl ! unat cb - 1) buf (unat co) (off mod 4096) k d = Ret (SUCCESS, buf')" for buf'
    using 1 [OF that(1) room_def m_def k_def that(2,3) refl] by simp
  then show ?case
    unfolding read_loop.simps [of _ _ n] Let_def room_def [symmetric] m_def [symmetric] k_def [symmetric]
    by (auto simp: obind_Diverge block_ops_end)
qed

lemma free_blocks_ends: "free_blocks bs t \<noteq> Diverge"
  by (induction bs arbitrary: t) auto

lemma write_inode_ends: "write_inode n buf off sz d \<noteq> Diverge"
  by (auto simp: write_inode_def Let_def obind_Diverge write_loop_ends split: if_splits)

lemma read_inode_ends: "read_inode n buf off sz d \<noteq> Diverge"
  by (simp add: read_inode_def read_loop_ends)

lemmas ends = obind_Diverge write_inode_ends read_inode_ends free_blocks_ends

lemma spec_op_ends: "spec_op op a \<noteq> Diverge"
  by (cases op)
    (auto simp: spec_op_def no_result_def a_create_def a_chmod_def a_rename_def a_unlink_def a_open_def a_read_def
      a_write_def a_seek_def a_close_def a_stat_def a_link_def a_symlink_def Let_def ends split: option.splits if_splits)

lemma run_spec_ends: "run_ops spec_op ops a \<noteq> Diverge"
  by (induction ops arbitrary: a) (auto simp: obind_Diverge spec_op_ends)

text \<open> C20. Termination: no run of operations from the first start of the service, none of which frees the
  first cell of a list, loops for ever: the search and append loops over the pointer lists meet no
  cycle, and the loops over blocks and slots end. \<close>

theorem operations_terminate:
  assumes "guarded spec_op fs_guard ops (a_start dir clk)"
  shows "run_ops exec_op ops (fs_start dir clk) \<noteq> Diverge"
  using fs.run_refines [OF start_rel start_ok assms] run_spec_ends [of ops "a_start dir clk"]
  by (cases "run_ops spec_op ops (a_start dir clk)"; cases "run_ops exec_op ops (fs_start dir clk)") auto

theorem operations_terminate_witness:
  "run_ops exec_op demo_ops (fs_start ''/r'' noon) \<noteq> Diverge"
  by (rule operations_terminate [OF demo_guarded])

end
