(* ===== verification/Ring_Props.thy ===== *)
theory Ring_Props
  imports Req_Buffer
begin

text \<open>The ring buffer as a queue: what the contract \<open>bounded_queue\<close> gives for the ring that the service creates.\<close>

lemma created_ring:
  assumes "0 < unat n" "unat n < 2147483648"
  obtains rb where "req_buffer_create None n = (0, Some rb)" "rb_ok rb" "rb_queue rb = []" "rb_size rb = n"
proof -
  let ?rb = "the (snd (req_buffer_create None n))"
  have "n > 0" using assms(1) by (simp add: word_less_nat_alt)
  then have "req_buffer_create None n = (0, Some ?rb)" "rb_ok ?rb" "rb_queue ?rb = []" "rb_size ?rb = n"
    using assms by (simp_all add: req_buffer_create_def rb_ok_def rb_queue_def)
  then show thesis by (rule that)
qed

text \<open> C21. First in, first out: complete requests that are put into an empty ring, wherever its two indices stand,
  up to its size, come out in the same order and with their bytes; a put into the full ring blocks, and
  a take from the ring that is empty again blocks. \<close>

theorem ring_fifo:
  assumes "rb_ok rb" and "rb_queue rb = []" and "\<forall>m\<in>set ms. single_ok m" and "length ms \<le> unat (rb_size rb)"
  shows "\<exists>q1 q2. put_all rb_put ms rb = Some q1 \<and>
    take_all rb_take (length ms) q1 = Some (map entry_of ms, q2) \<and> rb_ok q2 \<and> rb_queue q2 = [] \<and> rb_take q2 = None \<and>
    (length ms = unat (rb_size rb) \<longrightarrow> (\<forall>m. single_ok m \<longrightarrow> rb_put m q1 = None))"
proof -
  obtain q1 q2 where q: "put_all rb_put ms rb = Some q1" "take_all rb_take (length ms) q1 = Some (map entry_of ms, q2)"
    "rb_ok q2" "rb_queue q2 = []" using ring.fifo [OF assms] by blast
  have "rb_ok q1 \<and> rb_queue q1 = map entry_of ms \<and> unat (rb_size q1) = unat (rb_size rb)"
    using ring.put_all_room [OF assms(1,3)] assms(2,4) q(1) by auto
  then have "length ms = unat (rb_size rb) \<longrightarrow> (\<forall>m. single_ok m \<longrightarrow> rb_put m q1 = None)"
    using ring.enq_full [of q1] by simp
  with q ring.deq_empty [OF q(3,4)] show ?thesis by blast
qed

definition demo_put :: "nat \<Rightarrow> request_t" where
  "demo_put i = \<lparr>rq_seq = of_nat i, rq_type = CLOSE, rq_multipart = 0, rq_data_size = 0, rq_data_offset = 0,
     rq_part_size = 0, rq_data = []\<rparr>"

theorem ring_fifo_witness:
  "\<exists>rb q1 q2. req_buffer_create None 256 = (0, Some rb) \<and> put_all rb_put (map demo_put [0..<256]) rb = Some q1 \<and>
    take_all rb_take (length (map demo_put [0..<256])) q1 = Some (map entry_of (map demo_put [0..<256]), q2) \<and>
    rb_put (demo_put 256) q1 = None"
proof -
  obtain rb where rb: "req_buffer_create None 256 = (0, Some rb)" "rb_ok rb" "rb_queue rb = []" "rb_size rb = 256"
    by (rule created_ring [of 256]) simp_all
  have "\<forall>m\<in>set (map demo_put [0..<256]). single_ok m" "single_ok (demo_put 256)"
    by (auto simp: single_ok_def demo_put_def)
  with ring_fifo [OF rb(2,3), of "map demo_put [0..<256]"] rb(1,4) show ?thesis by fastforce
qed

end
