(* ===== verification/Block_Owner.thy ===== *)
theory Block_Owner
  imports Fs_System
begin

text \<open>
  Who owns which block: the invariant that every block number of a file is a slot of the block table
  allocated to this file, and that no slot is used twice. \<^verbatim>\<open>write_inode\<close> keeps it because it only takes
  free slots, \<^verbatim>\<open>unlink_inode\<close> because it only frees slots of the file that goes.
\<close>

subsection \<open>Slots of the block table\<close>

definition owned :: "data_block_t list \<Rightarrow> u32 \<Rightarrow> u32 \<Rightarrow> bool" where
  "owned t i s \<longleftrightarrow> 0 < unat s \<and> unat s \<le> length t \<and> t ! (unat s - 1) = \<lparr>allocated = True, inode_index = i\<rparr>"

definition owns :: "data_block_t list \<Rightarrow> u32 \<Rightarrow> u32 list \<Rightarrow> bool" where
  "owns t i bl \<longleftrightarrow> length bl = FILE_MAX_BLOCKS \<and> (\<forall>s\<in>set bl. s \<noteq> 0 \<longrightarrow> owned t i s) \<and>
     (\<forall>j<length bl. \<forall>k<length bl. bl ! j = bl ! k \<and> bl ! j \<noteq> 0 \<longrightarrow> j = k)"

text \<open>Allocated entries stay as they are.\<close>

definition table_grows :: "data_block_t list \<Rightarrow> data_block_t list \<Rightarrow> bool" where
  "table_grows t t' \<longleftrightarrow> length t' = length t \<and> (\<forall>j<length t. allocated (t ! j) \<longrightarrow> t' ! j = t ! j)"

lemma table_grows_refl [simp]: "table_grows t t"
  by (simp add: table_grows_def)

lemma table_grows_trans: "table_grows t t' \<Longrightarrow> table_grows t' t'' \<Longrightarrow> table_grows t t''"
  by (simp add: table_grows_def)

lemma owned_grows: "owned t i s \<Longrightarrow> table_grows t t' \<Longrightarrow> owned t' i s"
  unfolding owned_def table_grows_def
  by (metis One_nat_def Suc_pred data_block_t.select_convs(1) less_eq_Suc_le)

lemma owns_grows: "owns t i bl \<Longrightarrow> table_grows t t' \<Longrightarrow> owns t' i bl"
  by (auto simp: owns_def intro: owned_grows)

lemma owns_no_blocks: "owns t i no_blocks"
  by (simp add: owns_def no_blocks_def)

text \<open>Two files that own their blocks share none.\<close>

lemma owns_disjoint: "owns t i bl \<Longrightarrow> owns t j bl' \<Longrightarrow> i \<noteq> j \<Longrightarrow> disjoint_blocks bl bl'"
proof -
  assume o: "owns t i bl" "owns t j bl'" "i \<noteq> j"
  have "s \<notin> set bl'" if "s \<in> set bl" "s \<noteq> 0" for s
  proof
    assume "s \<in> set bl'"
    with o(1,2) that have "owned t i s" "owned t j s" by (auto simp: owns_def)
    with o(3) show False by (simp add: owned_def)
  qed
  moreover have "bl ! k \<in> set bl" "bl' ! k \<in> set bl'" if "k < FILE_MAX_BLOCKS" for k
    using o(1,2) that by (simp_all add: owns_def)
  ultimately show ?thesis unfolding disjoint_blocks_def by metis
qed

subsection \<open>The block operations\<close>

lemma occupy_table:
  assumes "occupy_block_table_slot ino buf n sa d = Ret (st, slot, d')" and "length (data_block_table d) = NUM_OF_DATA_BLOCKS"
  obtains "st \<noteq> SUCCESS" "d' = d"
  | j where "st = SUCCESS" "j < length (data_block_table d)" "\<not> allocated (data_block_table d ! j)" "unat slot = Suc j"
      "data_block_table d' = (data_block_table d)[j := \<lparr>allocated = True, inode_index = ino\<rparr>]"
proof (cases "free_slot 0 (data_block_table d)")
  case None
  with assms(1) that(1) show ?thesis by (simp add: occupy_block_table_slot_def)
next
  case (Some j)
  from free_slot_SomeD [OF this] have j: "j < length (data_block_table d)" "\<not> allocated (data_block_table d ! j)" by simp_all
  have "unat (of_nat (Suc j) :: u32) = Suc j"
    using j(1) assms(2) by (intro unat_of_nat_u32) (simp add: NUM_OF_DATA_BLOCKS_def)
  with that(2) [OF _ j] assms(1) Some show ?thesis
    by (auto simp: occupy_block_table_slot_def Let_def obind_Ret_iff split: option.splits if_splits)
qed

lemma update_table:
  "update_block_table_slot b buf off n d = Ret (st, d') \<Longrightarrow> data_block_table d' = data_block_table d"
  by (auto simp: update_block_table_slot_def obind_Ret_iff split: option.splits if_splits)

lemma owns_take:
  assumes "owns t ino bl" and "j < length t" "\<not> allocated (t ! j)" "unat slot = Suc j" and "i < length bl"
  defines "t' \<equiv> t[j := \<lparr>allocated = True, inode_index = ino\<rparr>]"
  shows "owns t' ino (bl[i := slot])" "table_grows t t'"
proof -
  show g: "table_grows t t'" unfolding table_grows_def t'_def
    by (metis assms(3) length_list_update nth_list_update_neq)
  have new: "slot \<notin> set bl" using assms(1,3,4) by (fastforce simp: owns_def owned_def)
  then have other: "bl ! k \<noteq> slot" if "k < length bl" for k using that by auto
  have "owned t' ino slot" using assms(2,4) by (simp add: owned_def t'_def)
  then have "owned t' ino s" if "s \<in> set (bl[i := slot])" "s \<noteq> 0" for s
    using that assms(1) g set_update_subset_insert [of bl i slot] by (auto simp: owns_def intro: owned_grows)
  moreover have "k = l" if "k < length bl" "l < length bl" "bl[i := slot] ! k = bl[i := slot] ! l"
      "bl[i := slot] ! k \<noteq> 0" for k l
    using that assms(1,5) other by (auto simp: owns_def nth_list_update split: if_splits)
  ultimately show "owns t' ino (bl[i := slot])" using assms(1) unfolding owns_def length_list_update by metis
qed

text \<open>Whatever a write does, and even if it fails half-way, the file owns its blocks afterwards.\<close>

lemma write_loop_owns:
  assumes "write_loop occupy_block_table_slot update_block_table_slot ino buf off cb is co sz bl d = Ret (st, bl', d')"
    and "length (data_block_table d) = NUM_OF_DATA_BLOCKS" and "owns (data_block_table d) ino bl"
  shows "owns (data_block_table d') ino bl' \<and> table_grows (data_block_table d) (data_block_table d')"
  using assms
proof (induction "is" arbitrary: co sz bl d)
  case Nil
  then show ?case by simp
next
  case (Cons i "is")
  have i: "i < length bl" using Cons.prems(1) by (auto split: if_splits)
  show ?case
  proof (cases "i = unat cb \<and> bl ! i \<noteq> 0")
    case True
    with Cons.prems(1) i obtain st1 d1 w where u: "update_block_table_slot (bl ! i - 1) (drop (unat co) buf) (off mod 4096) w d = Ret (st1, d1)"
      and r: "(st1 \<noteq> SUCCESS \<and> bl' = bl \<and> d' = d1) \<or> write_loop occupy_block_table_slot update_block_table_slot ino buf off cb is
        (co + w) (sz - w) bl d1 = Ret (st, bl', d')"
      by (auto simp: Let_def obind_Ret_iff split: if_splits)
    note t = update_table [OF u]
    from r show ?thesis
      using Cons.prems(2,3) t Cons.IH [of "co + w" "sz - w" bl d1] by (auto simp: t)
  next
    case False
    with Cons.prems(1) i obtain st1 slot d1 w buffer where
      o: "occupy_block_table_slot ino buffer w 0 d = Ret (st1, slot, d1)"
      and r: "(st1 \<noteq> SUCCESS \<and> bl' = bl \<and> d' = d1) \<or> (st1 = SUCCESS \<and>
        write_loop occupy_block_table_slot update_block_table_slot ino buf off cb is (co + w) (sz - w) (bl[i := slot]) d1 =
          Ret (st, bl', d'))"
      by (auto simp: Let_def obind_Ret_iff split: if_splits)
    show ?thesis
    proof (rule occupy_table [OF o Cons.prems(2)])
      assume "st1 \<noteq> SUCCESS" "d1 = d"
      with r Cons.prems(3) show ?thesis by auto
    next
      fix j assume "st1 = SUCCESS" and j: "j < length (data_block_table d)" "\<not> allocated (data_block_table d ! j)" "unat slot = Suc j"
        and t: "data_block_table d1 = (data_block_table d)[j := \<lparr>allocated = True, inode_index = ino\<rparr>]"
      with r have w: "write_loop occupy_block_table_slot update_block_table_slot ino buf off cb is (co + w) (sz - w)
        (bl[i := slot]) d1 = Ret (st, bl', d')" by simp
      note own = owns_take [OF Cons.prems(3) j i, folded t]
      have "length (data_block_table d1) = NUM_OF_DATA_BLOCKS" using Cons.prems(2) by (simp add: t)
      from Cons.IH [OF w this own(1)] own(2) show ?thesis by (blast intro: table_grows_trans)
    qed
  qed
qed

lemma write_inode_owns:
  assumes "write_inode n buf off sz d = Ret (st, n', off', d')"
    and "length (data_block_table d) = NUM_OF_DATA_BLOCKS" and "owns (data_block_table d) (index n) (data_blocks n)"
  shows "owns (data_block_table d') (index n) (data_blocks n')" "table_grows (data_block_table d) (data_block_table d')"
proof -
  have "owns (data_block_table d') (index n) (data_blocks n') \<and> table_grows (data_block_table d) (data_block_table d')"
    using assms(1,3) by (auto simp: write_inode_def Let_def obind_Ret_iff dest!: write_loop_owns [OF _ assms(2)] split: if_splits)
  then show "owns (data_block_table d') (index n) (data_blocks n')" "table_grows (data_block_table d) (data_block_table d')" by auto
qed

lemma free_blocks_table:
  "free_blocks bl t = Ret t' \<Longrightarrow> length t' = length t \<and>
   (\<forall>j<length t. (\<forall>s\<in>set bl. s \<noteq> 0 \<longrightarrow> unat s \<noteq> Suc j) \<longrightarrow> t' ! j = t ! j)"
proof (induction bl arbitrary: t)
  case Nil
  then show ?case by simp
next
  case (Cons b bl)
  show ?case
  proof (cases "b = 0")
    case True
    with Cons.prems show ?thesis by simp
  next
    case False
    let ?t = "t[unat (b - 1) := \<lparr>allocated = False, inode_index = 0\<rparr>]"
    have "unat (b - 1) = unat b - 1" using False by (subst unat_minus_u32) (auto simp: Suc_le_eq unat_gt_0)
    then have b: "unat (b - 1) = j \<longleftrightarrow> unat b = Suc j" for j
      using False by (metis Suc_pred diff_Suc_1 unat_gt_0)
    from Cons.prems False have "free_blocks bl ?t = Ret t'" by (auto simp: word_gt_0 split: if_splits)
    with Cons.IH [OF this] b False show ?thesis by (auto simp: nth_list_update)
  qed
qed

subsection \<open>The invariant of the file system\<close>

definition blocks_owned :: "afs \<Rightarrow> bool" where
  "blocks_owned a \<longleftrightarrow> length (data_block_table (a_disk a)) = NUM_OF_DATA_BLOCKS \<and>
     (\<forall>n\<in>set (a_inodes a). owns (data_block_table (a_disk a)) (index n) (data_blocks n))"

text \<open>Operations that do not touch the disk and the block numbers.\<close>

lemma owned_cong:
  assumes "blocks_owned a" and "a_disk a' = a_disk a"
    and "\<And>n. n \<in> set (a_inodes a') \<Longrightarrow> data_blocks n = no_blocks \<or> (\<exists>m\<in>set (a_inodes a). index m = index n \<and> data_blocks m = data_blocks n)"
  shows "blocks_owned a'"
  unfolding blocks_owned_def
proof (intro conjI ballI)
  show "length (data_block_table (a_disk a')) = NUM_OF_DATA_BLOCKS" using assms(1,2) by (simp add: blocks_owned_def)
  fix n assume "n \<in> set (a_inodes a')"
  from assms(3) [OF this] assms(1,2) show "owns (data_block_table (a_disk a')) (index n) (data_blocks n)"
    by (auto simp: blocks_owned_def owns_no_blocks)
qed

lemma upd_first_mem: "x \<in> set (upd_first P f xs) \<Longrightarrow> x \<in> set xs \<or> (\<exists>y\<in>set xs. P y \<and> x = f y)"
  by (induction xs) (auto split: if_splits)

lemma owned_upd:
  assumes "blocks_owned a" and "\<And>n. index (f n) = index n" "\<And>n. data_blocks (f n) = data_blocks n"
  shows "blocks_owned (a_upd_inode i f a)"
proof (rule owned_cong [OF assms(1)])
  fix n assume "n \<in> set (a_inodes (a_upd_inode i f a))"
  then have "n \<in> set (a_inodes a) \<or> (\<exists>y\<in>set (a_inodes a). n = f y)" by (auto simp: a_upd_inode_def dest: upd_first_mem)
  with assms(2,3) show "data_blocks n = no_blocks \<or> (\<exists>m\<in>set (a_inodes a). index m = index n \<and> data_blocks m = data_blocks n)"
    by fastforce
qed (simp add: a_upd_inode_def)

text \<open>An inode that was written: its new block numbers come with a grown table.\<close>

lemma owned_written:
  assumes a: "blocks_owned a" and n: "owns (data_block_table (a_disk a)) i (data_blocks n)" "index n = i"
    and w: "write_inode n buf off sz (a_disk a) = Ret (st, n', off', dk)"
  shows "blocks_owned (a_upd_inode i (\<lambda>_. n') (a\<lparr>a_disk := dk\<rparr>))"
proof -
  have len: "length (data_block_table (a_disk a)) = NUM_OF_DATA_BLOCKS" using a by (simp add: blocks_owned_def)
  note own = write_inode_owns [OF w len, unfolded n(2), OF n(1)]
  show ?thesis
    unfolding blocks_owned_def
  proof (intro conjI ballI)
    show "length (data_block_table (a_disk (a_upd_inode i (\<lambda>_. n') (a\<lparr>a_disk := dk\<rparr>)))) = NUM_OF_DATA_BLOCKS"
      using own(2) len by (simp add: a_upd_inode_def table_grows_def)
    fix m assume "m \<in> set (a_inodes (a_upd_inode i (\<lambda>_. n') (a\<lparr>a_disk := dk\<rparr>)))"
    then have "m \<in> set (a_inodes a) \<or> m = n'" by (auto simp: a_upd_inode_def dest: upd_first_mem)
    with a own write_inode_refs(1) [OF w] n(2)
    show "owns (data_block_table (a_disk (a_upd_inode i (\<lambda>_. n') (a\<lparr>a_disk := dk\<rparr>)))) (index m) (data_blocks m)"
      by (auto simp: blocks_owned_def a_upd_inode_def intro: owns_grows)
  qed
qed

lemma owned_find: "blocks_owned a \<Longrightarrow> inode_no a i = Some n \<Longrightarrow>
  index n = i \<and> owns (data_block_table (a_disk a)) i (data_blocks n)"
  by (auto simp: blocks_owned_def find_Some_iff)

lemma stamp_blocks [simp]: "data_blocks (set_atim t n) = data_blocks n" "data_blocks (set_mtim t n) = data_blocks n"
  "data_blocks (set_ctim t n) = data_blocks n"
  by (simp_all add: set_atim_def set_mtim_def set_ctim_def)

lemma owned_upd_tick:
  "blocks_owned a \<Longrightarrow> (\<And>n. index (f n) = index n) \<Longrightarrow> (\<And>n. data_blocks (f n) = data_blocks n) \<Longrightarrow>
   blocks_owned (a_upd_inode i f (a_tick a))"
  by (rule owned_upd) (simp_all add: blocks_owned_def a_tick_def)

lemma owned_more [simp]: "blocks_owned (a\<lparr>a_descs := ds\<rparr>) = blocks_owned a" "blocks_owned (a\<lparr>a_names := ns\<rparr>) = blocks_owned a"
  "blocks_owned (a_upd_desc fd f a) = blocks_owned a" "blocks_owned (a_tick a) = blocks_owned a"
  by (simp_all add: blocks_owned_def a_upd_desc_def a_tick_def)

lemma owned_new: "blocks_owned a \<Longrightarrow> data_blocks n = no_blocks \<Longrightarrow> blocks_owned (a\<lparr>a_inodes := a_inodes a @ [n]\<rparr>)"
  by (erule owned_cong) auto

lemma new_inode_blocks: "data_blocks (new_inode i ty own grp rc md sz at mt ct) = no_blocks"
  by (simp add: new_inode_def)

lemma owned_create: "blocks_owned a \<Longrightarrow> data_blocks n = no_blocks \<Longrightarrow>
  blocks_owned ((a_tick a)\<lparr>a_inodes := a_inodes a @ [n]\<rparr>)"
  by (erule owned_cong) auto

lemma owned_write:
  assumes "blocks_owned a" "a_write fd buf sz a = Ret (st, a')"
  shows "blocks_owned a'"
proof (cases "desc_no a fd")
  case d: (Some d)
  show ?thesis
  proof (cases "d_mode d = READ_ONLY \<or> inode_no a (d_node_index d) = None")
    case False
    then obtain n where n: "inode_no a (d_node_index d) = Some n" by auto
    from False d n assms(2) obtain n' off' dk where
      w: "write_inode (set_mtim (a_now a) (set_atim (a_now a) n)) buf (d_offset d) sz (a_disk (a_tick a)) = Ret (st, n', off', dk)"
      and a': "a' = a_upd_desc fd (\<lambda>d. d\<lparr>d_offset := off'\<rparr>)
        (a_upd_inode (d_node_index d) (\<lambda>_. n') ((a_tick a)\<lparr>a_disk := dk\<rparr>))"
      by (auto simp: a_write_def obind_Ret_iff)
    have "blocks_owned (a_upd_inode (d_node_index d) (\<lambda>_. n') ((a_tick a)\<lparr>a_disk := dk\<rparr>))"
      by (rule owned_written [OF _ _ _ w]) (use assms(1) owned_find [OF assms(1) n] in simp_all)
    then show ?thesis by (simp add: a')
  qed (use assms d in \<open>auto simp: a_write_def split: if_splits\<close>)
qed (use assms in \<open>simp add: a_write_def\<close>)

lemma owned_symlink:
  assumes own: "blocks_owned a" and run: "a_symlink name new own' grp md a = Ret (st, a')"
  shows "blocks_owned a'"
proof (cases "lookup_name (a_names a) name = None \<or> name_in (a_names a) new")
  case True
  with own run show ?thesis by (auto simp: a_symlink_def split: option.splits if_splits)
next
  case False
  then obtain i where i: "lookup_name (a_names a) name = Some i" and new: "\<not> name_in (a_names a) new" by auto
  let ?t = "a_now a" and ?j = "next_index (a_inodes a)"
  let ?child = "new_inode ?j F_SYMLINK own' grp 1 md 0 ?t ?t ?t"
  let ?a3 = "(a_tick a)\<lparr>a_inodes := a_inodes a @ [?child], a_names := a_names a @ [name_entry new ?j]\<rparr>"
  let ?a4 = "a_upd_inode i (set_atim (a_now ?a3)) (a_tick ?a3)"
  have a4: "blocks_owned ?a4" by (intro owned_upd_tick) (simp_all add: own owned_create new_inode_blocks)
  from run i new obtain pn where pn: "inode_no a i = Some pn"
    by (auto simp: a_symlink_def split: option.splits if_splits)
  from run i new pn consider "a' = ?a4"
    | buf z st' c' o' dk where "write_inode ?child buf 0 z (a_disk ?a4) = Ret (st', c', o', dk)"
        "a' = a_upd_inode ?j (\<lambda>_. c') (?a4\<lparr>a_disk := dk\<rparr>)"
    by (auto simp: a_symlink_def Let_def obind_Ret_iff a_upd_inode_def split: if_splits)
  then show ?thesis
  proof cases
    case 2
    show ?thesis unfolding 2(2)
      by (rule owned_written [OF a4 _ _ 2(1)]) (simp_all add: new_inode_def owns_no_blocks)
  qed (simp add: a4)
qed

lemma del_first_index: "distinct (map index xs) \<Longrightarrow> m \<in> set (del_first (\<lambda>n. index n = i) xs) \<Longrightarrow> index m \<noteq> i"
  by (induction xs) (auto simp: image_iff split: if_splits)

lemma owned_freed:
  assumes own: "blocks_owned a" and dist: "distinct (map index (a_inodes a))" and n: "inode_no a i = Some n"
    and t: "free_blocks (data_blocks n) (data_block_table (a_disk a)) = Ret t"
  shows "blocks_owned ((a_tick a)\<lparr>a_names := ns, a_inodes := del_first (\<lambda>n. index n = i) (a_inodes a),
    a_disk := (a_disk a)\<lparr>data_block_table := t\<rparr>\<rparr>)"
proof -
  let ?t = "data_block_table (a_disk a)"
  note n = owned_find [OF own n] and free = free_blocks_table [OF t]
  have "owns t (index m) (data_blocks m)" if m: "m \<in> set (del_first (\<lambda>n. index n = i) (a_inodes a))" for m
  proof -
    have "m \<in> set (a_inodes a)" using m set_del_first_subset by fast
    then have mo: "owns ?t (index m) (data_blocks m)" using own by (simp add: blocks_owned_def)
    have ne: "index m \<noteq> i" by (rule del_first_index [OF dist m])
    have "t ! (unat s - 1) = ?t ! (unat s - 1)" if s: "owned ?t (index m) s" for s
    proof -
      have "unat r \<noteq> Suc (unat s - 1)" if "r \<in> set (data_blocks n)" "r \<noteq> 0" for r
      proof
        assume "unat r = Suc (unat s - 1)"
        moreover have "owned ?t i r" using n that by (simp add: owns_def)
        ultimately show False using s ne by (simp add: owned_def)
      qed
      moreover have "unat s - 1 < length ?t" using s by (auto simp: owned_def)
      ultimately show ?thesis using free by blast
    qed
    then have "owned t (index m) s" if "owned ?t (index m) s" for s
      using that free by (simp add: owned_def)
    with mo show ?thesis unfolding owns_def by blast
  qed
  with own free show ?thesis by (simp add: blocks_owned_def)
qed

lemma owned_unlink:
  assumes own: "blocks_owned a" and dist: "distinct (map index (a_inodes a))" and run: "a_unlink name a = Ret (st, a')"
  shows "blocks_owned a'"
proof -
  let ?f = "\<lambda>n. (set_ctim (a_now a) (set_atim (a_now a) n))\<lparr>ref_count := ref_count n - 1\<rparr>"
  let ?t = "data_block_table (a_disk a)"
  consider "a' = a" | i n where "lookup_name (a_names a) name = Some i" "inode_no a i = Some n"
    using run by (cases "lookup_name (a_names a) name"; cases "inode_no a (the (lookup_name (a_names a) name))")
      (auto simp: a_unlink_def)
  then show ?thesis
  proof cases
    case (2 i n)
    show ?thesis
    proof (cases "ref_count n = 1")
      case False
      with run 2 own show ?thesis by (auto simp: a_unlink_def Let_def owned_upd_tick)
    next
      case True
      with run 2 obtain t where t: "free_blocks (data_blocks n) ?t = Ret t" and a': "a' = (a_tick a)
        \<lparr>a_names := del_first (\<lambda>x. filename x = name) (a_names a), a_inodes := del_first (\<lambda>n. index n = i) (a_inodes a),
         a_disk := (a_disk a)\<lparr>data_block_table := t\<rparr>\<rparr>"
        by (auto simp: a_unlink_def Let_def obind_Ret_iff)
      from owned_freed [OF own dist 2(2) t] show ?thesis by (simp add: a')
    qed
  qed (simp add: own)
qed

lemma spec_op_owned:
  assumes own: "blocks_owned a" and ok: "fs_ok a" and run: "spec_op op a = Ret (st, a')"
  shows "blocks_owned a'"
proof -
  have d: "distinct (map index (a_inodes a))" using ok names_ok_distinct by (auto simp: fs_ok_def)
  note rules = owned_write [OF own] owned_symlink [OF own] owned_unlink [OF own d]
  show ?thesis
    using run own
    by (cases op) (auto simp: spec_op_def no_result_Ret a_create_def a_chmod_def a_rename_def a_open_def a_read_def a_seek_def
        a_close_def a_stat_def a_link_def Let_def obind_Ret_iff owned_upd_tick owned_create new_inode_blocks
        split: option.splits if_splits dest: rules)
qed

interpretation owner: machine_invariant spec_op fs_guard "\<lambda>a. fs_ok a \<and> blocks_owned a"
  by unfold_locales (auto simp: fs_guard_def intro: spec_op_ok spec_op_owned)

lemma start_owned: "blocks_owned (a_start dir clk)"
  by (simp add: blocks_owned_def a_start_def blank_disk_def)

end
