(* ===== verification/Isolation.thy ===== *)
theory Isolation
  imports Block_Owner Fs_Props
begin

text \<open>
  Files do not disturb each other: whatever a write does, also one that fails half-way, it changes
  no byte of a block that was in use by another file. As the data file is only extended, this holds as
  long as no block is freed.
\<close>

subsection \<open>Any write on any block device\<close>

text \<open>The slots of a file.\<close>

definition slots :: "u32 list \<Rightarrow> nat set" where
  "slots bl = (\<lambda>s. unat s - 1) ` {s \<in> set bl. s \<noteq> 0}"

context block_device
begin

lemma write_loop_safe:
  assumes "write_loop occ upd ino buf off cb is co sz bl d = Ret (st, bl', d')" and "ok d k" "blocks_ok bl k"
  shows "\<exists>k'\<ge>k. ok d' k' \<and> blocks_ok bl' k' \<and> (\<forall>b<k. b \<notin> slots bl \<longrightarrow> blk d' b = blk d b)"
  using assms
proof (induction "is" arbitrary: co sz bl d k)
  case Nil
  then show ?case by (intro exI [of _ k]) simp
next
  case (Cons i "is")
  have i: "i < length bl" using Cons.prems(1) by (auto split: if_splits)
  then have ni: "\<not> length bl \<le> i" by simp
  have len: "length bl = FILE_MAX_BLOCKS" using Cons.prems(3) by (simp add: blocks_ok_def)
  show ?case
  proof (cases "i = unat cb \<and> bl ! i \<noteq> 0")
    case True
    define w where "w = (if sz > 4096 - off mod 4096 then 4096 - off mod 4096 else sz)"
    let ?s = "bl ! i - 1"
    have s: "unat ?s = unat (bl ! i) - 1" using True by (subst unat_minus_u32) (auto simp: Suc_le_eq unat_gt_0)
    have sk: "unat ?s < k" using True Cons.prems(3) i len unfolding s
      by (metis blocks_ok_def diff_less unat_gt_0 less_le_trans zero_less_one le_eq_less_or_eq less_imp_diff_less)
    have wr: "unat (off mod 4096) + unat w \<le> DATA_BLOCK_ALLOC_SIZE"
      unfolding w_def chunk_unat by (simp add: unat_mod)
    have "obind (upd ?s (drop (unat co) buf) (off mod 4096) w d) (\<lambda>(st1, d1).
        if st1 \<noteq> SUCCESS then Ret (FAILURE, bl, d1)
        else write_loop occ upd ino buf off cb is (co + w) (sz - w) bl d1) = Ret (st, bl', d')"
      using Cons.prems(1) unfolding w_def
      by (simp only: write_loop.simps(2) Let_def if_not_P [OF ni] if_P [OF True])
    then obtain st1 d1 where u: "upd ?s (drop (unat co) buf) (off mod 4096) w d = Ret (st1, d1)"
      and r: "if st1 \<noteq> SUCCESS then bl' = bl \<and> d' = d1 else write_loop occ upd ino buf off cb is (co + w) (sz - w) bl d1 = Ret (st, bl', d')"
      by (auto simp: obind_Ret_iff split: if_splits)
    have "\<not> length (drop (unat co) buf) < unat w" using upd_short [OF Cons.prems(2) sk, of "drop (unat co) buf" w] u by auto
    then obtain d2 where d2: "upd ?s (drop (unat co) buf) (off mod 4096) w d = Ret (SUCCESS, d2)" "ok d2 k"
      "\<forall>b<k. b \<noteq> unat ?s \<longrightarrow> blk d2 b = blk d b"
      using upd_ok [OF Cons.prems(2) sk wr] by (metis not_less)
    have "unat ?s \<in> slots bl" using True i unfolding slots_def s by auto
    with Cons.IH [of "co + w" "sz - w" bl d2 k] d2 u r Cons.prems(3) show ?thesis by auto metis
  next
    case False
    define w where "w = (if sz > 4096 then 4096 else sz)"
    define b where "b = overwrite 0 (take (unat w) (drop (unat co) buf)) (replicate DATA_BLOCK_ALLOC_SIZE 0)"
    have w: "unat w \<le> DATA_BLOCK_ALLOC_SIZE" by (simp add: w_def word_less_nat_alt)
    have "(if length buf < unat co + unat w then Undef else obind (occ ino b w 0 d) (\<lambda>(st1, slot, d1).
        if st1 \<noteq> SUCCESS then Ret (FAILURE, bl, d1)
        else write_loop occ upd ino buf off cb is (co + w) (sz - w) (bl[i := slot]) d1)) = Ret (st, bl', d')"
      using Cons.prems(1) unfolding b_def w_def
      by (simp only: write_loop.simps(2) Let_def if_not_P [OF ni] if_not_P [OF False])
    then obtain st1 slot d1 where fit: "unat co + unat w \<le> length buf"
      and o: "occ ino b w 0 d = Ret (st1, slot, d1)"
      and r: "if st1 \<noteq> SUCCESS then bl' = bl \<and> d' = d1
        else write_loop occ upd ino buf off cb is (co + w) (sz - w) (bl[i := slot]) d1 = Ret (st, bl', d')"
      by (auto simp: obind_Ret_iff split: if_splits)
    show ?thesis
    proof (cases "k < NUM_OF_DATA_BLOCKS")
      case True
      obtain d2 where d2: "occ ino b w 0 d = Ret (SUCCESS, of_nat (Suc k), d2)" "ok d2 (Suc k)" "\<forall>b<k. blk d2 b = blk d b"
        using alloc_block [OF Cons.prems(2) True w fit, of ino] unfolding b_def by metis
      let ?bl = "bl[i := of_nat (Suc k)]"
      note bl1 = blocks_ok_extend [OF Cons.prems(3) True i [unfolded len]]
      have sub: "slots ?bl \<subseteq> slots bl \<union> {k}"
        using set_update_subset_insert [of bl i "of_nat (Suc k)"] bl1(2) by (auto simp: slots_def)
      from d2(1) o r have "write_loop occ upd ino buf off cb is (co + w) (sz - w) ?bl d2 = Ret (st, bl', d')" by auto
      from Cons.IH [OF this d2(2) bl1(1)] obtain k' where k': "Suc k \<le> k'" "ok d' k'" "blocks_ok bl' k'"
        "\<forall>b<Suc k. b \<notin> slots ?bl \<longrightarrow> blk d' b = blk d2 b" by blast
      have "blk d' b = blk d b" if "b < k" "b \<notin> slots bl" for b
      proof -
        have "b \<notin> slots ?bl" using sub that by auto
        with k'(4) d2(3) that(1) show ?thesis by (metis less_SucI)
      qed
      with k'(1-3) show ?thesis by (intro exI [of _ k']) simp
    next
      case False
      with ok_bound [OF Cons.prems(2)] have "k = NUM_OF_DATA_BLOCKS" by simp
      with occ_full o Cons.prems(2) have "st1 = FAILURE" "d1 = d" by auto
      with r Cons.prems(2,3) show ?thesis by (intro exI [of _ k]) auto
    qed
  qed
qed

end

subsection \<open>Writing one of several files\<close>

lemma owns_blocks_ok:
  assumes "disk_ok d k" "owns (data_block_table d) i bl"
  shows "blocks_ok bl k"
proof -
  have "unat s \<le> k" if "s \<in> set bl" for s
  proof (cases "s = 0")
    case False
    with assms that have o: "owned (data_block_table d) i s" by (simp add: owns_def)
    then have "allocated (data_block_table d ! (unat s - 1))" by (simp add: owned_def)
    moreover have "unat s - 1 < NUM_OF_DATA_BLOCKS" using o assms(1) by (auto simp: owned_def disk_ok_def)
    ultimately show ?thesis using assms(1) by (auto simp: disk_ok_def)
  qed simp
  then show ?thesis using assms(2) unfolding owns_def blocks_ok_def by auto
qed

text \<open>The bytes of the other files after a write to the blocks \<open>bl\<close>.\<close>

definition keeps_others :: "u32 list \<Rightarrow> nat \<Rightarrow> disk \<Rightarrow> disk \<Rightarrow> bool" where
  "keeps_others bl k d d' \<longleftrightarrow> (\<forall>other p. blocks_ok other k \<and> disjoint_blocks other bl \<and> mapped other p \<longrightarrow>
     file_byte d' other p = file_byte d other p)"

lemma keeps_others_refl [simp]: "keeps_others bl k d d"
  by (simp add: keeps_others_def)

lemma blocks_kept:
  assumes "\<forall>b<k. b \<notin> slots bl \<longrightarrow> block_at d' b = block_at d b" and "length bl = FILE_MAX_BLOCKS"
  shows "keeps_others bl k d d'"
  unfolding keeps_others_def
proof (intro allI impI)
  fix other p assume o: "blocks_ok other k \<and> disjoint_blocks other bl \<and> mapped other p"
  let ?s = "other ! (p div DATA_BLOCK_ALLOC_SIZE)"
  have s: "unat ?s - 1 < k" "0 < unat ?s" using o mapped_slot by blast+
  have "unat ?s - 1 \<notin> slots bl"
  proof
    assume "unat ?s - 1 \<in> slots bl"
    then obtain r where r: "r \<in> set bl" "r \<noteq> 0" "unat r - 1 = unat ?s - 1" by (auto simp: slots_def)
    have "0 < unat r" using r(2) by (simp add: unat_gt_0)
    with r(3) s(2) have "unat r = unat ?s" by linarith
    then have "r = ?s" by (simp add: word_unat_eq_iff)
    with r(1) have "?s \<in> set bl" by simp
    then obtain i where "i < FILE_MAX_BLOCKS" "bl ! i = ?s" using assms(2) by (auto simp: in_set_conv_nth)
    with o show False unfolding disjoint_blocks_def mapped_def by metis
  qed
  with assms(1) s(1) show "file_byte d' other p = file_byte d other p" by (simp add: byte_at_def)
qed

lemma write_inode_safe:
  assumes "write_inode n buf off sz d = Ret (st, n', off', d')" and "disk_ok d k" "blocks_ok (data_blocks n) k"
  obtains k' where "k \<le> k'" "disk_ok d' k'" "keeps_others (data_blocks n) k d d'"
proof -
  have len: "length (data_blocks n) = FILE_MAX_BLOCKS" using assms(3) by (simp add: blocks_ok_def)
  show thesis
  proof (cases "off + sz > 4096 * 100")
    case True
    with assms(1) have "d' = d" by (simp add: write_inode_def)
    with assms(2) that [of k] show ?thesis by simp
  next
    case False
    with assms(1) obtain st bl' where "write_loop occupy_block_table_slot update_block_table_slot (index n) buf
        off (off div 4096) [unat (off div 4096)..<unat (total_blocks (off + sz))] 0 sz (data_blocks n) d = Ret (st, bl', d')"
      unfolding write_inode_def Let_def if_not_P [OF False] obind_Ret_iff
      by (elim exE conjE) (simp split: prod.splits if_splits)
    from blocks.write_loop_safe [OF this assms(2,3)] obtain k' where "k \<le> k'" "disk_ok d' k'"
      "\<forall>b<k. b \<notin> slots (data_blocks n) \<longrightarrow> block_at d' b = block_at d b" by blast
    with blocks_kept [OF _ len] show ?thesis by (intro that [of k']) simp_all
  qed
qed

subsection \<open>Operations\<close>

text \<open>The inode that an operation writes to.\<close>

definition written :: "fs_op \<Rightarrow> afs \<Rightarrow> u32 option" where
  "written op a = (case op of OpWrite fd _ _ \<Rightarrow> map_option d_node_index (desc_no a fd) | _ \<Rightarrow> None)"

text \<open>All files but \<open>w\<close> are still there with their blocks and their bytes.\<close>

definition others_kept :: "u32 option \<Rightarrow> afs \<Rightarrow> afs \<Rightarrow> bool" where
  "others_kept w a a' \<longleftrightarrow> (\<forall>n\<in>set (a_inodes a). w \<noteq> Some (index n) \<longrightarrow>
     (\<exists>n'\<in>set (a_inodes a'). index n' = index n \<and> data_blocks n' = data_blocks n) \<and>
     (\<forall>p. mapped (data_blocks n) p \<longrightarrow> file_byte (a_disk a') (data_blocks n) p = file_byte (a_disk a) (data_blocks n) p))"

lemma upd_first_keeps: "x \<in> set xs \<Longrightarrow> x \<in> set (upd_first P f xs) \<or> (P x \<and> f x \<in> set (upd_first P f xs))"
  by (induction xs) auto

definition inodes_kept :: "u32 option \<Rightarrow> afs \<Rightarrow> afs \<Rightarrow> bool" where
  "inodes_kept w a a' \<longleftrightarrow> (\<forall>n\<in>set (a_inodes a). w \<noteq> Some (index n) \<longrightarrow>
     (\<exists>n'\<in>set (a_inodes a'). index n' = index n \<and> data_blocks n' = data_blocks n))"

lemma inodes_kept_upd:
  assumes "\<And>n. w \<noteq> Some (index n) \<Longrightarrow> index n = i \<Longrightarrow> index (f n) = index n \<and> data_blocks (f n) = data_blocks n"
    and "\<And>n. n \<in> set (a_inodes a) \<Longrightarrow> n \<in> set (a_inodes b)"
  shows "inodes_kept w a (a_upd_inode i f b)"
  unfolding inodes_kept_def
proof (intro ballI impI)
  fix n assume n: "n \<in> set (a_inodes a)" "w \<noteq> Some (index n)"
  from upd_first_keeps [OF assms(2) [OF n(1)], of "\<lambda>n. index n = i" f] assms(1) [OF n(2)]
  show "\<exists>n'\<in>set (a_inodes (a_upd_inode i f b)). index n' = index n \<and> data_blocks n' = data_blocks n"
    by (auto simp: a_upd_inode_def)
qed

lemma inodes_kept_more [simp]: "inodes_kept w a (b\<lparr>a_descs := ds\<rparr>) = inodes_kept w a b"
  by (simp add: inodes_kept_def)

lemma inodes_kept_sub: "(\<And>n. n \<in> set (a_inodes a) \<Longrightarrow> n \<in> set (a_inodes b)) \<Longrightarrow> inodes_kept w a b"
  by (auto simp: inodes_kept_def)

lemma kept_write:
  assumes own: "blocks_owned a" and ok: "disk_ok (a_disk a) k" and run: "a_write fd buf sz a = Ret (st, a')"
  shows "\<exists>k'\<ge>k. disk_ok (a_disk a') k' \<and> others_kept (map_option d_node_index (desc_no a fd)) a a'"
proof (cases "desc_no a fd")
  case d: (Some d)
  show ?thesis
  proof (cases "d_mode d = READ_ONLY \<or> inode_no a (d_node_index d) = None")
    case False
    then obtain n where n: "inode_no a (d_node_index d) = Some n" by auto
    let ?n = "set_mtim (a_now a) (set_atim (a_now a) n)" and ?t = "data_block_table (a_disk a)"
    from False d n run obtain n' off' dk where w: "write_inode ?n buf (d_offset d) sz (a_disk a) = Ret (st, n', off', dk)"
      and a': "a' = a_upd_desc fd (\<lambda>d. d\<lparr>d_offset := off'\<rparr>) (a_upd_inode (d_node_index d) (\<lambda>_. n') ((a_tick a)\<lparr>a_disk := dk\<rparr>))"
      by (auto simp: a_write_def obind_Ret_iff)
    note own_n = owned_find [OF own n]
    then have "blocks_ok (data_blocks ?n) k" using owns_blocks_ok [OF ok conjunct2 [OF own_n]] by simp
    from write_inode_safe [OF w ok this] obtain k' where
      k': "k \<le> k'" "disk_ok dk k'" "keeps_others (data_blocks n) k (a_disk a) dk" by auto
    have "file_byte dk (data_blocks m) p = file_byte (a_disk a) (data_blocks m) p"
      if m: "m \<in> set (a_inodes a)" "index m \<noteq> d_node_index d" "mapped (data_blocks m) p" for m p
    proof -
      have o: "owns ?t (index m) (data_blocks m)" using own m(1) by (simp add: blocks_owned_def)
      with own_n m(2) have "disjoint_blocks (data_blocks m) (data_blocks n)" by (blast intro: owns_disjoint)
      with k'(3) owns_blocks_ok [OF ok o] m(3) show ?thesis by (simp add: keeps_others_def)
    qed
    moreover have "inodes_kept (Some (d_node_index d)) a (a_upd_inode (d_node_index d) (\<lambda>_. n') ((a_tick a)\<lparr>a_disk := dk\<rparr>))"
      by (rule inodes_kept_upd) simp_all
    ultimately show ?thesis using k'(1,2)
      by (intro exI [of _ k']) (auto simp: a' d others_kept_def inodes_kept_def a_upd_desc_def a_upd_inode_def)
  qed (use ok run d in \<open>auto simp: a_write_def others_kept_def split: if_splits\<close>)
qed (use ok run in \<open>auto simp: a_write_def others_kept_def\<close>)

text \<open>Operations that leave the disk alone.\<close>

lemma kept_quiet: "inodes_kept w a a' \<Longrightarrow> a_disk a' = a_disk a \<Longrightarrow> others_kept w a a'"
  by (simp add: inodes_kept_def others_kept_def)

lemma disjoint_no_blocks: "disjoint_blocks bl no_blocks"
  by (simp add: disjoint_blocks_def no_blocks_def)

lemma kept_symlink:
  assumes own: "blocks_owned a" and ok: "disk_ok (a_disk a) k" and run: "a_symlink name new own' grp md a = Ret (st, a')"
    and fresh: "inode_no a (next_index (a_inodes a)) = None"
  shows "\<exists>k'\<ge>k. disk_ok (a_disk a') k' \<and> others_kept None a a'"
proof (cases "lookup_name (a_names a) name = None \<or> name_in (a_names a) new")
  case True
  with ok run show ?thesis by (auto simp: a_symlink_def others_kept_def split: option.splits if_splits)
next
  case False
  then obtain i where i: "lookup_name (a_names a) name = Some i" and new: "\<not> name_in (a_names a) new" by auto
  let ?t = "a_now a" and ?j = "next_index (a_inodes a)"
  let ?child = "new_inode ?j F_SYMLINK own' grp 1 md 0 ?t ?t ?t"
  let ?a3 = "(a_tick a)\<lparr>a_inodes := a_inodes a @ [?child], a_names := a_names a @ [name_entry new ?j]\<rparr>"
  let ?a4 = "a_upd_inode i (set_atim (a_now ?a3)) (a_tick ?a3)"
  have in4: "inodes_kept None a ?a4" by (rule inodes_kept_upd) simp_all
  have j: "index n \<noteq> ?j" if "n \<in> set (a_inodes a)" for n using fresh that by (auto simp: find_None_iff)
  from run i new obtain pn where pn: "inode_no a i = Some pn"
    by (auto simp: a_symlink_def split: option.splits if_splits)
  from run i new pn consider "a' = ?a4"
    | buf z st' c' o' dk where "write_inode ?child buf 0 z (a_disk a) = Ret (st', c', o', dk)"
        "a' = a_upd_inode ?j (\<lambda>_. c') (?a4\<lparr>a_disk := dk\<rparr>)"
    by (auto simp: a_symlink_def Let_def obind_Ret_iff a_upd_inode_def split: if_splits)
  then show ?thesis
  proof cases
    case 1
    with ok kept_quiet [OF in4] show ?thesis by (intro exI [of _ k]) (simp add: a_upd_inode_def)
  next
    case 2
    have "blocks_ok (data_blocks ?child) k" by (simp add: blocks_ok_no_blocks new_inode_blocks)
    from write_inode_safe [OF 2(1) ok this] obtain k' where
      k': "k \<le> k'" "disk_ok dk k'" "keeps_others no_blocks k (a_disk a) dk" by (auto simp: new_inode_blocks)
    have "file_byte dk (data_blocks m) p = file_byte (a_disk a) (data_blocks m) p"
      if "m \<in> set (a_inodes a)" "mapped (data_blocks m) p" for m p
      using that k'(3) own owns_blocks_ok [OF ok] disjoint_no_blocks by (auto simp: keeps_others_def blocks_owned_def)
    moreover have "inodes_kept None a (a_upd_inode ?j (\<lambda>_. c') (?a4\<lparr>a_disk := dk\<rparr>))"
      unfolding inodes_kept_def
    proof (intro ballI impI)
      fix n assume n: "n \<in> set (a_inodes a)"
      with in4 obtain m where m: "m \<in> set (a_inodes ?a4)" "index m = index n" "data_blocks m = data_blocks n"
        by (auto simp: inodes_kept_def)
      with upd_first_keeps [OF m(1), of "\<lambda>n. index n = ?j" "\<lambda>_. c'"] j [OF n]
      show "\<exists>n'\<in>set (a_inodes (a_upd_inode ?j (\<lambda>_. c') (?a4\<lparr>a_disk := dk\<rparr>))). index n' = index n \<and> data_blocks n' = data_blocks n"
        by (auto simp: a_upd_inode_def)
    qed
    ultimately show ?thesis using k'(1,2)
      by (intro exI [of _ k']) (auto simp: 2(2) others_kept_def inodes_kept_def a_upd_inode_def)
  qed
qed

text \<open>Every operation but unlinking.\<close>

definition no_unlink :: "fs_op \<Rightarrow> bool" where
  "no_unlink op \<longleftrightarrow> (case op of OpUnlink _ \<Rightarrow> False | _ \<Rightarrow> True)"

lemma spec_op_isolates:
  assumes own: "blocks_owned a" and ok: "fs_ok a" and nl: "numbers_left a" and disk: "disk_ok (a_disk a) k"
    and op: "no_unlink op" and run: "spec_op op a = Ret (st, a')"
  shows "\<exists>k'\<ge>k. disk_ok (a_disk a') k' \<and> others_kept (written op a) a a'"
proof (cases "(\<exists>fd buf sz. op = OpWrite fd buf sz) \<or> (\<exists>name new own grp md. op = OpSymlink name new own grp md)")
  case True
  have "inode_no a (next_index (a_inodes a)) = None"
    using ok nl next_index_fresh unfolding inode_no_iff by (fastforce simp: fs_ok_def numbers_left_def)
  with True run kept_write [OF own disk] kept_symlink [OF own disk] show ?thesis
    by (auto simp: spec_op_def written_def)
next
  case False
  have "a_disk a' = a_disk a" using run op False
    by (cases op) (auto simp: spec_op_def no_unlink_def no_result_Ret a_create_def a_chmod_def a_rename_def a_open_def a_read_def a_seek_def
        a_close_def a_stat_def a_link_def Let_def obind_Ret_iff a_upd_inode_def a_upd_desc_def split: option.splits if_splits)
  moreover have "inodes_kept (written op a) a a'" using run op False
    by (cases op) (auto simp: spec_op_def no_unlink_def no_result_Ret a_create_def a_chmod_def a_rename_def a_open_def a_read_def a_seek_def
        a_close_def a_stat_def a_link_def Let_def obind_Ret_iff a_upd_desc_def
        intro!: inodes_kept_upd intro: inodes_kept_sub split: option.splits if_splits)
  ultimately show ?thesis using disk kept_quiet by auto
qed

subsection \<open>Properties\<close>

lemma guarded_init: "guarded step guard (ops @ [op]) s \<Longrightarrow> guarded step guard ops s"
  by (induction ops arbitrary: s) (auto split: outcome.splits prod.splits)

lemma guarded_last: "guarded step guard (ops @ [op]) s \<Longrightarrow> run_ops step ops s = Ret (rs, s') \<Longrightarrow> guard op s'"
  by (induction ops arbitrary: s rs) (auto simp: obind_Ret_iff)

text \<open>The runs without unlinking keep the block table a prefix.\<close>

definition keeping_guard :: "fs_op \<Rightarrow> afs \<Rightarrow> bool" where
  "keeping_guard op a \<longleftrightarrow> fs_guard op a \<and> no_unlink op"

definition isolated :: "afs \<Rightarrow> bool" where
  "isolated a \<longleftrightarrow> fs_ok a \<and> blocks_owned a \<and> (\<exists>k. disk_ok (a_disk a) k)"

interpretation keeping: machine_refinement spec_op keeping_guard isolated exec_op fs_rel
proof
  fix s op r s'
  assume a: "isolated s" "keeping_guard op s" "spec_op op s = Ret (r, s')"
  then obtain k where "disk_ok (a_disk s) k" by (auto simp: isolated_def)
  with a spec_op_isolates [of s k op] spec_op_ok spec_op_owned show "isolated s'"
    by (fastforce simp: isolated_def keeping_guard_def fs_guard_def)
next
  fix c s op
  assume "fs_rel c s" "isolated s" "keeping_guard op s"
  then show "refines (exec_op op c) (spec_op op s)"
    by (intro exec_refines) (auto simp: isolated_def keeping_guard_def fs_guard_def)
qed

lemma start_isolated: "isolated (a_start dir clk)"
proof -
  have "disk_ok (a_disk (a_start dir clk)) 0" by (simp add: a_start_def)
  then show ?thesis using start_ok start_owned unfolding isolated_def by blast
qed

text \<open> C10. Every block has one owner: in every state that a run of operations reaches, block numbers of files are
  slots of the block table that are marked as allocated to this file, and no slot occurs twice, neither in
  one file nor in two. This includes runs that write over blocks, fail on a full disk, and free
  the blocks of unlinked files. \<close>

theorem blocks_have_one_owner:
  assumes "guarded spec_op fs_guard ops (a_start dir clk)"
    and "run_ops exec_op ops (fs_start dir clk) = Ret (sts, s)"
  shows "\<exists>is. table_is (inode_table s) is \<and>
    (\<forall>n\<in>set is. \<forall>b\<in>set (data_blocks n). b \<noteq> 0 \<longrightarrow> unat b \<le> NUM_OF_DATA_BLOCKS \<and>
       data_block_table (data_disk s) ! (unat b - 1) = \<lparr>allocated = True, inode_index = index n\<rparr>) \<and>
    (\<forall>n\<in>set is. \<forall>m\<in>set is. \<forall>i<FILE_MAX_BLOCKS. \<forall>j<FILE_MAX_BLOCKS.
       data_blocks n ! i = data_blocks m ! j \<and> data_blocks n ! i \<noteq> 0 \<longrightarrow> n = m \<and> i = j)"
proof (rule reached [OF assms])
  fix a assume a: "run_ops spec_op ops (a_start dir clk) = Ret (sts, a)" "fs_rel s a" "fs_ok a"
  let ?t = "data_block_table (a_disk a)"
  from owner.run_inv [OF _ assms(1) a(1)] have own: "blocks_owned a" by (simp add: start_ok start_owned)
  then have o: "owns ?t (index n) (data_blocks n)" if "n \<in> set (a_inodes a)" for n
    using that by (simp add: blocks_owned_def)
  have inj: "inj_on index (set (a_inodes a))"
    using a(3) names_ok_distinct by (auto simp: fs_ok_def distinct_map)
  have "n = m \<and> i = j" if n: "n \<in> set (a_inodes a)" and m: "m \<in> set (a_inodes a)" and i: "i < FILE_MAX_BLOCKS" "j < FILE_MAX_BLOCKS"
    "data_blocks n ! i = data_blocks m ! j" "data_blocks n ! i \<noteq> 0" for n m i j
  proof -
    from owns_disjoint [OF o [OF n] o [OF m]] i have "index n = index m" unfolding disjoint_blocks_def by metis
    with inj n m have "n = m" by (simp add: inj_on_def)
    with o [OF n] i show ?thesis unfolding owns_def by metis
  qed
  moreover have "unat b \<le> NUM_OF_DATA_BLOCKS \<and> ?t ! (unat b - 1) = \<lparr>allocated = True, inode_index = index n\<rparr>"
    if "n \<in> set (a_inodes a)" "b \<in> set (data_blocks n)" "b \<noteq> 0" for n b
    using o [OF that(1)] that(2,3) own by (simp add: owns_def owned_def blocks_owned_def)
  ultimately show ?thesis using a(2) unfolding fs_rel_def by (intro exI [of _ "a_inodes a"]) auto
qed

theorem blocks_have_one_owner_witness:
  "\<exists>s is. run_ops exec_op demo_ops (fs_start ''/r'' noon) =
      Ret ([SUCCESS, SUCCESS, SUCCESS, DOUBLE_WRITE, SUCCESS, SUCCESS], s) \<and> table_is (inode_table s) is \<and>
    (\<forall>n\<in>set is. \<forall>b\<in>set (data_blocks n). b \<noteq> 0 \<longrightarrow> unat b \<le> NUM_OF_DATA_BLOCKS)"
proof (rule demo_run)
  fix s assume r: "run_ops exec_op demo_ops (fs_start ''/r'' noon) =
      Ret ([SUCCESS, SUCCESS, SUCCESS, DOUBLE_WRITE, SUCCESS, SUCCESS], s)"
  from blocks_have_one_owner [OF demo_guarded r] show ?thesis
    by (elim exE conjE) (intro exI conjI, rule r, assumption, blast)
qed

text \<open> C11. Isolation of files: in every state that a run without unlinking reaches, any further such operation leaves
  every file alone that it does not write to: the file keeps its number and its blocks, and
  every byte of it is the same. Only \<open>OpWrite\<close> writes, to the inode of its descriptor. \<close>

theorem files_isolated:
  assumes "guarded spec_op keeping_guard (ops @ [op]) (a_start dir clk)"
    and "run_ops exec_op ops (fs_start dir clk) = Ret (sts, s)" and "exec_op op s = Ret (st, s')"
  shows "\<exists>is ds is'. table_is (inode_table s) is \<and> table_is (descriptor_table s) ds \<and> table_is (inode_table s') is' \<and>
    (\<forall>n\<in>set is. (\<nexists>d fd buf sz. op = OpWrite fd buf sz \<and> d \<in> set ds \<and> desc d = fd \<and> d_node_index d = index n) \<longrightarrow>
      (\<exists>n'\<in>set is'. index n' = index n \<and> data_blocks n' = data_blocks n) \<and>
      (\<forall>p. mapped (data_blocks n) p \<longrightarrow>
         file_byte (data_disk s') (data_blocks n) p = file_byte (data_disk s) (data_blocks n) p))"
proof -
  note g = guarded_init [OF assms(1)]
  obtain a where a: "run_ops spec_op ops (a_start dir clk) = Ret (sts, a)" "fs_rel s a" "isolated a"
    by (rule keeping.run_reaches [OF start_rel start_isolated g assms(2)])
  have op: "keeping_guard op a" using assms(1) a(1) by (rule guarded_last)
  from keeping.simulation [OF a(2,3) op] assms(3) obtain a' where a': "spec_op op a = Ret (st, a')" "fs_rel s' a'"
    by (cases "spec_op op a") auto
  obtain k where k: "disk_ok (a_disk a) k" using a(3) by (auto simp: isolated_def)
  from spec_op_isolates [OF _ _ _ k _ a'(1)] a(3) op have kept: "others_kept (written op a) a a'"
    by (auto simp: isolated_def keeping_guard_def fs_guard_def)
  have "written op a \<noteq> Some (index n)"
    if "\<nexists>d fd buf sz. op = OpWrite fd buf sz \<and> d \<in> set (a_descs a) \<and> desc d = fd \<and> d_node_index d = index n" for n
    using that by (auto simp: written_def find_Some_iff split: fs_op.splits)
  with kept a(2) a'(2) show ?thesis
    unfolding fs_rel_def by (intro exI [of _ "a_inodes a"] exI [of _ "a_descs a"] exI [of _ "a_inodes a'"])
      (auto simp: others_kept_def)
qed

text \<open>Two files are created and one is opened and written.\<close>

definition two_files :: "fs_op list" where
  "two_files = [OpCreate [65] 1000 1000 420, OpCreate [66] 1000 1000 420, OpOpen [65] 1]"

lemma two_files_guarded: "guarded spec_op keeping_guard (two_files @ [OpWrite 0 [1, 2, 3] 3]) (a_start ''/r'' noon)"
  by (simp add: two_files_def op_eval keeping_guard_def no_unlink_def split: outcome.splits)

lemma a_write_runs:
  "desc_no a fd = Some d \<Longrightarrow> d_mode d \<noteq> READ_ONLY \<Longrightarrow> inode_no a (d_node_index d) = Some n \<Longrightarrow>
   \<exists>n' off' dk. write_inode (set_mtim (a_now a) (set_atim (a_now a) n)) buf (d_offset d) sz (a_disk a) = Ret (st, n', off', dk) \<Longrightarrow>
   \<exists>a'. spec_op (OpWrite fd buf sz) a = Ret (st, a')"
  by (auto simp: spec_op_def a_write_def)

lemma two_files_spec:
  obtains a where "run_ops spec_op two_files (a_start ''/r'' noon) = Ret ([SUCCESS, SUCCESS, SUCCESS], a)"
    "\<exists>a'. spec_op (OpWrite 0 [1, 2, 3] 3) a = Ret (SUCCESS, a')"
proof -
  have w: "writable n 0 3 0" if "data_blocks n = no_blocks" for n
    using blank_writable [of 3] that by (simp add: writable_def)
  have wr: "\<exists>n' off' dk. write_inode n [1, 2, 3] 0 3 (blank_disk ''/r'') = Ret (SUCCESS, n', off', dk)"
    if "data_blocks n = no_blocks" for n
    using write_read_inode [OF blank_disk_ok [of "''/r''"] _ w [OF that], where buf = "[1, 2, 3]" and out = "[1, 2, 3]"] that
    by (force simp: blocks_ok_no_blocks)
  obtain a where a: "run_ops spec_op two_files (a_start ''/r'' noon) = Ret ([SUCCESS, SUCCESS, SUCCESS], a)"
    "\<exists>d n. desc_no a 0 = Some d \<and> d_mode d = 1 \<and> d_offset d = 0 \<and> inode_no a (d_node_index d) = Some n \<and>
       data_blocks n = no_blocks" "a_disk a = blank_disk ''/r''"
    by (simp add: two_files_def op_eval)
  from a(2) obtain d n where d: "desc_no a 0 = Some d" "d_mode d = 1" "d_offset d = 0"
    "inode_no a (d_node_index d) = Some n" "data_blocks n = no_blocks" by blast
  show thesis
    by (rule that [OF a(1)], rule a_write_runs [OF d(1) _ d(4)]) (simp_all add: d a(3) wr)
qed

theorem files_isolated_witness:
  "\<exists>s s' is ds is'. run_ops exec_op two_files (fs_start ''/r'' noon) = Ret ([SUCCESS, SUCCESS, SUCCESS], s) \<and>
    exec_op (OpWrite 0 [1, 2, 3] 3) s = Ret (SUCCESS, s') \<and>
    table_is (inode_table s) is \<and> table_is (descriptor_table s) ds \<and> table_is (inode_table s') is' \<and>
    (\<forall>n\<in>set is. (\<nexists>d. d \<in> set ds \<and> desc d = 0 \<and> d_node_index d = index n) \<longrightarrow>
      (\<exists>n'\<in>set is'. index n' = index n \<and> data_blocks n' = data_blocks n))"
proof (rule two_files_spec)
  fix a assume a: "run_ops spec_op two_files (a_start ''/r'' noon) = Ret ([SUCCESS, SUCCESS, SUCCESS], a)"
    "\<exists>a'. spec_op (OpWrite 0 [1, 2, 3] 3) a = Ret (SUCCESS, a')"
  have g: "guarded spec_op keeping_guard two_files (a_start ''/r'' noon)"
    by (simp add: two_files_def op_eval keeping_guard_def no_unlink_def)
  from keeping.run_refines [OF start_rel start_isolated g] a(1) obtain s where
    s: "run_ops exec_op two_files (fs_start ''/r'' noon) = Ret ([SUCCESS, SUCCESS, SUCCESS], s)" "fs_rel s a"
    by (cases "run_ops exec_op two_files (fs_start ''/r'' noon)") auto
  have op: "keeping_guard (OpWrite 0 [1, 2, 3] 3) a" using two_files_guarded a(1) by (rule guarded_last)
  from keeping.simulation [OF s(2) keeping.run_inv [OF start_isolated g a(1)] op] a(2) obtain s' where
    s': "exec_op (OpWrite 0 [1, 2, 3] 3) s = Ret (SUCCESS, s')" by (cases "exec_op (OpWrite 0 [1, 2, 3] 3) s") auto
  from files_isolated [OF two_files_guarded s(1) s'] s(1) s' show ?thesis by (auto 0 4)
qed

end
