(* ===== verification/Reuse.thy ===== *)
theory Reuse
  imports Fs_Ops
begin

text \<open>
  What happens after a block was freed: the slots of the block table and the places in the data file
  go apart, because a slot is taken again but its bytes go to the end of the file.
\<close>

subsection \<open>Files of one block\<close>

text \<open>The disk as far as reading and allocating need it.\<close>

definition disk_open :: "disk \<Rightarrow> bool" where
  "disk_open d \<longleftrightarrow> pw_dir (host d) \<noteq> None \<and> can_open (host d) (data_path d)"

lemma write_one_block:
  assumes "free_slot 0 (data_block_table d) = Some i" "disk_open d" and "data_blocks n = no_blocks"
    and sz: "0 < unat sz" "unat sz \<le> DATA_BLOCK_ALLOC_SIZE" "unat sz \<le> length buf"
  obtains n' d' where "write_inode n buf 0 sz d = Ret (SUCCESS, n', sz, d')" "data_blocks n' = no_blocks[0 := of_nat (Suc i)]"
    "disk_open d'" "files (host d') (data_path d') \<noteq> None"
    "data_block_table d' = (data_block_table d)[i := \<lparr>allocated = True, inode_index = index n\<rparr>]"
    "data_bytes d' = data_bytes d @ take (unat sz) buf @ replicate (DATA_BLOCK_ALLOC_SIZE - unat sz) 0"
proof -
  let ?b = "overwrite 0 (take (unat sz) buf) (replicate DATA_BLOCK_ALLOC_SIZE 0)"
  have b: "unat sz \<le> length ?b" "take (unat sz) ?b = take (unat sz) buf" using sz by (simp_all add: overwrite_def)
  from occupy_appends [OF assms(1) _ _ sz(2) b(1), of "index n" 0] assms(2) obtain d' where
    d': "occupy_block_table_slot (index n) ?b sz 0 d = Ret (SUCCESS, of_nat (Suc i), d')"
      "data_block_table d' = (data_block_table d)[i := \<lparr>allocated = True, inode_index = index n\<rparr>]"
      "data_bytes d' = data_bytes d @ take (unat sz) buf @ replicate (DATA_BLOCK_ALLOC_SIZE - unat sz) 0"
      "pw_dir (host d') = pw_dir (host d)" "can_open (host d') = can_open (host d)" "files (host d') (data_path d') \<noteq> None"
    unfolding b(2) disk_open_def by metis
  have "nblocks (unat sz) = 1" using sz by (intro nblocks_unique) simp_all
  then have t: "[unat (0 div 4096 :: u32)..<unat (total_blocks (0 + sz))] = [0]" by (simp add: unat_total_blocks)
  have le: "\<not> 0 + sz > 4096 * 100" "\<not> sz > 4096" using sz(2) by (simp_all add: word_less_nat_alt)
  have "write_loop occupy_block_table_slot update_block_table_slot (index n) buf 0 0 [0] 0 sz no_blocks d =
      Ret (SUCCESS, no_blocks[0 := of_nat (Suc i)], d')"
    using d'(1) le sz(3) by (simp add: no_blocks_def)
  moreover define n' where "n' = n\<lparr>data_blocks := no_blocks[0 := of_nat (Suc i)], stat := (stat n)\<lparr>st_size := ucast sz\<rparr>\<rparr>"
  ultimately have "write_inode n buf 0 sz d = Ret (SUCCESS, n', sz, d')"
    unfolding write_inode_def Let_def if_not_P [OF le(1)] t by (simp add: assms(3))
  moreover have "data_blocks n' = no_blocks[0 := of_nat (Suc i)]" by (simp add: n'_def)
  moreover have "data_path d' = data_path d" by (rule data_path_cong) (rule d'(4))
  ultimately show thesis using d' assms(2) by (intro that [of n' d']) (simp_all add: disk_open_def)
qed

lemma read_one_block:
  assumes "disk_open d" "files (host d) (data_path d) \<noteq> None" and "data_blocks n = no_blocks[0 := of_nat (Suc i)]"
    and i: "i < NUM_OF_DATA_BLOCKS" and sz: "0 < unat sz" "unat sz \<le> DATA_BLOCK_ALLOC_SIZE" "unat sz \<le> length buf"
  shows "read_inode n buf 0 sz d = Ret (SUCCESS, overwrite 0 (take (unat sz) (block_at d i)) buf, sz)"
proof -
  have s: "of_nat (Suc i) - 1 = (of_nat i :: u32)" by simp
  have u: "unat (of_nat i :: u32) = i" using i by (intro unat_of_nat_u32) (simp add: NUM_OF_DATA_BLOCKS_def)
  have le: "\<not> 0 + sz > 4096 * 100" "\<not> sz > 4096" using sz(2) by (simp_all add: word_less_nat_alt)
  have nz: "sz \<noteq> 0" using sz(1) by auto
  have b: "data_blocks n ! 0 - 1 = of_nat i" using s by (simp add: assms(3) no_blocks_def)
  have "read_block_table_slot (of_nat i) buf 0 0 sz d = Ret (SUCCESS, overwrite 0 (take (unat sz) (block_at d i)) buf)"
    using read_slot_any [of "of_nat i" 0 sz 0 buf d] assms u by (simp add: disk_open_def)
  then show ?thesis
    using b le nz assms(3) by (simp add: read_inode_def read_loop.simps [of _ _ sz] read_loop.simps [of _ _ 0] Let_def no_blocks_def)
qed

subsection \<open>Two files written after an unlinking\<close>

text \<open>The disk after \<^verbatim>\<open>unlink_inode\<close> freed the slot \<open>f\<close>.\<close>

definition freed :: "nat \<Rightarrow> disk \<Rightarrow> disk" where
  "freed f d = d\<lparr>data_block_table := (data_block_table d)[f := \<lparr>allocated = False, inode_index = 0\<rparr>]\<rparr>"

text \<open>It is what the loop of \<^verbatim>\<open>unlink_inode\<close> leaves of the block table for a file with this one block.\<close>

lemma free_blocks_freed:
  assumes "f < length (data_block_table d)" "f < NUM_OF_DATA_BLOCKS"
  shows "free_blocks (no_blocks[0 := of_nat (Suc f)]) (data_block_table d) = Ret (data_block_table (freed f d))"
proof -
  have u: "unat (of_nat (Suc f) :: u32) = Suc f" "unat (of_nat f :: u32) = f"
    using assms(2) by (simp_all only: unat_of_nat_u32 NUM_OF_DATA_BLOCKS_def)
  have "0 < (of_nat (Suc f) :: u32)" by (simp only: word_less_nat_alt u) simp
  moreover have "no_blocks[0 := of_nat (Suc f)] = of_nat (Suc f) # replicate 99 0"
    by (simp add: no_blocks_def eval_nat_numeral)
  moreover have "free_blocks (replicate 99 0) t = Ret t" for t by (simp add: eval_nat_numeral)
  ultimately show ?thesis using assms(1) u(2) by (simp add: freed_def)
qed

lemma free_slot_first:
  "f < length bs \<Longrightarrow> \<not> allocated (bs ! f) \<Longrightarrow> \<forall>j<f. allocated (bs ! j) \<Longrightarrow> free_slot i bs = Some (i + f)"
proof (induction bs arbitrary: f i)
  case (Cons b bs)
  show ?case
  proof (cases f)
    case (Suc g)
    have "\<forall>j<g. allocated (bs ! j)" using Cons.prems(3) Suc by auto
    moreover have "allocated b" using Cons.prems(3) Suc by (metis nth_Cons_0 zero_less_Suc)
    ultimately show ?thesis using Cons.IH [of g "Suc i"] Cons.prems Suc by simp
  qed (use Cons.prems in simp)
qed simp

lemma block_at_append:
  "DATA_BLOCK_ALLOC_SIZE * Suc b \<le> length xs \<Longrightarrow> data_bytes d = xs @ ys \<Longrightarrow>
   block_at d b = take DATA_BLOCK_ALLOC_SIZE (drop (DATA_BLOCK_ALLOC_SIZE * b) xs)"
  by (simp add: block_at_def)

text \<open> C24. Freed space mixes up files. After one slot \<open>f\<close> was freed (\<open>free_blocks_freed\<close>), the next file \<open>A\<close> takes the slot, but its block is
  appended to the data file at position \<open>k\<close>; the file \<open>B\<close> written next takes the slot \<open>k\<close>. From then on reading \<open>B\<close> gives
  the content of \<open>A\<close>, whatever the permissions of \<open>A\<close> are, and reading \<open>A\<close> gives the content of the deleted file. All
  calls report success. \<close>

theorem freed_space_mixes_files:
  assumes "disk_ok d k" and f: "f < k" "k < NUM_OF_DATA_BLOCKS" and n: "data_blocks nA = no_blocks" "data_blocks nB = no_blocks"
    and A: "0 < unat szA" "unat szA \<le> DATA_BLOCK_ALLOC_SIZE" "unat szA \<le> length bufA" "unat szA \<le> length outA"
    and B: "0 < unat szB" "unat szB \<le> DATA_BLOCK_ALLOC_SIZE" "unat szB \<le> length bufB" "unat szB \<le> length outB"
  shows "\<exists>mA dA mB dB. write_inode nA bufA 0 szA (freed f d) = Ret (SUCCESS, mA, szA, dA) \<and>
    write_inode nB bufB 0 szB dA = Ret (SUCCESS, mB, szB, dB) \<and>
    read_inode mB outB 0 szB dB = Ret (SUCCESS, overwrite 0 (take (unat szB) (take (unat szA) bufA @ replicate DATA_BLOCK_ALLOC_SIZE 0)) outB, szB) \<and>
    read_inode mA outA 0 szA dB = Ret (SUCCESS, overwrite 0 (take (unat szA) (block_at d f)) outA, szA)"
proof -
  let ?zA = "take (unat szA) bufA @ replicate (DATA_BLOCK_ALLOC_SIZE - unat szA) 0"
  let ?zB = "take (unat szB) bufB @ replicate (DATA_BLOCK_ALLOC_SIZE - unat szB) 0"
  let ?t = "data_block_table (freed f d)" and ?new = "\<lambda>n. \<lparr>allocated = True, inode_index = index n\<rparr>"
  have len: "length (data_block_table d) = NUM_OF_DATA_BLOCKS" "length (data_bytes d) = DATA_BLOCK_ALLOC_SIZE * k"
    and al: "\<forall>i<NUM_OF_DATA_BLOCKS. allocated (data_block_table d ! i) \<longleftrightarrow> i < k" and op: "disk_open (freed f d)"
    using assms(1) by (auto simp: disk_ok_def disk_open_def freed_def data_path_def)
  have db: "data_bytes (freed f d) = data_bytes d" by (simp add: freed_def data_bytes_def data_path_def)
  have "free_slot 0 ?t = Some (0 + f)"
    by (rule free_slot_first) (use f al len in \<open>auto simp: freed_def nth_list_update\<close>)
  then have fA: "free_slot 0 ?t = Some f" by simp
  obtain mA dA where A': "write_inode nA bufA 0 szA (freed f d) = Ret (SUCCESS, mA, szA, dA)"
    "data_blocks mA = no_blocks[0 := of_nat (Suc f)]" "disk_open dA"
    "data_block_table dA = ?t[f := ?new nA]" "data_bytes dA = data_bytes d @ ?zA"
    by (rule write_one_block [OF fA op n(1) A(1-3)]) (simp add: db)
  have "free_slot 0 (data_block_table dA) = Some (0 + k)" unfolding A'(4)
    by (rule free_slot_first) (use f al len in \<open>auto simp: freed_def nth_list_update\<close>)
  then have fB: "free_slot 0 (data_block_table dA) = Some k" by simp
  obtain mB dB where B': "write_inode nB bufB 0 szB dA = Ret (SUCCESS, mB, szB, dB)"
    "data_blocks mB = no_blocks[0 := of_nat (Suc k)]" "disk_open dB" "files (host dB) (data_path dB) \<noteq> None"
    "data_bytes dB = (data_bytes d @ ?zA) @ ?zB"
    by (rule write_one_block [OF fB A'(3) n(2) B(1-3)]) (simp add: A'(5))
  have lzA: "length ?zA = DATA_BLOCK_ALLOC_SIZE" using A(2,3) by simp
  have "block_at dB k = take DATA_BLOCK_ALLOC_SIZE (drop (DATA_BLOCK_ALLOC_SIZE * k) (data_bytes d @ ?zA))"
    by (rule block_at_append [OF _ B'(5)]) (use len lzA in simp)
  also have "\<dots> = take DATA_BLOCK_ALLOC_SIZE ?zA" using len by simp
  also have "\<dots> = ?zA" using lzA by (rule take_all_iff [THEN iffD2, OF eq_refl])
  finally have bB: "block_at dB k = ?zA" .
  have "DATA_BLOCK_ALLOC_SIZE * Suc f \<le> length (data_bytes d)" using f(1) len(2) by simp
  moreover have "data_bytes dB = data_bytes d @ (?zA @ ?zB)" by (simp add: B'(5))
  ultimately have bA: "block_at dB f = block_at d f" unfolding block_at_def [of d] by (rule block_at_append)
  have z: "take (unat szB) ?zA = take (unat szB) (take (unat szA) bufA @ replicate DATA_BLOCK_ALLOC_SIZE 0)"
    using A(2,3) B(2) by (simp add: min_def) linarith
  have "f < NUM_OF_DATA_BLOCKS" using f by simp
  note rA = read_one_block [OF B'(3,4) A'(2) this A(1,2,4), unfolded bA]
    and rB = read_one_block [OF B'(3,4,2) f(2) B(1,2,4), unfolded bB z]
  from A'(1) B'(1) rA rB show ?thesis by blast
qed

theorem freed_space_mixes_files_witness:
  "\<exists>mA dA mB dB. write_inode blank_inode [1, 2, 3] 0 3 (freed 0 (two_block_disk ''/r'')) = Ret (SUCCESS, mA, 3, dA) \<and>
    write_inode blank_inode [4, 5, 6] 0 3 dA = Ret (SUCCESS, mB, 3, dB) \<and>
    read_inode mB [0, 0, 0] 0 3 dB = Ret (SUCCESS, [1, 2, 3], 3)"
proof -
  have "overwrite 0 (take 3 ([1, 2, 3] @ replicate DATA_BLOCK_ALLOC_SIZE 0)) [0, 0, 0 :: byte] = [1, 2, 3]"
    by (simp add: overwrite_def)
  with freed_space_mixes_files [OF two_block_ok(1) [of "''/r''"], of 0 blank_inode blank_inode 3 "[1, 2, 3]" "[0, 0, 0]" 3 "[4, 5, 6]" "[0, 0, 0]"]
  show ?thesis by (auto simp: NUM_OF_DATA_BLOCKS_def)
qed

end
