(* ===== verification/Daemon.thy ===== *)
theory Daemon
  imports Server_Runs Persist
begin

text \<open>
  \<^verbatim>\<open>main\<close> of \<^verbatim>\<open>service/service.c\<close>: becoming a daemon, loading the tables, the life of the two threads
  up to their end by a signal, and storing the tables. The turns of the threads are those of \<open>Server\<close>;
  here the receiver also has the places at which a signal finds it, and the worker its last call
  \<^verbatim>\<open>pthread_kill(receiver, SIGINT)\<close>.
\<close>

subsection \<open>Becoming a daemon\<close>

datatype exit_code = EXIT_SUCCESS | EXIT_FAILURE

text \<open>What the system calls answer; \<open>os_mkdir\<close> is the error number (0 for success).\<close>

record os =
  os_fork :: int
  os_setsid :: int
  os_chdir :: int
  os_mkdir :: int

abbreviation (input) EEXIST :: int where "EEXIST \<equiv> 17"

text \<open>\<open>None\<close>: the process goes on as the daemon. The parent and every failure end it.\<close>

definition become_daemon :: "os \<Rightarrow> host \<Rightarrow> exit_code option" where
  "become_daemon os h =
     (if os_fork os < 0 then Some EXIT_FAILURE
      else if os_fork os > 0 then Some EXIT_SUCCESS
      else if os_setsid os < 0 then Some EXIT_FAILURE
      else if os_chdir os < 0 then Some EXIT_FAILURE
      else if pw_dir h = None then Some EXIT_FAILURE
      else if os_mkdir os \<noteq> 0 \<and> os_mkdir os \<noteq> EEXIST then Some EXIT_FAILURE
      else None)"

subsection \<open>The threads\<close>

text \<open>
  The receiver opens the request queue, then it tests \<^verbatim>\<open>working\<close>, prepares the message buffer, waits in \<^verbatim>\<open>msgrcv\<close>, and handles the
  message, which is part of the turn \<open>D_Msg\<close>. The main thread waits for the receiver, then for the worker.
\<close>

datatype receiver_at = At_Msgget | At_Test | Before_Msgrcv | In_Msgrcv | Receiver_Ended

datatype main_at = Join_Receiver | Join_Worker | Joined

record daemon =
  svc :: service
  receiver :: receiver_at
  kill_sent :: bool
  main_at :: main_at
  queue_opens :: bool

text \<open>
  \<open>D_Signal\<close>: SIGINT or SIGTERM handled by the main thread or the worker. (The wait of the worker in
  \<^verbatim>\<open>sem_wait\<close> ends by the post of the handler.) \<open>D_Signal_Receiver\<close>: handled by the receiver.
\<close>

datatype d_event = D_Msgget | D_Test | D_Enter | D_Msg | D_Take | D_Serve | D_Kill | D_Join_Receiver | D_Join_Worker
  | D_Signal | D_Signal_Receiver | D_Arrive request_t

definition thread_turns :: "d_event set" where
  "thread_turns = {D_Msgget, D_Test, D_Enter, D_Msg, D_Take, D_Serve, D_Kill, D_Join_Receiver, D_Join_Worker}"

text \<open>
  The handler in the receiver: inside \<^verbatim>\<open>msgrcv\<close> with no message waiting the call fails with \<^verbatim>\<open>EINTR\<close> and the
  loop is left; elsewhere the thread goes on. \<open>None\<close>: the receiver waits for a free slot of the ring, whose
  interruption is not modelled.
\<close>

definition signal_receiver :: "(nat \<Rightarrow> byte) \<Rightarrow> daemon \<Rightarrow> daemon outcome option" where
  "signal_receiver junk d =
     (if receiver d = In_Msgrcv \<and> inbox (svc d) \<noteq> [] \<and> receive junk (svc d) = None then None
      else Some (obind (end_service (svc d)) (\<lambda>s.
        Ret (d\<lparr>svc := s, receiver := (if receiver d = In_Msgrcv \<and> inbox (svc d) = [] then Receiver_Ended else receiver d)\<rparr>))))"

text \<open>
  The last statement of the worker. \<^verbatim>\<open>pthread_kill\<close> on a thread that has been joined is undefined; on one that
  has ended but is not joined yet it does nothing.
\<close>

definition kill_receiver :: "(nat \<Rightarrow> byte) \<Rightarrow> daemon \<Rightarrow> daemon outcome option" where
  "kill_receiver junk d =
     (if main_at d \<noteq> Join_Receiver then Some Undef
      else if receiver d = Receiver_Ended then Some (Ret (d\<lparr>kill_sent := True\<rparr>))
      else signal_receiver junk (d\<lparr>kill_sent := True\<rparr>))"

text \<open>One turn; \<open>None\<close> when the thread is elsewhere or waits.\<close>

fun daemon_turn :: "(nat \<Rightarrow> byte) \<Rightarrow> d_event \<Rightarrow> daemon \<Rightarrow> daemon outcome option" where
  "daemon_turn junk D_Msgget d =
     (if receiver d = At_Msgget then Some (if queue_opens d then Ret (d\<lparr>receiver := At_Test\<rparr>) else Exit) else None)"
| "daemon_turn junk D_Test d =
     (if receiver d = At_Test then Some (Ret (d\<lparr>receiver := (if working (svc d) then Before_Msgrcv else Receiver_Ended)\<rparr>)) else None)"
| "daemon_turn junk D_Enter d =
     (if receiver d = Before_Msgrcv then Some (Ret (d\<lparr>receiver := In_Msgrcv\<rparr>)) else None)"
| "daemon_turn junk D_Msg d =
     (if receiver d = In_Msgrcv
      then map_option (\<lambda>r. obind r (\<lambda>s. Ret (d\<lparr>svc := s, receiver := At_Test\<rparr>))) (receive junk (svc d)) else None)"
| "daemon_turn junk D_Take d =
     (if worker (svc d) = Idle
      then map_option (\<lambda>r. obind r (\<lambda>s. Ret (d\<lparr>svc := s\<rparr>))) (operate_take (svc d)) else None)"
| "daemon_turn junk D_Serve d =
     (case worker (svc d) of Serving i \<Rightarrow> Some (obind (operate_serve i (svc d)) (\<lambda>s. Ret (d\<lparr>svc := s\<rparr>))) | _ \<Rightarrow> None)"
| "daemon_turn junk D_Kill d =
     (if worker (svc d) = Ended \<and> \<not> kill_sent d then kill_receiver junk d else None)"
| "daemon_turn junk D_Join_Receiver d =
     (if main_at d = Join_Receiver \<and> receiver d = Receiver_Ended then Some (Ret (d\<lparr>main_at := Join_Worker\<rparr>)) else None)"
| "daemon_turn junk D_Join_Worker d =
     (if main_at d = Join_Worker \<and> worker (svc d) = Ended \<and> kill_sent d then Some (Ret (d\<lparr>main_at := Joined\<rparr>)) else None)"
| "daemon_turn junk D_Signal d = Some (obind (end_service (svc d)) (\<lambda>s. Ret (d\<lparr>svc := s\<rparr>)))"
| "daemon_turn junk D_Signal_Receiver d =
     (if receiver d = Receiver_Ended then None else signal_receiver junk d)"
| "daemon_turn junk (D_Arrive m) d = Some (Ret (d\<lparr>svc := (svc d)\<lparr>inbox := inbox (svc d) @ [m]\<rparr>\<rparr>))"

fun run_daemon :: "(nat \<Rightarrow> byte) \<Rightarrow> d_event list \<Rightarrow> daemon \<Rightarrow> daemon outcome option" where
  "run_daemon junk [] d = Some (Ret d)"
| "run_daemon junk (e # es) d = (case daemon_turn junk e d of None \<Rightarrow> None
     | Some (Ret t) \<Rightarrow> run_daemon junk es t
     | Some r \<Rightarrow> (if es = [] then Some r else None))"

subsection \<open>The whole program\<close>

definition daemon_start :: "bool \<Rightarrow> request_t list \<Rightarrow> server \<Rightarrow> daemon" where
  "daemon_start q ms sv = \<lparr>svc = service_start ms sv, receiver = At_Msgget, kill_sent = False, main_at = Join_Receiver,
     queue_opens = q\<rparr>"

text \<open>The state of the service process with the loaded tables; \<open>q\<close> tells that the message queues can be opened.\<close>

definition server_with :: "fs \<Rightarrow> bool \<Rightarrow> (nat \<Rightarrow> byte) \<Rightarrow> (nat \<Rightarrow> byte) \<Rightarrow> server" where
  "server_with f q stack heap = \<lparr>sv_fs = f, sent = [], queue_ok = q, stack_junk = stack, heap_junk = heap\<rparr>"

text \<open>After the joins: the ring is freed and the tables are written.\<close>

definition main_end :: "daemon \<Rightarrow> host outcome" where
  "main_end d = (let (_, rb) = req_bufer_destroy (server_buf (svc d)) in end_tables (sv_fs (tables (svc d))))"

text \<open>
  How a process ends up: it exits before it starts (\<open>Exited\<close>), it ends after a signal with the tables stored
  (\<open>Stored\<close>), it is still running (\<open>Running\<close>), or it stops in the middle (\<open>Stopped\<close>).
\<close>

datatype main_result = Exited exit_code | Stored host | Running daemon | Stopped "unit outcome"

definition stopped :: "'a outcome \<Rightarrow> main_result" where
  "stopped r = Stopped (map_outcome (\<lambda>_. ()) r)"

text \<open>\<open>None\<close> when the turns \<open>es\<close> are not possible in this order.\<close>

definition service_main :: "os \<Rightarrow> host \<Rightarrow> (nat \<Rightarrow> timespec) \<Rightarrow> request_t list \<Rightarrow> bool \<Rightarrow> (nat \<Rightarrow> byte) \<Rightarrow> (nat \<Rightarrow> byte) \<Rightarrow>
    d_event list \<Rightarrow> main_result option" where
  "service_main os h clk ms q stack heap es = (case become_daemon os h of
     Some c \<Rightarrow> Some (Exited c)
   | None \<Rightarrow> (case start_tables h clk of
       Ret f \<Rightarrow> (case run_daemon heap es (daemon_start q ms (server_with f q stack heap)) of
           None \<Rightarrow> None
         | Some (Ret d) \<Rightarrow> Some (if main_at d = Joined
             then case main_end d of Ret h' \<Rightarrow> Stored h' | r \<Rightarrow> stopped r
             else Running d)
         | Some r \<Rightarrow> Some (stopped r))
     | r \<Rightarrow> Some (stopped r)))"

subsection \<open>Runs of the daemon\<close>

lemma run_daemon_append:
  "run_daemon junk (xs @ ys) d = (case run_daemon junk xs d of
     Some (Ret t) \<Rightarrow> run_daemon junk ys t | Some r \<Rightarrow> (if ys = [] then Some r else None) | None \<Rightarrow> None)"
  by (induction xs arbitrary: d) (auto split: option.splits outcome.splits)

text \<open>The turns of the daemon before a signal are turns of the service.\<close>

fun d_events :: "event \<Rightarrow> d_event list" where
  "d_events Receive = [D_Test, D_Enter, D_Msg]"
| "d_events Take = [D_Take]"
| "d_events Serve = [D_Serve]"
| "d_events Signal = [D_Signal]"
| "d_events (Arrive m) = [D_Arrive m]"

lemma daemon_runs_service:
  assumes "service_run junk s es (Ret t)" and "svc d = s" "receiver d = At_Test"
  shows "run_daemon junk (concat (map d_events es)) d = Some (Ret (d\<lparr>svc := t\<rparr>))"
  using assms
proof (induction s es "Ret t :: service outcome" arbitrary: d rule: service_run.induct)
  case (nil s)
  then show ?case by simp
next
  case (step s e s' es)
  have "run_daemon junk (d_events e) d = Some (Ret (d\<lparr>svc := s'\<rparr>))"
    using step.hyps(1) step.prems by (cases e) (auto simp: service_step.simps)
  with step.hyps(3) [of "d\<lparr>svc := s'\<rparr>"] step.prems show ?case by (simp add: run_daemon_append)
qed auto

end
