(* ===== verification/Crash.thy ===== *)
theory Crash
  imports Daemon Restart Fs_System Reuse
begin

text \<open>
  What is left when the service stops without storing its tables (an \<^verbatim>\<open>exit\<close> in a handler or in the receiver, a
  fault, a kill): the operations only ever write the data file, so the files of the tables are those of the
  last regular end.
\<close>

subsection \<open>The files of the host\<close>

text \<open>Only the file \<open>p\<close> changes.\<close>

definition only_file :: "string \<Rightarrow> host \<Rightarrow> host \<Rightarrow> bool" where
  "only_file p h h' \<longleftrightarrow> pw_dir h' = pw_dir h \<and> can_open h' = can_open h \<and> (\<forall>q. q \<noteq> p \<longrightarrow> files h' q = files h q)"

definition only_data :: "host \<Rightarrow> host \<Rightarrow> bool" where
  "only_data h h' \<longleftrightarrow> (\<forall>dir. pw_dir h = Some dir \<longrightarrow> only_file (store_path dir ''/data'') h h') \<and> (pw_dir h = None \<longrightarrow> h' = h)"

lemma only_file_refl [simp]: "only_file p h h"
  by (simp add: only_file_def)

lemma only_file_trans: "only_file p h h' \<Longrightarrow> only_file p h' h'' \<Longrightarrow> only_file p h h''"
  by (simp add: only_file_def)

lemma only_data_refl [simp]: "only_data h h"
  by (simp add: only_data_def)

lemma only_data_trans: "only_data h h' \<Longrightarrow> only_data h' h'' \<Longrightarrow> only_data h h''"
  unfolding only_data_def by (cases "pw_dir h") (auto simp: only_file_def)

lemma only_file_write [simp]: "only_file p h (fwrite_append h p bs)" "only_file p h (fwrite_at h p pos bs)"
  by (simp_all add: only_file_def fwrite_append_def fwrite_at_def)

lemma only_file_open: "fopen h p m = Some h' \<Longrightarrow> only_file p h h'"
  by (auto simp: fopen_def only_file_def split: fmode.splits if_splits)

lemma libfs_path_Ret: "libfs_path h f = Ret p \<longleftrightarrow> (\<exists>dir. pw_dir h = Some dir \<and> p = store_path dir f)"
  by (auto simp: libfs_path_def store_path_def split: option.splits)

subsection \<open>The operations\<close>

text \<open>\<open>returns P m\<close>: if \<open>m\<close> returns, its result satisfies \<open>P\<close>.\<close>

definition returns :: "('a \<Rightarrow> bool) \<Rightarrow> 'a outcome \<Rightarrow> bool" where
  "returns P m \<longleftrightarrow> (\<forall>x. m = Ret x \<longrightarrow> P x)"

lemma returns_simps [simp]: "returns P (Ret x) = P x" "returns P Undef" "returns P Exit" "returns P Diverge"
  by (simp_all add: returns_def)

lemma returns_bind: "(\<And>x. m = Ret x \<Longrightarrow> returns P (f x)) \<Longrightarrow> returns P (obind m f)"
  by (cases m) simp_all

lemma returnsD: "returns P m \<Longrightarrow> m = Ret x \<Longrightarrow> P x"
  by (simp add: returns_def)

lemma only_dataI: "pw_dir h = Some dir \<Longrightarrow> only_file (store_path dir ''/data'') h h' \<Longrightarrow> only_data h h'"
  by (simp add: only_data_def)

lemma libfs_path_dir: "pw_dir h = Some dir \<Longrightarrow> libfs_path h f = Ret (store_path dir f)"
  by (simp add: libfs_path_def store_path_def)

lemma open_and_write:
  assumes "fopen h p m = Some h'" shows "only_file p h (fwrite_append h' p bs)" "only_file p h (fwrite_at h' p pos bs)"
  using only_file_trans [OF only_file_open [OF assms] only_file_write(1)] only_file_trans [OF only_file_open [OF assms] only_file_write(2)]
  by blast+

text \<open>A step on the disk: the data file may change, the block table keeps its length.\<close>

definition disk_step :: "disk \<Rightarrow> disk \<Rightarrow> bool" where
  "disk_step d d' \<longleftrightarrow> only_data (host d) (host d') \<and> length (data_block_table d') = length (data_block_table d)"

lemma disk_step_refl [simp]: "disk_step d d"
  by (simp add: disk_step_def)

lemma disk_step_trans: "disk_step d d' \<Longrightarrow> disk_step d' d'' \<Longrightarrow> disk_step d d''"
  by (auto simp: disk_step_def intro: only_data_trans)

lemma free_blocks_length: "free_blocks bs t = Ret t' \<Longrightarrow> length t' = length t"
  by (induction bs arbitrary: t) (auto split: if_splits)

lemma disk_step_freed: "free_blocks bs (data_block_table d) = Ret t \<Longrightarrow> disk_step d (d\<lparr>data_block_table := t\<rparr>)"
  by (simp add: disk_step_def free_blocks_length)

lemma occupy_returns: "returns (\<lambda>(st, slot, d'). disk_step d d') (occupy_block_table_slot ino buf n sa d)"
proof (cases "pw_dir (host d)")
  case None
  then show ?thesis by (simp add: occupy_block_table_slot_def libfs_path_def split: option.split)
next
  case (Some dir)
  note path = libfs_path_dir [OF Some, of "''/data''"]
  show ?thesis
    by (cases "fopen (host d) (store_path dir ''/data'') F_aplus")
      (auto simp: disk_step_def occupy_block_table_slot_def Let_def path open_and_write intro: only_dataI [OF Some] split: option.split)
qed

lemma update_returns: "returns (\<lambda>(st, d'). disk_step d d') (update_block_table_slot b buf off n d)"
proof (cases "pw_dir (host d)")
  case None
  then show ?thesis by (simp add: update_block_table_slot_def libfs_path_def split: option.split)
next
  case (Some dir)
  note path = libfs_path_dir [OF Some, of "''/data''"]
  show ?thesis
    by (cases "fopen (host d) (store_path dir ''/data'') F_rplus")
      (auto simp: disk_step_def update_block_table_slot_def path open_and_write intro: only_dataI [OF Some])
qed

lemma occupy_disk_step: "occupy_block_table_slot ino buf n sa d = Ret (st, slot, d') \<Longrightarrow> disk_step d d'"
  using returnsD [OF occupy_returns] by fastforce

lemma update_disk_step: "update_block_table_slot b buf off n d = Ret (st, d') \<Longrightarrow> disk_step d d'"
  using returnsD [OF update_returns] by fastforce

lemma write_loop_disk_step:
  "write_loop occupy_block_table_slot update_block_table_slot ino buf off cb is co sz bl d = Ret (st, bl', d') \<Longrightarrow>
   disk_step d d'"
proof (induction "is" arbitrary: co sz bl d)
  case (Cons i "is")
  then show ?case
    by (auto simp: Let_def obind_Ret_iff split: if_splits
        intro: disk_step_trans dest!: Cons.IH dest: occupy_disk_step update_disk_step)
qed simp

lemma write_inode_disk_step: "write_inode n buf off sz d = Ret (st, n', off', d') \<Longrightarrow> disk_step d d'"
  by (auto simp: write_inode_def Let_def obind_Ret_iff dest: write_loop_disk_step split: if_splits)

lemma upd_data_disk [simp]: "upd_inode f p s = Ret s' \<Longrightarrow> data_disk s' = data_disk s"
  "upd_desc g p s = Ret s' \<Longrightarrow> data_disk s' = data_disk s"
  by (auto simp: upd_inode_def upd_desc_def obind_Ret_iff)

lemma write_fd_disk_step: "returns (\<lambda>(st, s'). disk_step (data_disk s) (data_disk s')) (write_inode_fd hp fd buf sz s)"
  unfolding write_inode_fd_def clock_gettime_def Let_def
  by (auto intro!: returns_bind dest!: upd_data_disk write_inode_disk_step split: option.split prod.split)

lemma soft_link_disk_step:
  "returns (\<lambda>(st, s'). disk_step (data_disk s) (data_disk s')) (create_soft_link hp name new own grp md s)"
  unfolding create_soft_link_def clock_gettime_def Let_def
  by (auto intro!: returns_bind dest!: upd_data_disk write_inode_disk_step split: option.splits prod.split)

lemma unlink_disk_step: "returns (\<lambda>(st, s'). disk_step (data_disk s) (data_disk s')) (unlink_inode hp name s)"
  unfolding unlink_inode_def clock_gettime_def Let_def
  by (auto intro!: returns_bind disk_step_freed dest!: upd_data_disk simp: obind_Ret_iff split: option.splits prod.split if_splits)

abbreviation data_written :: "fs \<Rightarrow> fs \<Rightarrow> bool" where
  "data_written s s' \<equiv> disk_step (data_disk s) (data_disk s')"

lemma same_disk_returns:
  "returns (\<lambda>(st, s'). data_disk s' = data_disk s) (chmod_inode hp name md32 s)"
  "returns (\<lambda>(st, s'). data_disk s' = data_disk s) (create_hard_link hp name new s)"
  "returns (\<lambda>(st, s'). data_disk s' = data_disk s) (close_inode fd s)"
  "returns (\<lambda>(st, s'). data_disk s' = data_disk s) (seek_inode_fd hp fd off s)"
  "returns (\<lambda>(st, r, s'). data_disk s' = data_disk s) (create_file name own grp md s)"
  "returns (\<lambda>(st, r, s'). data_disk s' = data_disk s) (open_inode hp idx name flags s)"
  "returns (\<lambda>(st, r, s'). data_disk s' = data_disk s) (read_inode_fd hp fd buf sz s)"
  "returns (\<lambda>(st, r, s'). data_disk s' = data_disk s) (get_file_stat_from_inode hp name s)"
  unfolding chmod_inode_def create_hard_link_def close_inode_def seek_inode_fd_def create_file_def open_inode_def
    read_inode_fd_def get_file_stat_from_inode_def clock_gettime_def Let_def
  by (auto intro!: returns_bind dest!: upd_data_disk split: option.splits prod.split)

subsection \<open>The handlers\<close>

lemma msgsnd_tables: "msgsnd r s = Ret s' \<Longrightarrow> sv_fs s' = sv_fs s"
  by (auto simp: msgsnd_def split: if_splits)

lemma send_all_tables: "send_all rs s = Ret s' \<Longrightarrow> sv_fs s' = sv_fs s"
  by (induction rs arbitrary: s) (auto simp: obind_Ret_iff dest: msgsnd_tables)

lemma reply_tables: "reply seq st s = Ret (st', s') \<Longrightarrow> sv_fs s' = sv_fs s"
  by (auto simp: reply_def obind_Ret_iff dest: msgsnd_tables)

lemma data_written_handlers:
  "service_create req s = Ret (st, s') \<Longrightarrow> data_written (sv_fs s) (sv_fs s')"
  "service_chmode req s = Ret (st, s') \<Longrightarrow> data_written (sv_fs s) (sv_fs s')"
  "service_stat req s = Ret (st, s') \<Longrightarrow> data_written (sv_fs s) (sv_fs s')"
  "service_rename req s = Ret (st, s') \<Longrightarrow> data_written (sv_fs s) (sv_fs s')"
  "service_link req s = Ret (st, s') \<Longrightarrow> data_written (sv_fs s) (sv_fs s')"
  "service_symlink req s = Ret (st, s') \<Longrightarrow> data_written (sv_fs s) (sv_fs s')"
  "service_open req s = Ret (st, s') \<Longrightarrow> data_written (sv_fs s) (sv_fs s')"
  "service_close req s = Ret (st, s') \<Longrightarrow> data_written (sv_fs s) (sv_fs s')"
  "service_write req s = Ret (st, s') \<Longrightarrow> data_written (sv_fs s) (sv_fs s')"
  "service_read req s = Ret (st, s') \<Longrightarrow> data_written (sv_fs s) (sv_fs s')"
  "service_seek req s = Ret (st, s') \<Longrightarrow> data_written (sv_fs s) (sv_fs s')"
  "service_unlink req s = Ret (st, s') \<Longrightarrow> data_written (sv_fs s) (sv_fs s')"
  unfolding service_create_def service_chmode_def service_stat_def service_rename_def service_link_def
    service_symlink_def service_open_def service_close_def service_write_def service_read_def service_seek_def
    service_unlink_def with_queue_def on_fs_def Let_def
  by (auto simp: obind_Ret_iff split: if_splits dest!: msgsnd_tables send_all_tables reply_tables
      returnsD [OF same_disk_returns(1)] returnsD [OF same_disk_returns(2)] returnsD [OF same_disk_returns(3)]
      returnsD [OF same_disk_returns(4)] returnsD [OF same_disk_returns(5)] returnsD [OF same_disk_returns(6)]
      returnsD [OF same_disk_returns(7)] returnsD [OF same_disk_returns(8)]
      returnsD [OF write_fd_disk_step] returnsD [OF soft_link_disk_step] returnsD [OF unlink_disk_step])

lemma dispatch_data: "dispatch req s = Ret (st, s') \<Longrightarrow> data_written (sv_fs s) (sv_fs s')"
  by (auto simp: dispatch_def dest: data_written_handlers split: req_type.splits)

subsection \<open>The daemon\<close>

lemma operate_serve_data: "operate_serve i s = Ret t \<Longrightarrow> data_written (sv_fs (tables s)) (sv_fs (tables t))"
  by (auto simp: operate_serve_def Let_def obind_Ret_iff dest: dispatch_data split: option.splits if_splits req_status.splits)

lemma end_service_tables: "end_service s = Ret t \<Longrightarrow> tables t = tables s"
  by (auto simp: end_service_def split: option.splits)

lemma signal_receiver_tables: "signal_receiver junk d = Some (Ret t) \<Longrightarrow> tables (svc t) = tables (svc d)"
  by (auto simp: signal_receiver_def obind_Ret_iff dest: end_service_tables split: if_splits)

lemma receive_tables: "receive junk s = Some (Ret t) \<Longrightarrow> tables t = tables s"
  by (auto simp: receive_def obind_Ret_iff split: Option.bind_splits if_splits)

lemma operate_take_tables: "operate_take s = Some (Ret t) \<Longrightarrow> tables t = tables s"
  by (auto simp: operate_take_def split: if_splits option.splits)

lemma daemon_turn_data:
  "daemon_turn junk e d = Some (Ret t) \<Longrightarrow> data_written (sv_fs (tables (svc d))) (sv_fs (tables (svc t)))"
  by (cases e) (auto simp: obind_Ret_iff kill_receiver_def dest!: receive_tables operate_take_tables end_service_tables signal_receiver_tables
      dest: operate_serve_data split: if_splits worker.splits)

lemma run_daemon_data:
  "run_daemon junk es d = Some (Ret t) \<Longrightarrow> data_written (sv_fs (tables (svc d))) (sv_fs (tables (svc t)))"
  by (induction es arbitrary: d)
    (auto split: option.splits outcome.splits if_splits dest!: daemon_turn_data intro: disk_step_trans)

text \<open>Loading reads the three files of the tables only.\<close>

lemma fopen_read:
  assumes "only_file (store_path dir ''/data'') h h'" "g \<in> set table_files"
  shows "fopen h' (store_path dir g) F_r = (if fopen h (store_path dir g) F_r = None then None else Some h')"
    "contents h' (store_path dir g) = contents h (store_path dir g)"
  using assms by (auto simp: only_file_def fopen_def contents_def table_files_def)

lemma fopen_read_same: "fopen h p F_r = Some h1 \<Longrightarrow> h1 = h"
  by (auto simp: fopen_def split: if_splits)

lemma open_tables_same:
  assumes "only_file (store_path dir ''/data'') h h'" "pw_dir h = Some dir"
  shows "open_inode_table t h' = open_inode_table t h" "open_data_block_table h' = open_data_block_table h"
    "open_filename_table t2 h' = open_filename_table t2 h"
proof -
  have dir: "pw_dir h' = Some dir" using assms by (simp add: only_file_def)
  note simps = libfs_store_path [OF assms(2)] libfs_store_path [OF dir] fopen_read [OF assms(1)] table_files_def
  show "open_inode_table t h' = open_inode_table t h"
    by (cases "fopen h (store_path dir ''/inodes'') F_r") (auto simp: open_inode_table_def simps dest: fopen_read_same)
  show "open_data_block_table h' = open_data_block_table h"
    by (cases "fopen h (store_path dir ''/data-blocks'') F_r")
      (auto simp: open_data_block_table_def simps Let_def dest: fopen_read_same)
  show "open_filename_table t2 h' = open_filename_table t2 h"
    by (cases "fopen h (store_path dir ''/filenames'') F_r") (auto simp: open_filename_table_def simps dest: fopen_read_same)
qed

lemma start_tables_host: "start_tables h clk = Ret f \<Longrightarrow> host (data_disk f) = h"
  by (auto simp: start_tables_def obind_Ret_iff)

lemma start_tables_only_data:
  assumes "start_tables h clk = Ret f" "only_data h h'"
  shows "start_tables h' clk' = Ret (f\<lparr>data_disk := (data_disk f)\<lparr>host := h'\<rparr>, clock := clk'\<rparr>)"
proof -
  obtain dir where dir: "pw_dir h = Some dir"
    using assms(1) by (auto simp: start_tables_def open_inode_table_def libfs_path_def obind_Ret_iff split: option.splits)
  with assms(2) have "only_file (store_path dir ''/data'') h h'" by (simp add: only_data_def)
  from open_tables_same [OF this dir] assms(1) show ?thesis
    by (auto simp: start_tables_def obind_Ret_iff)
qed

end
