(* ===== verification/Lifetime.thy ===== *)
theory Lifetime
  imports Crash Service_Calls
begin

text \<open>
  The life of the service from its start to its end, with signals at any time: the tables are those of a
  prefix of the queue, because a signal changes nothing but \<^verbatim>\<open>working\<close> and the counter of the semaphore.
\<close>

subsection \<open>After a signal\<close>

definition more_full :: "nat \<Rightarrow> req_buffer_t \<Rightarrow> req_buffer_t" where
  "more_full n rb = rb\<lparr>full := full rb + n\<rparr>"

definition posted :: "nat \<Rightarrow> service \<Rightarrow> service" where
  "posted n s = s\<lparr>working := False, server_buf := map_option (more_full n) (server_buf s)\<rparr>"

lemma posted_simps [simp]: "tables (posted n s) = tables s" "worker (posted n s) = worker s" "inbox (posted n s) = inbox s"
  "\<not> working (posted n s)" "server_buf (posted n s) = map_option (more_full n) (server_buf s)"
  by (simp_all add: posted_def)

lemma end_service_posted:
  "server_buf s \<noteq> None \<Longrightarrow> end_service s = Ret (posted 1 s)"
  "server_buf s \<noteq> None \<Longrightarrow> end_service (posted n s) = Ret (posted (Suc n) s)"
  by (auto simp: end_service_def posted_def more_full_def sem_post_full_def)

text \<open>Storing a request of one part does not look at the counter.\<close>

lemma store_more_full: "store_req r (more_full n rb) = map_outcome (more_full n) (store_req r rb)"
  by (simp add: store_req_def more_full_def)

lemma handle_more_full:
  "rq_multipart m = 0 \<Longrightarrow> handle_msg junk (Some (more_full n rb)) m =
     map_option (map_outcome (\<lambda>(c, b). (c, map_option (more_full n) b))) (handle_msg junk (Some rb) m)"
  by (simp add: handle_msg_def sync_defs store_req_def more_full_def Let_def)

lemma receive_posted:
  assumes "\<forall>m\<in>set (inbox s). client_msg m"
  shows "receive junk (posted n s) = map_option (map_outcome (posted n)) (receive junk s)"
proof (cases "inbox s")
  case Nil
  then show ?thesis by (simp add: receive_def msgrcv_request_def)
next
  case (Cons m ms)
  then have m: "client_msg m" using assms by simp
  have mp: "rq_multipart (in_buffer m) = 0" using m by (simp add: client_msg_def in_buffer_def)
  show ?thesis
  proof (cases "server_buf s")
    case None
    then show ?thesis using msgrcv_client [OF m] Cons by (simp add: receive_def handle_msg_def)
  next
    case (Some rb)
    show ?thesis
    proof (cases "handle_msg junk (Some rb) (in_buffer m)")
      case None
      then show ?thesis using msgrcv_client [OF m] Cons Some handle_more_full [OF mp, of junk n rb]
        by (simp add: receive_def)
    next
      case (Some r)
      with \<open>server_buf s = Some rb\<close> show ?thesis
        using msgrcv_client [OF m] Cons handle_more_full [OF mp, of junk n rb]
        by (cases r) (auto simp: receive_def posted_def)
    qed
  qed
qed

lemma serve_posted: "operate_serve i (posted n s) = map_outcome (posted n) (operate_serve i s)"
proof (cases "server_buf s")
  case (Some rb)
  then show ?thesis
    by (cases "dispatch (reqs rb ! i) (tables s)")
      (auto simp: operate_serve_def Let_def posted_def more_full_def split: req_status.split)
qed (simp add: operate_serve_def)

subsection \<open>The tables during the life of the service\<close>

inductive lives :: "request_t list \<Rightarrow> server \<Rightarrow> service_req_t list \<Rightarrow> service \<Rightarrow> bool" for ms sv where
  running: "in_order ms sv handled s \<Longrightarrow> set (inbox s) \<subseteq> set ms \<Longrightarrow> lives ms sv handled s"
| signalled: "in_order ms sv handled s \<Longrightarrow> set (inbox s) \<subseteq> set ms \<Longrightarrow> lives ms sv handled (posted n s)"
| ended: "worker s = Ended \<Longrightarrow> k \<le> length ms \<Longrightarrow> run_ops dispatch (map entry_of (take k ms)) sv = Ret (sts, tables s) \<Longrightarrow>
    set (inbox s) \<subseteq> set ms \<Longrightarrow> lives ms sv (map entry_of (take k ms)) s"

lemma in_order_handled:
  assumes "in_order ms sv handled s"
  shows "\<exists>k \<le> length ms. handled = map entry_of (take k ms)" "\<exists>sts. run_ops dispatch handled sv = Ret (sts, tables s)"
proof -
  obtain rest sts where h: "handled @ rest = map entry_of ms" "run_ops dispatch handled sv = Ret (sts, tables s)"
    by (rule in_order_prefix [OF assms])
  then have "handled = map entry_of (take (length handled) ms)" by (metis append_eq_conv_conj take_map)
  moreover have "length handled \<le> length ms" using arg_cong [OF h(1), of length] by simp
  ultimately show "\<exists>k \<le> length ms. handled = map entry_of (take k ms)" by blast
  show "\<exists>sts. run_ops dispatch handled sv = Ret (sts, tables s)" using h(2) by blast
qed

lemma lives_prefix:
  assumes "lives ms sv handled s"
  shows "\<exists>k \<le> length ms. handled = map entry_of (take k ms) \<and> (\<exists>sts. run_ops dispatch handled sv = Ret (sts, tables s))"
  using assms in_order_handled [of ms sv handled] by cases auto

lemma lives_start: "lives ms sv [] (service_start ms sv)"
  using in_order_start [of ms sv] by (intro lives.running) (simp_all add: service_start_def)

lemma in_order_ring: "in_order ms sv handled s \<Longrightarrow> server_buf s \<noteq> None \<and> worker s \<noteq> Ended \<and> working s"
  by (auto simp: in_order_def)

lemma lives_ended:
  assumes "lives ms sv handled s" "worker t = Ended" "tables t = tables s" "set (inbox t) \<subseteq> set ms"
  shows "lives ms sv handled t"
proof -
  from lives_prefix [OF assms(1)] obtain k sts where "k \<le> length ms" "handled = map entry_of (take k ms)"
    "run_ops dispatch (map entry_of (take k ms)) sv = Ret (sts, tables t)" using assms(3) by auto
  then show ?thesis using lives.ended [OF assms(2) _ _ assms(4)] by blast
qed

lemma lives_inbox: "lives ms sv handled s \<Longrightarrow> set (inbox s) \<subseteq> set ms"
  by (cases rule: lives.cases) auto

lemma lives_signal:
  assumes "lives ms sv handled s" "end_service s = Ret t"
  shows "lives ms sv handled t"
  using assms(1)
proof cases
  case running
  then show ?thesis using assms(2) end_service_posted(1) [of s] in_order_ring [OF running(1)] lives.signalled [of ms sv handled s 1]
    by simp
next
  case (signalled s0 n)
  then show ?thesis using assms(2) end_service_posted(2) [of s0 n] in_order_ring [OF signalled(2)]
      lives.signalled [of ms sv handled s0 "Suc n"]
    by simp
next
  case (ended k sts)
  have "worker t = worker s" "tables t = tables s" "inbox t = inbox s"
    using assms(2) by (auto simp: end_service_def split: option.splits)
  then show ?thesis using lives_ended [OF assms(1), of t] ended by simp
qed

lemma receive_same: "receive junk s = Some (Ret t) \<Longrightarrow> worker t = worker s \<and> tables t = tables s \<and> set (inbox t) \<subseteq> set (inbox s)"
  by (auto simp: receive_def msgrcv_request_def obind_Ret_iff split: Option.bind_splits list.splits if_splits)

lemma lives_receive:
  assumes "lives ms sv handled s" "receive junk s = Some (Ret t)" and ms: "\<forall>m\<in>set ms. client_msg m" "length ms \<le> 256"
  shows "lives ms sv handled t"
  using assms(1)
proof cases
  case running
  then have "service_step junk s Receive (Ret t)" using in_order_ring assms(2) by simp
  from in_order_receive [OF running(1) ms this running(2)] show ?thesis by (auto intro: lives.running)
next
  case (signalled s0 n)
  have "\<forall>m\<in>set (inbox s0). client_msg m" using ms(1) signalled by auto
  from receive_posted [OF this, of junk n] assms(2) signalled(1) obtain r where
    r: "receive junk s0 = Some r" "map_outcome (posted n) r = Ret t" by auto
  then have "service_step junk s0 Receive r" using in_order_ring [OF signalled(2)] by simp
  from in_order_receive [OF signalled(2) ms this signalled(3)] r(2) show ?thesis by (auto intro: lives.signalled)
next
  case (ended k sts)
  then show ?thesis using receive_same [OF assms(2)] lives_ended [OF assms(1), of t] by auto
qed

lemma lives_take:
  assumes "lives ms sv handled s" "worker s = Idle" "operate_take s = Some (Ret t)"
  shows "lives ms sv handled t"
  using assms(1)
proof cases
  case running
  have "service_step junk s Take (Ret t)" for junk using assms(2,3) by simp
  from in_order_take [OF running(1) this] running(2) show ?thesis by (auto intro!: lives.running)
next
  case (signalled s0 n)
  with assms(3) have "worker t = Ended" "tables t = tables s" "inbox t = inbox s" by (auto simp: operate_take_def)
  then show ?thesis using lives_ended [OF assms(1), of t] signalled by simp
next
  case (ended k sts)
  with assms(2) show ?thesis by simp
qed

lemma lives_serve:
  assumes "lives ms sv handled s" "worker s = Serving i" "operate_serve i s = Ret t"
    and ms: "\<forall>m\<in>set ms. client_msg m" "length ms \<le> 256"
  shows "\<exists>handled'. lives ms sv handled' t"
  using assms(1)
proof cases
  case running
  have "service_step junk s Serve (Ret t)" for junk using assms(2,3) by simp
  from in_order_serve [OF running(1) ms this] running(2) show ?thesis by (metis lives.running)
next
  case (signalled s0 n)
  with assms(3) obtain u where u: "operate_serve i s0 = Ret u" "t = posted n u"
    by (cases "operate_serve i s0") (auto simp: serve_posted)
  have "service_step junk s0 Serve (Ret u)" for junk using assms(2) signalled(1) u(1) by simp
  from in_order_serve [OF signalled(2) ms this] signalled(3) u(2) show ?thesis by (metis lives.signalled)
next
  case (ended k sts)
  with assms(2) show ?thesis by simp
qed

text \<open>All turns and signals, without new messages.\<close>

lemma lives_turn:
  assumes "lives ms sv handled (svc d)" "daemon_turn junk e d = Some (Ret t)" "\<forall>m. e \<noteq> D_Arrive m"
    and ms: "\<forall>m\<in>set ms. client_msg m" "length ms \<le> 256"
  shows "\<exists>handled'. lives ms sv handled' (svc t)"
proof -
  have sig: "signal_receiver junk x = Some (Ret t) \<Longrightarrow> svc x = svc d \<Longrightarrow> \<exists>handled'. lives ms sv handled' (svc t)" for x
    using lives_signal [OF assms(1)] by (auto simp: signal_receiver_def obind_Ret_iff split: if_splits)
  show ?thesis
  proof (cases e)
    case D_Msg
    with assms(2) show ?thesis using lives_receive [OF assms(1) _ ms] by (fastforce simp: obind_Ret_iff split: if_splits)
  next
    case D_Take
    with assms(2) show ?thesis using lives_take [OF assms(1)] by (auto simp: obind_Ret_iff split: if_splits)
  next
    case D_Serve
    with assms(2) show ?thesis using lives_serve [OF assms(1) _ _ ms] by (fastforce simp: obind_Ret_iff split: worker.splits)
  next
    case D_Kill
    with assms show ?thesis using sig [of "d\<lparr>kill_sent := True\<rparr>"] by (auto simp: kill_receiver_def split: if_splits)
  next
    case D_Signal
    with assms(2) show ?thesis using lives_signal [OF assms(1)] by (auto simp: obind_Ret_iff)
  next
    case D_Signal_Receiver
    with assms(2) show ?thesis using sig [of d] by (auto split: if_splits)
  qed (use assms in \<open>auto split: if_splits\<close>)
qed

lemma run_daemon_lives:
  assumes "run_daemon junk es d = Some (Ret t)" "lives ms sv handled (svc d)" "\<forall>m. D_Arrive m \<notin> set es"
    and ms: "\<forall>m\<in>set ms. client_msg m" "length ms \<le> 256"
  shows "\<exists>handled'. lives ms sv handled' (svc t)"
  using assms(1-3)
proof (induction es arbitrary: d handled)
  case (Cons e es)
  then obtain u where u: "daemon_turn junk e d = Some (Ret u)" "run_daemon junk es u = Some (Ret t)"
    by (auto split: option.splits outcome.splits if_splits)
  from Cons.prems(3) have "\<forall>m. e \<noteq> D_Arrive m" by auto
  from lives_turn [OF Cons.prems(2) u(1) this ms] obtain h where "lives ms sv h (svc u)" by blast
  from Cons.IH [OF u(2) this] Cons.prems(3) show ?case by simp
qed auto

subsection \<open>The stored tables\<close>

lemma load_blocks_length: "load_blocks i ls t = Ret (st, t') \<Longrightarrow> length t' = length t"
  by (induction i ls t rule: load_blocks.induct) (auto simp: obind_Ret_iff Let_def split: if_splits)

lemma start_tables_length: "start_tables h clk = Ret f \<Longrightarrow> length (data_block_table (data_disk f)) = NUM_OF_DATA_BLOCKS"
  by (auto simp: start_tables_def open_data_block_table_def Let_def obind_Ret_iff split: option.splits dest!: load_blocks_length)

lemma only_data_store: "only_data h h' \<Longrightarrow> store_ok dir h \<Longrightarrow> store_ok dir h'"
  by (auto simp: only_data_def only_file_def store_ok_def)

lemma main_end_stored:
  assumes "start_tables h clk = Ret f" and "store_ok dir h" and "fs_rel (sv_fs (tables (svc d))) a"
    and "run_daemon junk es (daemon_start q ms (server_with f q stack heap)) = Some (Ret d)"
  shows "main_end d = Ret (stored dir a)" "store_ok dir (host (a_disk a))"
    "length (data_block_table (a_disk a)) = NUM_OF_DATA_BLOCKS"
proof -
  have "disk_step (data_disk f) (data_disk (sv_fs (tables (svc d))))"
    using run_daemon_data [OF assms(4)] by (simp add: daemon_start_def service_start_def server_with_def)
  with assms(1-3) show ok: "store_ok dir (host (a_disk a))" "length (data_block_table (a_disk a)) = NUM_OF_DATA_BLOCKS"
    using only_data_store start_tables_host [OF assms(1)] start_tables_length [OF assms(1)]
    by (auto simp: disk_step_def fs_rel_def)
  from end_tables_stored [OF assms(3) ok] show "main_end d = Ret (stored dir a)"
    by (simp add: main_end_def req_bufer_destroy_def split: option.split)
qed

lemma run_lives:
  assumes cs: "\<forall>(q, c)\<in>set cs. length (call_args c) \<le> 4064" "length cs \<le> 256"
    and g: "guarded spec_call call_guard cs A" "call_rel sv A" "spec_ok A"
    and run: "run_daemon junk es (daemon_start q (map call_msg cs) sv) = Some (Ret d)" "\<forall>m. D_Arrive m \<notin> set es"
  obtains k u A' where "k \<le> length cs" "run_ops spec_call (take k cs) A = Ret (u, A')" "call_rel (tables (svc d)) A'"
proof -
  have single: "client_msg (call_msg qc) \<and> entry_of (call_msg qc) = call_req qc" if "qc \<in> set cs" for qc
    using that cs(1) call_msg_single [of "snd qc" "fst qc"] by (cases qc) auto
  then have ms: "\<forall>m\<in>set (map call_msg cs). client_msg m" by auto
  have "lives (map call_msg cs) sv [] (svc (daemon_start q (map call_msg cs) sv))" by (simp add: daemon_start_def lives_start)
  from run_daemon_lives [OF run(1) this run(2) ms] cs(2) obtain h where "lives (map call_msg cs) sv h (svc d)" by auto
  from lives_prefix [OF this] obtain k sts where
    k: "k \<le> length cs" "run_ops dispatch (map entry_of (take k (map call_msg cs))) sv = Ret (sts, tables (svc d))" by auto
  have "map entry_of (take k (map call_msg cs)) = map call_req (take k cs)"
    using single by (auto simp: take_map dest: in_set_takeD)
  with k(2) have "map_outcome snd (run_ops exec_call (take k cs) sv) = Ret (tables (svc d))"
    using run_dispatch_calls [of "take k cs" sv] by simp
  then obtain us where "run_ops exec_call (take k cs) sv = Ret (us, tables (svc d))"
    by (cases "run_ops exec_call (take k cs) sv") auto
  from calls.run_reaches [OF g(2,3) guarded_take [OF g(1)] this] k(1) show thesis by (metis that)
qed

lemma service_main_Stored:
  assumes "service_main os h clk ms q stack heap es = Some (Stored h')"
  obtains f d where "become_daemon os h = None" "start_tables h clk = Ret f" "main_at d = Joined"
    "run_daemon heap es (daemon_start q ms (server_with f q stack heap)) = Some (Ret d)" "main_end d = Ret h'"
  using assms unfolding service_main_def stopped_def
  by (auto split: option.splits outcome.splits if_splits)

text \<open>A signal while both threads wait.\<close>

lemma daemon_shuts_down:
  assumes "receiver d = At_Test" "main_at d = Join_Receiver" "\<not> kill_sent d" "working (svc d)" "inbox (svc d) = []"
    and "worker (svc d) = Idle" "server_buf (svc d) = Some rb" "\<not> lock rb"
  obtains t where "run_daemon junk [D_Test, D_Enter, D_Signal, D_Take, D_Kill, D_Join_Receiver, D_Join_Worker] d = Some (Ret t)"
    "main_at t = Joined" "tables (svc t) = tables (svc d)"
  using assms that
  by (auto simp: end_service_def operate_take_def get_service_req_def sync_defs Let_def signal_receiver_def kill_receiver_def)

end
