(* ===== verification/Restart_Props.thy ===== *)
theory Restart_Props
  imports Restart
begin

text \<open>
  Properties of restarting the service: what the stored tables keep, and the file names that break
  the text format.
\<close>

subsection \<open>A service for the witnesses\<close>

text \<open>One file with one name on an empty disk.\<close>

definition demo_inode :: inode_t where
  "demo_inode = new_inode 0 0 1000 1000 1 420 0 (noon 1) (noon 2) (noon 3)"

definition demo_afs :: "byte list \<Rightarrow> afs" where
  "demo_afs name = \<lparr>a_names = [name_entry name 0], a_descs = [], a_inodes = [demo_inode],
     a_disk = blank_disk ''/r'', a_clock = noon, a_ticks = 0\<rparr>"

lemma demo_afs_rel: "\<exists>s. fs_rel s (demo_afs name)"
proof -
  obtain n1 ft where "append_cell (\<lambda>_. name_entry name 0) empty_table = Ret (n1, ft)"
    "table_is ft ([] @ [strip (name_entry name 0)])" by (rule append_loaded [OF table_is_empty])
  moreover obtain n2 it where "append_cell (\<lambda>_. demo_inode) empty_table = Ret (n2, it)"
    "table_is it ([] @ [strip demo_inode])" by (rule append_loaded [OF table_is_empty])
  ultimately have "fs_rel \<lparr>inode_table = it, descriptor_table = empty_table, filename_table = ft,
      data_disk = blank_disk ''/r'', clock = noon, ticks = 0\<rparr> (demo_afs name)"
    by (simp add: fs_rel_def demo_afs_def table_is_empty strip_def demo_inode_def new_inode_def)
  then show ?thesis by blast
qed

lemma demo_afs_store:
  "store_ok ''/r'' (host (a_disk (demo_afs name)))" "length (data_block_table (a_disk (demo_afs name))) = NUM_OF_DATA_BLOCKS"
  "\<forall>n\<in>set (a_inodes (demo_afs name)). inode_storable n"
  by (simp_all add: demo_afs_def blank_disk_def store_ok_def NUM_OF_DATA_BLOCKS_def inode_storable_def demo_inode_def
      new_inode_def no_blocks_def int_range_def)

subsection \<open>What a restart keeps\<close>

text \<open> C18. Restart, for tables the text format can hold: every name is non-empty, shorter than 256 bytes and without newline
  (\<open>name_storable\<close>), and every inode has a mode, a size and seconds of its times in the range of an \<^verbatim>\<open>int\<close>
  (\<open>inode_storable\<close>). Then ending the service writes its tables, and starting it again reads them back: the names and
  the inodes with their owners, modes, link counts, sizes, seconds of the times and blocks are the same,
  no file is open, and every read of a file gives what it gave before. Only the nanoseconds of the times
  change, to the product of the seconds and 1000000 as an \<^verbatim>\<open>int\<close>, whose overflow (undefined in C) is taken to wrap. Names
  outside these bounds break the restart: \<open>empty_name_stops_restart\<close>, \<open>newline_name_forges_entry\<close>. \<close>

theorem restart_keeps_files:
  assumes "fs_rel s a" and "store_ok dir (host (a_disk a))"
    and "length (data_block_table (a_disk a)) = NUM_OF_DATA_BLOCKS"
    and "\<forall>n\<in>set (a_inodes a). inode_storable n" and "\<forall>e\<in>set (a_names a). name_storable e"
  shows "\<exists>h s'. end_tables s = Ret h \<and> start_tables h clk = Ret s' \<and> fs_rel s' (start_state h clk a) \<and>
    (\<forall>n buf off sz. read_inode (reload_inode n) buf off sz (data_disk s') = read_inode n buf off sz (data_disk s))"
proof -
  obtain s' where s': "start_tables (stored dir a) clk = Ret s'" "fs_rel s' (start_state (stored dir a) clk a)"
    using start_tables_stored [OF assms(2-5)] by blast
  have "same_data (data_disk s) (data_disk s')"
    using stored_same_data [OF assms(2), of clk] s'(2) assms(1) by (simp add: fs_rel_def)
  from read_inode_same [OF this] have "read_inode (reload_inode n) buf off sz (data_disk s') =
      read_inode n buf off sz (data_disk s)" for n buf off sz
    by (simp add: read_inode_def reload_inode_def)
  with end_tables_stored [OF assms(1-3)] s' show ?thesis by blast
qed

theorem restart_keeps_files_witness:
  "\<exists>s h s'. fs_rel s (demo_afs [65]) \<and> end_tables s = Ret h \<and> start_tables h noon = Ret s' \<and>
    fs_rel s' (start_state h noon (demo_afs [65]))"
proof -
  obtain s where s: "fs_rel s (demo_afs [65])" using demo_afs_rel by blast
  have "\<forall>e\<in>set (a_names (demo_afs [65])). name_storable e"
    by (simp add: demo_afs_def name_storable_def str_ok_def)
  with restart_keeps_files [OF s demo_afs_store, of noon] s show ?thesis by blast
qed

text \<open>The block table is read back exactly, from the thousand lines that were written, but
  the function reports \<open>FAILURE\<close> (too many blocks) after every regular end of the service. \<close>

theorem block_table_reload:
  assumes "store_ok dir h" and "length t = NUM_OF_DATA_BLOCKS"
  shows "\<exists>h'. close_data_block_table t h = Ret (SUCCESS, h') \<and> open_data_block_table h' = Ret (FAILURE, t)"
proof -
  let ?h = "store_file dir ''/data-blocks'' (concat (map block_line t)) h"
  have "open_data_block_table ?h = Ret (FAILURE, t)"
    using assms by (intro open_blocks_file [of dir]) (simp_all add: table_files_def)
  with close_data_block_table_store [OF assms] show ?thesis by blast
qed

theorem block_table_reload_witness:
  "\<exists>h'. close_data_block_table (data_block_table (blank_disk ''/r'')) (host (blank_disk ''/r'')) = Ret (SUCCESS, h') \<and>
    open_data_block_table h' = Ret (FAILURE, data_block_table (blank_disk ''/r''))"
  by (rule block_table_reload [of "''/r''"]) (simp_all add: blank_disk_def store_ok_def)

subsection \<open>Names that the format cannot hold\<close>

lemma scan_empty_name: "filename e = [] \<Longrightarrow> scan_name (line_buffer (name_line e)) = Undef"
proof -
  assume e: "filename e = []"
  define k where "k = 4095 - length (name_line e)"
  have "length (name_line e) \<le> 13" using length_dec32 [of "node_index e"] e by (simp add: name_line_def)
  then have "4096 - length (name_line e) = Suc k" by (simp add: k_def)
  then have "line_buffer (name_line e) = dec32 (node_index e) @ 44 # 10 # 0 # replicate k 0"
    by (simp only: line_buffer_def replicate_Suc) (simp add: name_line_def e)
  moreover have "next_token 10 (10 # 0 # replicate k 0) = Undef"
    by (simp add: next_token_def strtok_def)
  ultimately show ?thesis by (simp add: scan_name_def)
qed

lemma load_names_stops:
  "table_is t xs \<Longrightarrow> \<forall>e\<in>set es. name_storable e \<Longrightarrow> filename e = [] \<Longrightarrow>
   load_names (map name_line es @ name_line e # ls) t = Undef"
proof (induction es arbitrary: t xs)
  case Nil
  then show ?case by (simp add: scan_empty_name)
next
  case (Cons x es)
  let ?x = "name_entry (filename x) (node_index x)"
  obtain n' t1 where t1: "append_cell (\<lambda>_. ?x) t = Ret (n', t1)" "table_is t1 (xs @ [strip ?x])"
    by (rule append_loaded [OF Cons.prems(1)])
  with Cons.IH [OF t1(2)] Cons.prems(2,3) show ?case by (simp add: scan_name_line)
qed

text \<open> C39. An empty file name (which a client can create) ends the service for good: the tables are written, but
  the next start, and every other one, passes a NULL pointer to \<^verbatim>\<open>strlen\<close> while it reads the line of the name. \<close>

theorem empty_name_stops_restart:
  assumes "fs_rel s a" and "store_ok dir (host (a_disk a))"
    and "length (data_block_table (a_disk a)) = NUM_OF_DATA_BLOCKS" and "\<forall>n\<in>set (a_inodes a). inode_storable n"
    and "a_names a = es @ e # es'" and "\<forall>x\<in>set es. name_storable x" and "filename e = []"
  shows "\<exists>h. end_tables s = Ret h \<and> (\<forall>clk. start_tables h clk = Undef)"
proof -
  let ?h = "stored dir a"
  obtain it where it: "open_inode_table empty_table ?h = Ret (SUCCESS, it)"
    using open_inodes_stored [OF assms(2,4)] by blast
  have e: "is_line (name_line e)"
    unfolding is_line_def name_line_def using length_dec32 [of "node_index e"] assms(7)
    by (intro exI [of _ "dec32 (node_index e) @ [44]"]) (auto simp: dec32_def)
  have "file_lines (concat (map name_line es) @ r) = map name_line es @ file_lines r" for r
    using assms(6) by (induction es) (auto simp: name_line_is_line)
  then have "file_lines (concat (map name_line (a_names a))) =
      map name_line es @ name_line e # file_lines (concat (map name_line es'))"
    using e by (simp add: assms(5))
  then have "open_filename_table empty_table ?h = Undef"
    using open_stored [OF _ _ stored_simps(3), of dir a] assms(2) load_names_stops [OF table_is_empty assms(6,7)]
    by (simp add: open_filename_table_def table_files_def)
  then have "start_tables ?h clk = Undef" for clk
    by (simp add: start_tables_def it open_blocks_stored [OF assms(2,3)])
  with end_tables_stored [OF assms(1-3)] show ?thesis by blast
qed

theorem empty_name_stops_restart_witness:
  "\<exists>s h. fs_rel s (demo_afs []) \<and> end_tables s = Ret h \<and> (\<forall>clk. start_tables h clk = Undef)"
proof -
  obtain s where s: "fs_rel s (demo_afs [])" using demo_afs_rel by blast
  have "a_names (demo_afs []) = [] @ name_entry [] 0 # []" by (simp add: demo_afs_def)
  from empty_name_stops_restart [OF s demo_afs_store this] s show ?thesis by auto
qed

text \<open> C40. A newline in a file name forges an entry: the name is written as two lines, so that after a
  restart the first part is a name of the file, and the second part, if it looks like an entry, is a name
  of any inode its creator wrote there. No operation has checked the permissions of that inode. \<close>

theorem newline_name_forges_entry:
  assumes "fs_rel s a" and "store_ok dir (host (a_disk a))"
    and "length (data_block_table (a_disk a)) = NUM_OF_DATA_BLOCKS" and "\<forall>n\<in>set (a_inodes a). inode_storable n"
    and "a_names a = es @ e # es'" and "\<forall>x\<in>set (es @ es'). name_storable x"
    and "filename e = n1 @ [10] @ dec32 i @ [44] @ n2"
    and "name_storable (name_entry n1 (node_index e))" and "name_storable (name_entry n2 i)"
  shows "\<exists>h s'. end_tables s = Ret h \<and> start_tables h clk = Ret s' \<and>
    table_is (filename_table s') (map (\<lambda>x. name_entry (filename x) (node_index x)) es @
      [name_entry n1 (node_index e), name_entry n2 i] @ map (\<lambda>x. name_entry (filename x) (node_index x)) es')"
proof -
  let ?b = "a\<lparr>a_names := es @ [name_entry n1 (node_index e), name_entry n2 i] @ es'\<rparr>"
  have st: "stored dir a = stored dir ?b"
    by (simp add: stored_def assms(5,7) name_line_def)
  have "\<exists>s. start_tables (stored dir ?b) clk = Ret s \<and> fs_rel s (start_state (stored dir ?b) clk ?b)"
    by (rule start_tables_stored) (use assms(2-6,8,9) in auto)
  then obtain s' where "start_tables (stored dir a) clk = Ret s'" "fs_rel s' (start_state (stored dir a) clk ?b)"
    by (auto simp: st)
  with end_tables_stored [OF assms(1-3)] show ?thesis by (auto simp: fs_rel_def start_state_def)
qed

text \<open>The name \<open>a\<close>, newline, \<open>7,b\<close>.\<close>

theorem newline_name_forges_entry_witness:
  "\<exists>s h s'. fs_rel s (demo_afs [97, 10, 55, 44, 98]) \<and> end_tables s = Ret h \<and> start_tables h noon = Ret s' \<and>
    table_is (filename_table s') [name_entry [97] 0, name_entry [98] 7]"
proof -
  let ?n = "[97, 10, 55, 44, 98]"
  obtain s where s: "fs_rel s (demo_afs ?n)" using demo_afs_rel by blast
  have d: "dec32 7 = [55]" by (simp add: dec32_def dec_def dec_digits.simps)
  have "a_names (demo_afs ?n) = [] @ name_entry ?n 0 # []" by (simp add: demo_afs_def)
  note forged = newline_name_forges_entry [OF s demo_afs_store this, of "[97]" 7 "[98]" noon]
  have "\<exists>h s'. end_tables s = Ret h \<and> start_tables h noon = Ret s' \<and>
      table_is (filename_table s') [name_entry [97] 0, name_entry [98] 7]"
    using forged by (simp add: d name_storable_def str_ok_def)
  with s show ?thesis by blast
qed

end
