(* ===== verification/Daemon_Props.thy ===== *)
theory Daemon_Props
  imports Daemon Restart_Props Server_Props
begin

text \<open>
  Properties of the whole service process: how it ends after a signal, what it stores, and what is
  lost when it does not end that way.
\<close>

subsection \<open>The end of the threads\<close>

text \<open>
  After the signal: the receiver waits in \<^verbatim>\<open>msgrcv\<close> until it is interrupted, the worker comes to its test of
  \<^verbatim>\<open>working\<close>, because the handler has posted the semaphore.
\<close>

definition ending :: "daemon \<Rightarrow> bool" where
  "ending d \<longleftrightarrow> \<not> working (svc d) \<and> inbox (svc d) = [] \<and>
     (\<exists>rb. server_buf (svc d) = Some rb \<and> \<not> lock rb \<and> (worker (svc d) \<noteq> Ended \<longrightarrow> 0 < full rb)) \<and>
     (if kill_sent d then worker (svc d) = Ended \<and> receiver d = Receiver_Ended
      else receiver d = In_Msgrcv \<and> main_at d = Join_Receiver)"

text \<open>The number of turns that are left.\<close>

definition turns_left :: "daemon \<Rightarrow> nat" where
  "turns_left d = (case worker (svc d) of Serving i \<Rightarrow> 5 | Idle \<Rightarrow> 4
     | Ended \<Rightarrow> (if \<not> kill_sent d then 3 else case main_at d of Join_Receiver \<Rightarrow> 2 | Join_Worker \<Rightarrow> 1 | Joined \<Rightarrow> 0))"

lemma operate_serve_ring:
  assumes "operate_serve i s = Ret t" "server_buf s = Some rb"
  shows "\<exists>rb'. server_buf t = Some rb' \<and> lock rb' = lock rb \<and> full rb' = full rb" "worker t = Idle" "working t = working s" "inbox t = inbox s"
  using assms by (auto simp: operate_serve_def Let_def obind_Ret_iff split: if_splits req_status.splits)

lemma operate_take_ends:
  assumes "\<not> working s" "server_buf s = Some rb" "\<not> lock rb" "0 < full rb"
  obtains rb' where "operate_take s = Some (Ret (s\<lparr>server_buf := Some rb', worker := Ended\<rparr>))" "\<not> lock rb'"
  using assms by (auto simp: operate_take_def get_service_req_def sync_defs Let_def)

lemma ending_step:
  assumes "ending d" "e \<in> thread_turns" "daemon_turn junk e d = Some (Ret t)"
  shows "ending t \<and> turns_left d = Suc (turns_left t) \<and>
    (worker (svc d) = Idle \<or> worker (svc d) = Ended \<longrightarrow> worker (svc t) = Ended \<and> tables (svc t) = tables (svc d)) \<and>
    (\<forall>i. worker (svc d) = Serving i \<longrightarrow> operate_serve i (svc d) = Ret (svc t) \<and> worker (svc t) = Idle)"
proof -
  obtain rb where rb: "server_buf (svc d) = Some rb" "\<not> lock rb" "worker (svc d) \<noteq> Ended \<longrightarrow> 0 < full rb"
    and w: "\<not> working (svc d)" "inbox (svc d) = []"
    using assms(1) by (auto simp: ending_def)
  from assms(2) consider "e = D_Take" | "e = D_Serve" | "e = D_Kill" | "e = D_Join_Receiver" | "e = D_Join_Worker"
    | "e \<in> {D_Msgget, D_Test, D_Enter, D_Msg}" by (auto simp: thread_turns_def)
  then show ?thesis
  proof cases
    case 1
    with assms(3) have idle: "worker (svc d) = Idle" by (simp split: if_splits)
    obtain rb' where "operate_take (svc d) = Some (Ret ((svc d)\<lparr>server_buf := Some rb', worker := Ended\<rparr>))" "\<not> lock rb'"
      using rb idle by (auto intro: operate_take_ends [OF w(1) rb(1,2)])
    with assms(1,3) 1 idle show ?thesis by (auto simp: ending_def turns_left_def split: if_splits)
  next
    case 2
    with assms(3) obtain i u where i: "worker (svc d) = Serving i" "operate_serve i (svc d) = Ret u" "t = d\<lparr>svc := u\<rparr>"
      by (auto simp: obind_Ret_iff split: worker.splits)
    from operate_serve_ring [OF i(2) rb(1)] i rb assms(1) show ?thesis
      by (auto simp: ending_def turns_left_def split: if_splits)
  next
    case 3
    with assms(1,3) w rb show ?thesis
      by (auto simp: ending_def turns_left_def signal_receiver_def kill_receiver_def end_service_def sem_post_full_def split: if_splits)
  next
    case 4
    with assms(1,3) show ?thesis by (auto simp: ending_def turns_left_def split: if_splits)
  next
    case 5
    with assms(1,3) show ?thesis by (auto simp: ending_def turns_left_def split: if_splits)
  next
    case 6
    with assms(1,3) w show ?thesis
      by (auto simp: ending_def receive_def msgrcv_request_def split: if_splits)
  qed
qed

lemma ending_enabled:
  assumes "ending d" "0 < turns_left d"
  shows "\<exists>e\<in>thread_turns. daemon_turn junk e d \<noteq> None"
proof -
  obtain rb where rb: "server_buf (svc d) = Some rb" "\<not> lock rb" "worker (svc d) \<noteq> Ended \<longrightarrow> 0 < full rb"
    and w: "\<not> working (svc d)"
    using assms(1) by (auto simp: ending_def)
  show ?thesis
  proof (cases "worker (svc d)")
    case Idle
    with rb have "operate_take (svc d) \<noteq> None" by (auto intro: operate_take_ends [OF w rb(1,2)])
    with Idle show ?thesis by (intro bexI [of _ D_Take]) (auto simp: thread_turns_def)
  next
    case (Serving i)
    then show ?thesis by (intro bexI [of _ D_Serve]) (auto simp: thread_turns_def)
  next
    case Ended
    show ?thesis
    proof (cases "kill_sent d")
      case False
      with Ended assms(1) show ?thesis
        by (intro bexI [of _ D_Kill]) (auto simp: thread_turns_def ending_def signal_receiver_def kill_receiver_def)
    next
      case True
      with Ended assms have "main_at d \<noteq> Joined" by (auto simp: turns_left_def)
      then consider "main_at d = Join_Receiver" | "main_at d = Join_Worker" by (cases "main_at d") auto
      then show ?thesis
      proof cases
        case 1
        with True assms(1) show ?thesis by (intro bexI [of _ D_Join_Receiver]) (auto simp: thread_turns_def ending_def)
      next
        case 2
        with True Ended show ?thesis by (intro bexI [of _ D_Join_Worker]) (auto simp: thread_turns_def)
      qed
    qed
  qed
qed

lemma run_daemon_Ret:
  "run_daemon junk (e # es) d = Some (Ret t) \<longleftrightarrow>
   (\<exists>u. daemon_turn junk e d = Some (Ret u) \<and> run_daemon junk es u = Some (Ret t))"
  by (auto split: option.splits outcome.splits if_splits)

lemma run_ending:
  assumes "run_daemon junk es d = Some (Ret t)" "ending d" "set es \<subseteq> thread_turns"
  shows "ending t \<and> turns_left d = length es + turns_left t \<and>
    (worker (svc d) = Idle \<or> worker (svc d) = Ended \<longrightarrow> tables (svc t) = tables (svc d)) \<and>
    (\<forall>i. worker (svc d) = Serving i \<and> es \<noteq> [] \<longrightarrow> (\<exists>u. operate_serve i (svc d) = Ret u \<and> tables (svc t) = tables u))"
  using assms
proof (induction es arbitrary: d)
  case Nil
  then show ?case by simp
next
  case (Cons e es)
  then obtain u where u: "daemon_turn junk e d = Some (Ret u)" "run_daemon junk es u = Some (Ret t)"
    by (auto simp: run_daemon_Ret simp del: run_daemon.simps)
  from Cons.prems have e: "e \<in> thread_turns" by simp
  note s = ending_step [OF Cons.prems(2) e u(1)]
  with Cons.IH [OF u(2)] Cons.prems(3) show ?case by auto
qed

text \<open>The signal does not change what serving a request does to the tables.\<close>

lemma operate_serve_signal:
  "server_buf s = Some rb \<Longrightarrow> map_outcome tables (operate_serve i (s\<lparr>working := w, server_buf := Some (sem_post_full rb)\<rparr>)) =
     map_outcome tables (operate_serve i s)"
  by (cases "dispatch (reqs rb ! i) (tables s)") (auto simp: operate_serve_def sem_post_full_def Let_def split: req_status.split)

text \<open> C16. Shutdown: when a signal comes while the receiver waits in \<^verbatim>\<open>msgrcv\<close> with no message in the queue, and its handler
  runs in the main thread or in the worker (\<open>D_Signal\<close>), the service ends, whatever the order of the threads' turns, if
  no message and no signal comes any more: no run in which the handler of the request being served returns has more than
  five turns, until then some thread can take one, and after the last turn \<^verbatim>\<open>main\<close> has joined both threads. Only the
  request that was being served is finished; requests that wait in the ring are dropped, their clients get no response.
  When the handler runs in the receiver itself, the service may end or not (\<open>receiver_takes_signal\<close>). \<close>

theorem shutdown_completes:
  assumes "receiver d = In_Msgrcv" and "inbox (svc d) = []" and "main_at d = Join_Receiver" and "\<not> kill_sent d"
    and "server_buf (svc d) = Some rb" and "\<not> lock rb" and "worker (svc d) \<noteq> Ended"
    and "run_daemon junk (D_Signal # es) d = Some (Ret t)" and "set es \<subseteq> thread_turns"
  shows "length es \<le> 5 \<and> (main_at t = Joined \<or> (\<exists>e\<in>thread_turns. daemon_turn junk e t \<noteq> None)) \<and>
    (main_at t = Joined \<longrightarrow> (case worker (svc d) of
       Serving i \<Rightarrow> map_outcome tables (operate_serve i (svc d)) = Ret (tables (svc t))
     | _ \<Rightarrow> tables (svc t) = tables (svc d)))"
proof -
  let ?s = "(svc d)\<lparr>working := False, server_buf := Some (sem_post_full rb)\<rparr>" and ?d = "d\<lparr>svc := (svc d)\<lparr>working := False,
    server_buf := Some (sem_post_full rb)\<rparr>\<rparr>"
  have run: "run_daemon junk es ?d = Some (Ret t)"
    using assms(5,8) by (simp add: end_service_def split: if_splits)
  have "ending ?d" using assms(1-7) by (simp add: ending_def sem_post_full_def)
  note e = run_ending [OF run this assms(9)]
  have "turns_left ?d \<le> 5" by (simp add: turns_left_def split: worker.split main_at.split)
  moreover have "main_at t = Joined \<or> (\<exists>e\<in>thread_turns. daemon_turn junk e t \<noteq> None)"
  proof (cases "turns_left t = 0")
    case True
    then have "main_at t = Joined" by (auto simp: turns_left_def split: worker.splits main_at.splits if_splits)
    then show ?thesis ..
  next
    case False
    with e ending_enabled show ?thesis by blast
  qed
  moreover have "case worker (svc d) of Serving i \<Rightarrow> map_outcome tables (operate_serve i (svc d)) = Ret (tables (svc t))
      | _ \<Rightarrow> tables (svc t) = tables (svc d)" if "main_at t = Joined"
  proof (cases "worker (svc d)")
    case (Serving i)
    have "es \<noteq> []" using that run assms(3) by auto
    with e Serving obtain u where "operate_serve i ?s = Ret u" "tables (svc t) = tables u" by auto
    with operate_serve_signal [of "svc d" rb i False] assms(5) Serving show ?thesis by simp
  qed (use e assms(7) in simp_all)
  ultimately show ?thesis using e by auto
qed

text \<open>The daemon with a request in the ring, waiting for messages.\<close>

definition demo_daemon :: "receiver_at \<Rightarrow> daemon" where
  "demo_daemon r = (daemon_start True [] one_server)\<lparr>receiver := r\<rparr>"

lemma demo_daemon_simps [simp]: "receiver (demo_daemon r) = r" "main_at (demo_daemon r) = Join_Receiver"
  "\<not> kill_sent (demo_daemon r)" "inbox (svc (demo_daemon r)) = []" "worker (svc (demo_daemon r)) = Idle"
  "working (svc (demo_daemon r))" "tables (svc (demo_daemon r)) = one_server"
  by (simp_all add: demo_daemon_def daemon_start_def service_start_def)

lemma demo_daemon_ring:
  obtains rb where "server_buf (svc (demo_daemon r)) = Some rb" "\<not> lock rb"
  by (simp add: demo_daemon_def daemon_start_def service_start_def req_buffer_create_def)

theorem shutdown_completes_witness:
  "\<exists>t. run_daemon (\<lambda>_. 0) [D_Signal, D_Take, D_Kill, D_Join_Receiver, D_Join_Worker] (demo_daemon In_Msgrcv) = Some (Ret t) \<and>
    main_at t = Joined \<and> tables (svc t) = one_server"
proof (rule demo_daemon_ring [of In_Msgrcv])
  fix rb assume rb: "server_buf (svc (demo_daemon In_Msgrcv)) = Some rb" "\<not> lock rb"
  then obtain t where t: "run_daemon (\<lambda>_. 0) [D_Signal, D_Take, D_Kill, D_Join_Receiver, D_Join_Worker] (demo_daemon In_Msgrcv) = Some (Ret t)"
    "main_at t = Joined"
    by (auto simp: end_service_def operate_take_def get_service_req_def sync_defs Let_def signal_receiver_def kill_receiver_def)
  from shutdown_completes [OF _ _ _ _ rb _ t(1)] t show ?thesis by (auto simp: thread_turns_def)
qed

subsection \<open>Signals at the wrong moment\<close>

text \<open>The receiver itself takes the signal: its \<^verbatim>\<open>msgrcv\<close> is interrupted and it ends. The service ends if the worker
  sends its SIGINT before \<^verbatim>\<open>main\<close> joins the receiver; in the other order the SIGINT is undefined, as in the case of
  \<open>kill_after_join\<close>.\<close>

lemma receiver_takes_signal:
  assumes "receiver d = In_Msgrcv" and "inbox (svc d) = []" and "main_at d = Join_Receiver" and "\<not> kill_sent d"
    and "server_buf (svc d) = Some rb" and "\<not> lock rb" and "worker (svc d) = Idle"
  shows "\<exists>t. run_daemon junk [D_Signal_Receiver, D_Take, D_Kill, D_Join_Receiver, D_Join_Worker] d = Some (Ret t) \<and>
      main_at t = Joined \<and> tables (svc t) = tables (svc d)"
    and "run_daemon junk [D_Signal_Receiver, D_Join_Receiver, D_Take, D_Kill] d = Some Undef"
  using assms
  by (auto simp: end_service_def operate_take_def get_service_req_def sync_defs Let_def signal_receiver_def kill_receiver_def)

text \<open> C26. A lost signal: when the signal comes between the receiver's test of \<^verbatim>\<open>working\<close> and its call of \<^verbatim>\<open>msgrcv\<close>,
  the worker ends and sends its SIGINT before the receiver waits. The receiver then enters \<^verbatim>\<open>msgrcv\<close>, and no thread
  can take another turn: the service neither ends nor stores its tables, until another signal or message. \<close>

theorem signal_lost_before_msgrcv:
  assumes "receiver d = Before_Msgrcv" and "inbox (svc d) = []" and "main_at d = Join_Receiver" and "\<not> kill_sent d"
    and "server_buf (svc d) = Some rb" and "\<not> lock rb" and "worker (svc d) = Idle"
  shows "\<exists>t. run_daemon junk [D_Signal, D_Take, D_Kill, D_Enter] d = Some (Ret t) \<and> tables (svc t) = tables (svc d) \<and>
    main_at t = Join_Receiver \<and> (\<forall>e\<in>thread_turns. daemon_turn junk e t = None)"
  using assms
  by (auto simp: end_service_def operate_take_def get_service_req_def sync_defs Let_def signal_receiver_def kill_receiver_def thread_turns_def
      receive_def msgrcv_request_def)

theorem signal_lost_before_msgrcv_witness:
  "\<exists>t. run_daemon (\<lambda>_. 0) [D_Signal, D_Take, D_Kill, D_Enter] (demo_daemon Before_Msgrcv) = Some (Ret t) \<and>
    main_at t = Join_Receiver \<and> (\<forall>e\<in>thread_turns. daemon_turn (\<lambda>_. 0) e t = None)"
proof (rule demo_daemon_ring [of Before_Msgrcv])
  fix rb assume rb: "server_buf (svc (demo_daemon Before_Msgrcv)) = Some rb" "\<not> lock rb"
  from signal_lost_before_msgrcv [OF _ _ _ _ rb] show ?thesis by (auto simp del: run_daemon.simps)
qed

text \<open> C27. A signal after the end of the receiver: when the signal comes while the receiver handles a message, the receiver
  ends by itself and \<^verbatim>\<open>main\<close> joins it; the \<^verbatim>\<open>pthread_kill\<close> of the worker then goes to a thread that does not exist
  any more, which is undefined, and the tables are never stored. \<close>

theorem kill_after_join:
  assumes "receiver d = At_Test" and "main_at d = Join_Receiver" and "\<not> kill_sent d"
    and "server_buf (svc d) = Some rb" and "\<not> lock rb" and "worker (svc d) = Idle"
  shows "run_daemon junk [D_Signal, D_Test, D_Join_Receiver, D_Take, D_Kill] d = Some Undef"
  using assms
  by (auto simp: end_service_def operate_take_def get_service_req_def sync_defs Let_def kill_receiver_def)

theorem kill_after_join_witness:
  "run_daemon (\<lambda>_. 0) [D_Signal, D_Test, D_Join_Receiver, D_Take, D_Kill] (demo_daemon At_Test) = Some Undef"
proof (rule demo_daemon_ring [of At_Test])
  fix rb assume rb: "server_buf (svc (demo_daemon At_Test)) = Some rb" "\<not> lock rb"
  from kill_after_join [OF _ _ _ rb] show ?thesis by simp
qed

end
