(* ===== verification/Lifetime_Props.thy ===== *)
theory Lifetime_Props
  imports Lifetime Service_Props Daemon_Props
begin

text \<open>
  Properties of the service over its whole life: what it stores when it ends, what the next start finds, and
  what is lost when it does not end regularly.
\<close>

subsection \<open>One life of the service\<close>

text \<open> C4. One life of the service: it starts from the stored tables, up to 256 requests of one part wait in its queue, and
  receiver, worker and main thread take their turns in any order, with signals at any time. If the process comes
  to its end, the files it leaves are exactly the tables the specification has after a prefix of the requests: no
  request is half done, and none is served out of order. The next start finds these tables again if the
  text of the files can hold them (\<open>storable\<close>: every name is non-empty and has no newline, modes, sizes and seconds
  are in the range of an \<^verbatim>\<open>int\<close>); that it does not otherwise is shown by \<open>empty_name_stops_restart\<close> and
  \<open>newline_name_forges_entry\<close>. No message arrives after the start, and no request frees the first cell of a list. \<close>

theorem service_lifetime:
  assumes "start_tables h clk = Ret f" and "store_ok dir h" and "fs_rel f (sp_fs A)" and "fs_ok (sp_fs A)"
    and "sp_sent A = []" and "sp_stack A = stack" and "sp_heap A = heap"
    and "\<forall>(q, c)\<in>set cs. length (call_args c) \<le> 4064" and "length cs \<le> 256" and "guarded spec_call call_guard cs A"
    and "service_main os h clk (map call_msg cs) True stack heap es = Some (Stored h')" and "\<forall>m. D_Arrive m \<notin> set es"
  shows "\<exists>k \<le> length cs. \<exists>u A'. run_ops spec_call (take k cs) A = Ret (u, A') \<and> h' = stored dir (sp_fs A') \<and>
    (storable (sp_fs A') \<longrightarrow> (\<exists>f'. start_tables h' clk' = Ret f' \<and> fs_rel f' (start_state h' clk' (sp_fs A'))))"
proof -
  obtain d where d: "run_daemon heap es (daemon_start True (map call_msg cs) (server_with f True stack heap)) = Some (Ret d)"
    "main_end d = Ret h'"
    by (rule service_main_Stored [OF assms(11)]) (use assms(1) in auto)
  have rel: "call_rel (server_with f True stack heap) A" using assms(3,5-7) by (simp add: call_rel_def server_with_def)
  have ok: "spec_ok A" using assms(4) by (simp add: spec_ok_def)
  obtain k u A' where k: "k \<le> length cs" "run_ops spec_call (take k cs) A = Ret (u, A')" "call_rel (tables (svc d)) A'"
    by (rule run_lives [OF assms(8-10) rel ok d(1) assms(12)])
  then have "fs_rel (sv_fs (tables (svc d))) (sp_fs A')" by (simp add: call_rel_def)
  note e = main_end_stored [OF assms(1,2) this d(1)]
  from e(1) d(2) have "h' = stored dir (sp_fs A')" by simp
  with k(1,2) start_tables_stored [OF e(2,3), of clk'] show ?thesis by (auto simp: storable_def)
qed

text \<open>The first start on an empty directory, with one request to create a file.\<close>

abbreviation zeros :: "nat \<Rightarrow> byte" where
  "zeros \<equiv> \<lambda>_. 0"

definition fine_os :: os where
  "fine_os = \<lparr>os_fork = 0, os_setsid = 1, os_chdir = 0, os_mkdir = 0\<rparr>"

abbreviation empty_home :: host where
  "empty_home \<equiv> host (blank_disk ''/r'')"

lemma first_start: "start_tables empty_home noon = Ret (fs_start ''/r'' noon)"
  by (simp add: start_tables_def open_inode_table_def open_data_block_table_def open_filename_table_def blank_disk_def
      libfs_path_def fopen_def fs_start_def)

lemma first_server: "server_with (fs_start dir clk) True stack heap = server_start dir clk stack heap"
  by (simp add: server_with_def server_start_def)

lemma home_store: "store_ok ''/r'' empty_home"
  by (simp add: blank_disk_def store_ok_def)

lemma demo_call_guarded: "guarded spec_call call_guard [demo_call] (spec_start ''/r'' noon zeros zeros)"
  by (auto simp: demo_call_def call_guard_def str_ok_def numbers_left_def spec_start_def a_start_def split: outcome.split)

text \<open>The turns in which the request is received, taken and served.\<close>

definition demo_turns :: "d_event list" where
  "demo_turns = D_Msgget # concat (map d_events [Receive, Take, Serve])"

definition end_turns :: "d_event list" where
  "end_turns = [D_Test, D_Enter, D_Signal, D_Take, D_Kill, D_Join_Receiver, D_Join_Worker]"

lemma demo_life:
  obtains d a where "run_daemon zeros demo_turns (daemon_start True [call_msg demo_call] (server_start ''/r'' noon zeros zeros)) = Some (Ret d)"
    "fs_rel (sv_fs (tables (svc d))) a" "a_names a = [name_entry [66] 0]"
    "\<exists>t. run_daemon zeros end_turns d = Some (Ret t) \<and>
      main_at t = Joined \<and> tables (svc t) = tables (svc d)"
proof -
  let ?sv = "server_start ''/r'' noon zeros zeros" and ?args = "call_args (snd demo_call)"
  let ?s = "service_start [call_msg demo_call] ?sv" and ?d = "daemon_start True [call_msg demo_call] ?sv"
  have l: "length ?args \<le> 4064" by (simp add: demo_call_def put_str_def)
  have parts: "request_parts CREATE 7 ?args = [call_msg demo_call]"
    using l by (simp add: call_msg_def request_parts_one demo_call_def)
  have ib: "inbox ?s = request_parts CREATE 7 ?args @ []" by (simp add: service_start_def parts)
  have l': "length ?args \<le> 4294967295" using l by simp
  obtain req r where
    r: "is_request CREATE 7 ?args req"
      "service_run zeros ?s (replicate (length (request_parts CREATE 7 ?args)) Receive @ [Take, Serve]) r"
      "map_outcome tables r = map_outcome snd (dispatch req (tables ?s))"
      "\<forall>t. r = Ret t \<longrightarrow> working t \<and> worker t = Idle \<and> inbox t = [] \<and> (\<exists>rb. server_buf t = Some rb \<and>
         rb_ok rb \<and> rb_queue rb = [] \<and> unat (rb_size rb) = 256 \<and> unat (rd_idx rb) = Suc (unat (rd_idx ring0)))"
    by (rule serve_one_request [OF start_ring(1-3) ib start_ring(4-7) l', of zeros])
  have s: "tables ?s = ?sv" by (simp add: service_start_def)
  note r = r(1) r(2) [unfolded parts, simplified] r(3) [unfolded s] r(4)
  have call: "snd demo_call = Create 5 6 420 [66]" "call_ok (Create 5 6 420 [66])" by (simp_all add: demo_call_def str_ok_def)
  have "call_safe (Create 5 6 420 [66]) (a_start ''/r'' noon)" by (simp add: numbers_left_def a_start_def)
  moreover have "fs_rel (sv_fs ?sv) (a_start ''/r'' noon)" "queue_ok ?sv" by (simp_all add: server_start_def start_rel)
  ultimately have "answers 7 ?sv (dispatch req ?sv) (answer (stack_junk ?sv) (heap_junk ?sv) (Create 5 6 420 [66]) (a_start ''/r'' noon))"
    using r(1) call start_ok [of "''/r''" noon] by (intro dispatch_answers) (simp_all del: call_args.simps)
  moreover obtain p a where a: "answer (stack_junk ?sv) (heap_junk ?sv) (Create 5 6 420 [66]) (a_start ''/r'' noon) = Ret (SUCCESS, p, a)"
    "a_names a = [name_entry [66] 0]"
    by (simp add: a_create_def a_start_def next_index_def Let_def)
  ultimately obtain st t f where d: "dispatch req ?sv = Ret (st, t)" "sv_fs t = f" "fs_rel f a"
    by (cases "dispatch req ?sv") (auto simp: answers_def)
  obtain u where u: "r = Ret u" "tables u = t" using r(3) d(1) by (cases r) auto
  then obtain rb where w: "working u" "worker u = Idle" "inbox u = []" "server_buf u = Some rb" "\<not> lock rb"
    using r(4) by (auto simp: rb_ok_def)
  let ?e = "?d\<lparr>receiver := At_Test\<rparr>"
  have "run_daemon zeros (concat (map d_events [Receive, Take, Serve])) ?e = Some (Ret (?e\<lparr>svc := u\<rparr>))"
    using r(2) u(1) by (intro daemon_runs_service [of _ ?s]) (simp_all add: daemon_start_def)
  then have run: "run_daemon zeros demo_turns ?d = Some (Ret (?e\<lparr>svc := u\<rparr>))"
    by (simp add: demo_turns_def daemon_start_def)
  have "\<exists>t. run_daemon zeros end_turns (?e\<lparr>svc := u\<rparr>) = Some (Ret t) \<and>
      main_at t = Joined \<and> tables (svc t) = tables (svc (?e\<lparr>svc := u\<rparr>))"
    unfolding end_turns_def by (rule daemon_shuts_down [of "?e\<lparr>svc := u\<rparr>" rb zeros]) (use w in \<open>auto simp: daemon_start_def simp del: run_daemon.simps\<close>)
  with run d a u show thesis by (intro that [of "?e\<lparr>svc := u\<rparr>" a]) simp_all
qed

theorem service_lifetime_witness:
  "\<exists>h' k u A'. service_main fine_os empty_home noon [call_msg demo_call] True zeros zeros (demo_turns @ end_turns) = Some (Stored h') \<and>
    k \<le> 1 \<and> run_ops spec_call (take k [demo_call]) (spec_start ''/r'' noon zeros zeros) = Ret (u, A') \<and> h' = stored ''/r'' (sp_fs A')"
proof (rule demo_life)
  fix d a assume d: "run_daemon zeros demo_turns (daemon_start True [call_msg demo_call] (server_start ''/r'' noon zeros zeros)) = Some (Ret d)"
    "fs_rel (sv_fs (tables (svc d))) a" "a_names a = [name_entry [66] 0]"
    "\<exists>t. run_daemon zeros end_turns d = Some (Ret t) \<and> main_at t = Joined \<and> tables (svc t) = tables (svc d)"
  then obtain t where t: "run_daemon zeros (demo_turns @ end_turns) (daemon_start True [call_msg demo_call]
      (server_with (fs_start ''/r'' noon) True zeros zeros)) = Some (Ret t)" "main_at t = Joined"
    "fs_rel (sv_fs (tables (svc t))) a"
    by (auto simp: run_daemon_append first_server)
  from main_end_stored(1) [OF first_start home_store t(3,1)] t(1,2) have main:
    "service_main fine_os empty_home noon [call_msg demo_call] True zeros zeros (demo_turns @ end_turns) = Some (Stored (stored ''/r'' a))"
    by (simp add: service_main_def become_daemon_def fine_os_def first_start) (simp add: blank_disk_def)
  have turns: "\<forall>m. D_Arrive m \<notin> set (demo_turns @ end_turns)" by (simp add: demo_turns_def end_turns_def)
  let ?A = "spec_start ''/r'' noon zeros zeros"
  have A: "fs_rel (fs_start ''/r'' noon) (sp_fs ?A)" "fs_ok (sp_fs ?A)" "sp_sent ?A = []" "sp_stack ?A = zeros" "sp_heap ?A = zeros"
    by (simp_all add: spec_start_def start_rel start_ok)
  have c: "\<forall>(q, c)\<in>set [demo_call]. length (call_args c) \<le> 4064" "length [demo_call] \<le> 256"
    "service_main fine_os empty_home noon (map call_msg [demo_call]) True zeros zeros (demo_turns @ end_turns) = Some (Stored (stored ''/r'' a))"
    using main by (simp_all add: demo_call_def put_str_def)
  from service_lifetime [OF first_start home_store A c(1,2) demo_call_guarded c(3) turns] main show ?thesis by fastforce
qed

subsection \<open>Stopping without the regular end\<close>

text \<open> C23. A stop without the regular end loses every change of the tables: whatever messages were handled, acknowledged
  and answered, and in whatever order the threads ran, what is on the host when the process stops (an \<^verbatim>\<open>exit\<close> in a
  handler, a fault, a kill) gives the next start the very tables this one began with. Only the data file has changed. \<close>

theorem crash_loses_changes:
  assumes "start_tables h clk = Ret f"
    and "run_daemon junk es (daemon_start q ms (server_with f q stack heap)) = Some (Ret d)"
    and "left = host (data_disk (sv_fs (tables (svc d))))"
  shows "start_tables left clk' = Ret (f\<lparr>data_disk := (data_disk f)\<lparr>host := left\<rparr>, clock := clk'\<rparr>)"
proof -
  have "only_data (host (data_disk f)) left"
    using run_daemon_data [OF assms(2)] assms(3) by (simp add: disk_step_def daemon_start_def service_start_def server_with_def)
  then show ?thesis
    using start_tables_only_data [OF assms(1)] start_tables_host [OF assms(1)] by simp
qed

text \<open>The created file is there before the stop, and gone after it.\<close>

theorem crash_loses_changes_witness:
  "\<exists>d left. run_daemon zeros demo_turns (daemon_start True [call_msg demo_call] (server_with (fs_start ''/r'' noon) True zeros zeros)) = Some (Ret d) \<and>
    left = host (data_disk (sv_fs (tables (svc d)))) \<and> table_is (filename_table (sv_fs (tables (svc d)))) [name_entry [66] 0] \<and>
    map_outcome filename_table (start_tables left noon) = Ret empty_table"
proof (rule demo_life)
  fix d a assume d: "run_daemon zeros demo_turns (daemon_start True [call_msg demo_call] (server_start ''/r'' noon zeros zeros)) = Some (Ret d)"
    "fs_rel (sv_fs (tables (svc d))) a" "a_names a = [name_entry [66] 0]"
  let ?left = "host (data_disk (sv_fs (tables (svc d))))"
  have "map_outcome filename_table (start_tables ?left noon) = Ret empty_table"
    using crash_loses_changes [OF first_start d(1) [folded first_server] refl, of noon] by (simp add: fs_start_def)
  moreover have "table_is (filename_table (sv_fs (tables (svc d)))) [name_entry [66] 0]" using d(2,3) by (simp add: fs_rel_def)
  ultimately show ?thesis using d(1) unfolding first_server by blast
qed

text \<open> C25. After such a stop files read the bytes of others: the block of a file \<open>A\<close> written before the stop is still
  at the end of the data file, but its slot is free in the table that is loaded again. The first file \<open>B\<close> written
  after the restart takes the slot, its block is appended behind that of \<open>A\<close>, and reading \<open>B\<close> gives the content of \<open>A\<close>. \<close>

theorem crash_mixes_files:
  assumes "disk_ok d k" and "k < NUM_OF_DATA_BLOCKS" and n: "data_blocks nA = no_blocks" "data_blocks nB = no_blocks"
    and A: "0 < unat szA" "unat szA \<le> DATA_BLOCK_ALLOC_SIZE" "unat szA \<le> length bufA"
    and B: "0 < unat szB" "unat szB \<le> DATA_BLOCK_ALLOC_SIZE" "unat szB \<le> length bufB" "unat szB \<le> length outB"
  shows "\<exists>mA dA mB dB. write_inode nA bufA 0 szA d = Ret (SUCCESS, mA, szA, dA) \<and>
    write_inode nB bufB 0 szB (dA\<lparr>data_block_table := data_block_table d\<rparr>) = Ret (SUCCESS, mB, szB, dB) \<and>
    read_inode mB outB 0 szB dB = Ret (SUCCESS, overwrite 0 (take (unat szB) (take (unat szA) bufA @ replicate DATA_BLOCK_ALLOC_SIZE 0)) outB, szB)"
proof -
  let ?zA = "take (unat szA) bufA @ replicate (DATA_BLOCK_ALLOC_SIZE - unat szA) 0"
  let ?zB = "take (unat szB) bufB @ replicate (DATA_BLOCK_ALLOC_SIZE - unat szB) 0"
  have len: "length (data_bytes d) = DATA_BLOCK_ALLOC_SIZE * k" and op: "disk_open d"
    using assms(1) by (auto simp: disk_ok_def disk_open_def data_path_def)
  have "free_slot 0 (data_block_table d) = Some (0 + k)"
    by (rule free_slot_first) (use assms(1,2) in \<open>auto simp: disk_ok_def\<close>)
  then have fr: "free_slot 0 (data_block_table d) = Some k" by simp
  obtain mA dA where A': "write_inode nA bufA 0 szA d = Ret (SUCCESS, mA, szA, dA)" "disk_open dA"
    "data_bytes dA = data_bytes d @ ?zA"
    by (rule write_one_block [OF fr op n(1) A])
  let ?d = "dA\<lparr>data_block_table := data_block_table d\<rparr>"
  have o': "disk_open ?d" and db: "data_bytes ?d = data_bytes dA"
    using A'(2) by (simp_all add: disk_open_def data_bytes_def data_path_def)
  have fr': "free_slot 0 (data_block_table ?d) = Some k" using fr by simp
  obtain mB dB where B': "write_inode nB bufB 0 szB ?d = Ret (SUCCESS, mB, szB, dB)"
    "data_blocks mB = no_blocks[0 := of_nat (Suc k)]" "disk_open dB" "files (host dB) (data_path dB) \<noteq> None"
    "data_bytes dB = (data_bytes d @ ?zA) @ ?zB"
    by (rule write_one_block [OF fr' o' n(2) B(1-3)]) (simp add: A'(3) db)
  have lzA: "length ?zA = DATA_BLOCK_ALLOC_SIZE" using A(2,3) by simp
  have "block_at dB k = take DATA_BLOCK_ALLOC_SIZE (drop (DATA_BLOCK_ALLOC_SIZE * k) (data_bytes d @ ?zA))"
    by (rule block_at_append [OF _ B'(5)]) (use len lzA in simp)
  also have "\<dots> = take DATA_BLOCK_ALLOC_SIZE ?zA" using len by simp
  also have "\<dots> = ?zA" using lzA by (rule take_all_iff [THEN iffD2, OF eq_refl])
  finally have bB: "block_at dB k = ?zA" .
  have z: "take (unat szB) ?zA = take (unat szB) (take (unat szA) bufA @ replicate DATA_BLOCK_ALLOC_SIZE 0)"
    using A(2,3) B(2) by (simp add: min_def) linarith
  from A'(1) B'(1) read_one_block [OF B'(3,4,2) assms(2) B(1,2,4), unfolded bB z] show ?thesis by blast
qed

theorem crash_mixes_files_witness:
  "\<exists>mA dA mB dB. write_inode blank_inode [1, 2, 3] 0 3 (two_block_disk ''/r'') = Ret (SUCCESS, mA, 3, dA) \<and>
    write_inode blank_inode [4, 5, 6] 0 3 (dA\<lparr>data_block_table := data_block_table (two_block_disk ''/r'')\<rparr>) = Ret (SUCCESS, mB, 3, dB) \<and>
    read_inode mB [0, 0, 0] 0 3 dB = Ret (SUCCESS, [1, 2, 3], 3)"
proof -
  have "overwrite 0 (take 3 ([1, 2, 3] @ replicate DATA_BLOCK_ALLOC_SIZE 0)) [0, 0, 0 :: byte] = [1, 2, 3]"
    by (simp add: overwrite_def)
  with crash_mixes_files [OF two_block_ok(1) [of "''/r''"], of blank_inode blank_inode 3 "[1, 2, 3]" 3 "[4, 5, 6]" "[0, 0, 0]"]
  show ?thesis by (auto simp: NUM_OF_DATA_BLOCKS_def)
qed

end
