(* ===== verification/Spec2Isabelle.thy ===== *)
theory Spec2Isabelle
  imports Program_Props Fs_Termination Ring_Props Isolation Reuse Lifetime_Props
begin

text \<open>
  Simulated file system: a user-space file system run by a service process (\<^verbatim>\<open>src/service\<close>) for
  clients that link the library \<^verbatim>\<open>src/lib/libfs.c\<close>. A library call packs its arguments into the
  messages of \<^verbatim>\<open>src/common.h\<close> and sends them to a System V queue; the receiver thread of the service
  puts requests into a ring buffer, the worker thread takes them out, runs a handler on the tables of
  inodes, names, descriptors and blocks, and sends the response to a second queue, where the library
  waits for it. The tables are kept in text files under \<^verbatim>\<open>~/libfs\<close> between two runs of the service.

  The theories, from the bottom up, and the code they model:
  \<^item> \<open>Prelude\<close>: machine words, the result type \<open>outcome\<close> of C code, list and word lemmas;
    \<open>Machine\<close>: runs of operations, with the locales for invariants and simulations.
  \<^item> \<open>Common\<close>: \<^verbatim>\<open>common.h\<close>, and the host (passwd entry, stdio files).
  \<^item> \<open>Linked_List\<close>: the pointer lists of \<^verbatim>\<open>service/inode.c\<close>; \<open>Filename_Table\<close>, \<open>Descriptor_Table\<close>,
    \<open>Inode_Table\<close>: the three tables built on them.
  \<^item> \<open>Block_Interface\<close>, \<open>Data_Blocks\<close>: the block table and the data file; \<open>File_IO\<close>, \<open>File_Read\<close>:
    \<^verbatim>\<open>write_inode\<close> and \<^verbatim>\<open>read_inode\<close>.
  \<^item> \<open>Fs_Ops\<close>: the operations of \<^verbatim>\<open>service/inode.c\<close> on all tables; \<open>Fs_Spec\<close>, \<open>Fs_Refine\<close>, \<open>Fs_Links\<close>: their
    specification on lists (\<open>afs\<close>, linked by \<open>fs_rel\<close>) and the refinement; \<open>Fs_System\<close>: invariant and
    runs; \<open>Fs_Props\<close>, \<open>Fs_Termination\<close>: the properties. \<open>Block_Owner\<close>, \<open>Isolation\<close>: which file owns which block,
    and that operations leave the other files alone; \<open>Reuse\<close>: what goes wrong once blocks are freed.
  \<^item> \<open>Text_Format\<close>, \<open>Persist\<close>: the \<^verbatim>\<open>open_\<close> and \<^verbatim>\<open>close_\<close> functions of \<^verbatim>\<open>service/inode.c\<close>, with \<^verbatim>\<open>fgets\<close>, \<^verbatim>\<open>strtok\<close>
    and \<^verbatim>\<open>atoi\<close> on bytes; \<open>Restart\<close>, \<open>Restart_Props\<close>: what a restart of the service keeps.
  \<^item> \<open>Marshal\<close>: the bytes of the arguments, as codecs, and the cutting of data into message parts.
  \<^item> \<open>Queue_Interface\<close>, \<open>Req_Buffer\<close>, \<open>Ring_Props\<close>: \<^verbatim>\<open>service/req_buffer.c\<close> as a bounded queue; \<open>Reassembly\<close>: requests
    that arrive in parts.
  \<^item> \<open>Service_Ops\<close>: the handlers of \<^verbatim>\<open>service/operations.c\<close>; \<open>Responses\<close>: the form of what they send;
    \<open>Service_Spec\<close>, \<open>Service_Refine\<close>: the calls of a client, what the specification answers to them, and
    that the handlers do.
  \<^item> \<open>Server\<close>: the threads of \<^verbatim>\<open>service/service.c\<close> as a step relation; \<open>Server_Runs\<close>, \<open>Server_Parts\<close>: its
    runs; \<open>Service_Calls\<close>: the whole service refines the specification; \<open>Server_Props\<close>, \<open>Service_Props\<close>: the
    properties.
  \<^item> \<open>Daemon\<close>: \<^verbatim>\<open>main\<close> of \<^verbatim>\<open>service/service.c\<close> from the fork to the storing of the tables, with the ends of the
    threads; \<open>Daemon_Props\<close>: how signals end it. \<open>Crash\<close>: what any run leaves on the host; \<open>Lifetime\<close>,
    \<open>Lifetime_Props\<close>: one life of the service, with signals at any time, against the specification, and what is
    lost when it does not end regularly.
  \<^item> \<open>Client\<close>, \<open>Client_Receive\<close>: \<^verbatim>\<open>lib/libfs.c\<close>; \<open>End_To_End\<close>, \<open>Client_Props\<close>: a client together with the service;
    \<open>Client_Calls\<close>: any sequence of library calls, through the whole system, refines the specification.
  \<^item> \<open>Programs\<close>: \<^verbatim>\<open>lib/presentation.c\<close> and \<^verbatim>\<open>lib/presentation_from_backup.c\<close>, as trees of library calls, and the rule that
    takes a run on the specification to a run on the whole system; \<open>Program_View\<close>: one rule per library call on
    what a program sees of the tables; \<open>Program_Props\<close>: what the two programs do, with a restart between them.

  How the state corresponds: the globals of \<^verbatim>\<open>inode.c\<close> are the record \<open>fs\<close>, each list a heap of cells with
  its head pointer, the block array and the host files the record \<open>disk\<close>. \<open>server\<close> adds the response queue
  and \<open>service\<close> the request queue, the ring, the flag \<^verbatim>\<open>working\<close> and what the worker is doing; \<open>daemon\<close> adds where
  the receiver and the main thread stand. \<open>world\<close> is a client process with the library's globals and both queues; what lies behind them is its \<open>peer\<close>. Operations
  return an \<open>outcome\<close>: a value, undefined behaviour, \<^verbatim>\<open>exit\<close>, or running (or waiting) for ever.

  What the groups of properties show, each under the conditions its text names: the library with the service behind
  it implements the specification on every guarded call; the pointer tables implement their list specification and
  keep its invariant; every block has one owner, and operations leave other files alone as long as no block was freed;
  reading returns what was written on a disk of which no block was freed; operations end;
  handlers answer as specified, on every branch but the one that frees the first cell of a list; any interleaving of the
  two threads is the handling of the requests one after the other, and all are handled; requests arrive whole through
  their parts where the queue does not reach the end of the ring; the client's view of writing, reading and
  opening; restarting gives the tables back that the text format can hold; a signal outside the receiver ends the
  service, and what it stores are the tables of a prefix of the requests; the two demo programs do what they show,
  from a fresh service and over a restart. The other properties state where the code does not do
  what it means to: stale head pointers, the search for a missing name, block reuse, wrapped sizes, the end
  of the ring, interleaved and oversized messages, permission bits, truncated descriptors, colliding
  sequence numbers, names the text format cannot hold, lost signals, and changes lost by any other end.

  Bounds and choices:
  \<^item> Sizes are those of the code: 1000 blocks of 4096 bytes, 100 per file, 256 ring slots, 4064 bytes of
    data per message on an LP64 machine, little-endian integers. Integers have their C width.
  \<^item> Loops over lists are \<open>partial_function\<close>s, so that a cyclic list gives \<open>Diverge\<close>; all other loops are total
    functions. No fuel is used.
  \<^item> The service is interleaved by turns: one turn of the receiver's loop, and for the worker taking the
    pointer and serving it. The queue-order properties assume at most 256 waiting requests, so that no turn of the
    receiver can overtake the worker's slot (\<open>slot_reused_while_served\<close> shows what happens otherwise).
    In the end-to-end properties the service runs while the client waits, one request at a time.
  \<^item> \<^verbatim>\<open>malloc\<close> succeeds with a fresh address; uninitialised memory holds an arbitrary function's bytes; the
    clock is an arbitrary sequence of readings. Undefined overflow of an \<^verbatim>\<open>int\<close> product, in loading times, wraps.
  \<^item> A turn of \<open>daemon\<close> ends where a signal can find the thread in another place: the receiver before its test of
    \<^verbatim>\<open>working\<close>, before \<^verbatim>\<open>msgrcv\<close>, and in it. Handling a message is one turn.

  Not modelled: the log and the messages on the standard error; the interruption by a signal of a receiver that waits for
  a free slot of the ring, and a signal before \<^verbatim>\<open>main\<close> has created the ring; \<^verbatim>\<open>rename_inode\<close>, which is declared
  and never defined; the test programs (\<^verbatim>\<open>lib/libfs_tests.c\<close>, \<^verbatim>\<open>test\<close>), which only call the library. Of the demo
  programs, reading and writing their local files is an argument and a result, and the attributes they ask for
  and never use are dropped.
\<close>

end
